(* ===== verification/Prelude.thy ===== *)
theory Prelude
  imports Main "HOL-Library.Code_Target_Nat" "HOL-Library.Multiset" "HOL-Library.AList" "HOL-Library.Sublist"
begin

text \<open>
  The shared base of the development: the collections of facts that the component theories
  fill, the type synonyms and abbreviations that name what they all use, and the generic lemmas
  on lists, options and association lists that more than one component needs.

  A Go map is an association list with distinct keys.  Where the code ranges over a map, Go
  leaves the order open; the operations that do so take the order as an argument, a function
  that rearranges the list of entries, and the theorems hold for every such rearrangement.
\<close>

named_theorems go_string_simps \<open>evaluation of the string library\<close>
named_theorems model_defs \<open>definitions unfolded together in component proofs\<close>
named_theorems inv_intros \<open>introduction rules for component invariants\<close>

section \<open>Go maps and their iteration order\<close>

type_synonym ('k, 'v) gomap = "('k \<times> 'v) list"

text \<open>The order in which one \<open>range\<close> statement visits the entries of a map.\<close>

type_synonym ('k, 'v) iter_order = "('k \<times> 'v) list \<Rightarrow> ('k \<times> 'v) list"

definition is_order :: "('k, 'v) iter_order \<Rightarrow> bool" where
  "is_order ord \<longleftrightarrow> (\<forall>m. mset (ord m) = mset m)"

abbreviation map_keys :: "('k, 'v) gomap \<Rightarrow> 'k list" where
  "map_keys m \<equiv> map fst m"

definition gomap_ok :: "('k, 'v) gomap \<Rightarrow> bool" where
  "gomap_ok m \<longleftrightarrow> distinct (map_keys m)"

lemma is_order_id [simp]: "is_order (\<lambda>m. m)"
  by (simp add: is_order_def)

lemma is_order_rev [simp]: "is_order rev"
  by (simp add: is_order_def)

lemma order_mset: "is_order ord \<Longrightarrow> mset (ord m) = mset m"
  by (simp add: is_order_def)

lemma order_set: "is_order ord \<Longrightarrow> set (ord m) = set m"
  by (metis order_mset set_mset_mset)

lemma order_length: "is_order ord \<Longrightarrow> length (ord m) = length m"
  by (metis order_mset size_mset)

lemma order_keys: "is_order ord \<Longrightarrow> set (map_keys (ord m)) = set (map_keys m)"
  by (simp add: order_set)

lemma order_distinct:
  assumes "is_order ord" and "gomap_ok m"
  shows "distinct (map_keys (ord m))"
proof -
  have "mset (map_keys (ord m)) = mset (map_keys m)"
    using assms(1) by (simp add: order_mset)
  then show ?thesis
    using assms(2) unfolding gomap_ok_def by (metis mset_eq_imp_distinct_iff)
qed

lemma order_Nil: "is_order ord \<Longrightarrow> ord m = [] \<longleftrightarrow> m = []"
  by (metis order_length length_0_conv)

lemma gomap_ok_Nil [simp]: "gomap_ok []"
  by (simp add: gomap_ok_def)

lemma gomap_ok_update [simp, inv_intros]: "gomap_ok m \<Longrightarrow> gomap_ok (AList.update k v m)"
  by (simp add: gomap_ok_def AList.distinct_update)

lemma gomap_ok_delete [simp, inv_intros]: "gomap_ok m \<Longrightarrow> gomap_ok (AList.delete k m)"
  by (simp add: gomap_ok_def AList.distinct_delete)

lemma map_of_update [simp]: "map_of (AList.update k v m) = (map_of m)(k \<mapsto> v)"
  by (rule AList.update_conv')

lemma map_of_delete [simp]: "map_of (AList.delete k m) = (map_of m)(k := None)"
  by (rule AList.delete_conv')

lemma delete_notin: "k \<notin> set (map_keys m) \<Longrightarrow> AList.delete k m = m"
  by (induction m) auto

lemma update_notin: "k \<notin> set (map_keys m) \<Longrightarrow> AList.update k v m = m @ [(k, v)]"
  by (induction m) auto

lemma map_keys_delete: "map_keys (AList.delete k m) = filter (\<lambda>x. x \<noteq> k) (map_keys m)"
  by (induction m) auto

lemma length_delete_le: "length (AList.delete k m) \<le> length m"
  by (induction m) auto

lemma length_delete_less: "k \<in> set (map_keys m) \<Longrightarrow> length (AList.delete k m) < length m"
proof (induction m)
  case (Cons p m)
  then show ?case using length_delete_le [of k m] by (cases "fst p = k") auto
qed simp

lemma gomap_ok_map_of: "gomap_ok m \<Longrightarrow> (k, v) \<in> set m \<longleftrightarrow> map_of m k = Some v"
  by (auto simp: gomap_ok_def intro: map_of_is_SomeI dest: map_of_SomeD)

section \<open>Lists\<close>

lemma nth_mem_iff_index: "x \<in> set xs \<longleftrightarrow> (\<exists>i < length xs. xs ! i = x)"
  by (auto simp: in_set_conv_nth)

lemma sum_list_delete:
  fixes f :: "'k \<times> 'v \<Rightarrow> int"
  assumes "gomap_ok m" and "map_of m k = Some v"
  shows "sum_list (map f (AList.delete k m)) = sum_list (map f m) - f (k, v)"
  using assms
proof (induction m)
  case (Cons p m)
  show ?case
  proof (cases "fst p = k")
    case True
    with Cons.prems have "k \<notin> set (map_keys m)" and "p = (k, v)"
      by (cases p; auto simp: gomap_ok_def)+
    then show ?thesis by (simp add: delete_notin)
  next
    case False
    with Cons show ?thesis by (cases p) (auto simp: gomap_ok_def)
  qed
qed simp

lemma append_eq_Cons_D: "xs @ ys = z # zs \<Longrightarrow> xs \<noteq> [] \<Longrightarrow> hd xs = z"
  by (cases xs) auto

lemma takeWhile_append_stop:
  "\<forall>x \<in> set xs. P x \<Longrightarrow> \<not> P y \<Longrightarrow> takeWhile P (xs @ y # ys) = xs"
  by (induction xs) auto

lemma dropWhile_append_stop:
  "\<forall>x \<in> set xs. P x \<Longrightarrow> \<not> P y \<Longrightarrow> dropWhile P (xs @ y # ys) = y # ys"
  by (induction xs) auto

lemma length_dropWhile_Cons: "dropWhile P xs = y # ys \<Longrightarrow> length ys < length xs"
  using length_dropWhile_le [of P xs] by simp

text \<open>The first hit of a search, as the code's \<open>for ... return\<close> loops give it.\<close>

lemma find_Some_split:
  "find P xs = Some x \<Longrightarrow> \<exists>ys zs. xs = ys @ x # zs \<and> P x \<and> (\<forall>y \<in> set ys. \<not> P y)"
proof (induction xs)
  case (Cons a xs)
  show ?case
  proof (cases "P a")
    case True
    with Cons.prems show ?thesis by (intro exI [of _ "[]"] exI [of _ xs]) simp
  next
    case False
    with Cons obtain ys zs where "xs = ys @ x # zs" "P x" "\<forall>y \<in> set ys. \<not> P y"
      by auto
    with False show ?thesis by (intro exI [of _ "a # ys"] exI [of _ zs]) simp
  qed
qed simp

text \<open>A search for the only element with a given key does not depend on the order.\<close>

lemma find_append: "find P (xs @ ys) = (case find P xs of None \<Rightarrow> find P ys | Some x \<Rightarrow> Some x)"
  by (induction xs) auto

lemma find_keyed:
  assumes "distinct (map f xs)" and "\<And>x. P x \<Longrightarrow> f x = k"
  shows "find P xs = Some x \<longleftrightarrow> x \<in> set xs \<and> P x"
  using assms(1)
proof (induction xs)
  case (Cons a xs)
  show ?case
  proof (cases "P a")
    case True
    then have "P y \<Longrightarrow> y \<notin> set xs" for y using Cons.prems assms(2) by force
    with True show ?thesis by auto
  next
    case False
    with Cons show ?thesis by auto
  qed
qed simp

lemma find_keyed_order:
  assumes "distinct (map f xs)" "distinct (map f ys)" and "set xs = set ys"
    and "\<And>x. P x \<Longrightarrow> f x = k"
  shows "find P xs = find P ys"
proof (rule option.expand)
  show "(find P xs = None) = (find P ys = None)" using assms(3) by (simp add: find_None_iff)
next
  assume "find P xs \<noteq> None" "find P ys \<noteq> None"
  then obtain x y where *: "find P xs = Some x" "find P ys = Some y" by auto
  with assms have "x \<in> set ys \<and> P x" using find_keyed [of f xs P k] by blast
  then have "find P ys = Some x" using find_keyed [of f ys P k] assms by blast
  with * show "the (find P xs) = the (find P ys)" by simp
qed

lemma set_map_filter: "set (List.map_filter f xs) = {y. \<exists>x \<in> set xs. f x = Some y}"
  by (induction xs) (auto simp: List.map_filter_simps split: option.splits)

end
