(* ===== verification/Go_Strings.thy ===== *)
theory Go_Strings
  imports Prelude Go_Unicode "HOL-Library.Char_ord"
begin

text \<open>
  The parts of Go's \<open>strings\<close>, \<open>bytes\<close>, \<open>unicode/utf8\<close> and \<open>strconv\<close> packages that the program
  uses.  A Go string is a list of bytes, which is what \<open>string\<close> is here: a \<open>char\<close> is one of 256
  bytes, and a rune is a \<open>nat\<close>.  Decoding follows \<open>utf8.DecodeRune\<close>: an ill-formed sequence is
  the rune U+FFFD of width 1.
\<close>

section \<open>Bytes\<close>

definition byte :: "char \<Rightarrow> nat" where
  "byte c = of_char c"

definition is_upper :: "char \<Rightarrow> bool" where
  "is_upper c \<longleftrightarrow> 65 \<le> byte c \<and> byte c \<le> 90"

definition is_lower :: "char \<Rightarrow> bool" where
  "is_lower c \<longleftrightarrow> 97 \<le> byte c \<and> byte c \<le> 122"

definition is_digit :: "char \<Rightarrow> bool" where
  "is_digit c \<longleftrightarrow> 48 \<le> byte c \<and> byte c \<le> 57"

definition is_alnum :: "char \<Rightarrow> bool" where
  "is_alnum c \<longleftrightarrow> is_upper c \<or> is_lower c \<or> is_digit c"

definition is_ascii :: "string \<Rightarrow> bool" where
  "is_ascii s \<longleftrightarrow> (\<forall>c \<in> set s. byte c < 128)"

definition ascii_lower :: "char \<Rightarrow> char" where
  "ascii_lower c = (if is_upper c then char_of (byte c + 32) else c)"

definition ascii_upper :: "char \<Rightarrow> char" where
  "ascii_upper c = (if is_lower c then char_of (byte c - 32) else c)"

lemma byte_less [simp]: "byte c < 256"
  by (simp add: byte_def)

lemma char_of_byte [simp]: "char_of (byte c) = c"
  by (simp add: byte_def)

lemma byte_char_of [simp]: "n < 256 \<Longrightarrow> byte (char_of n) = n"
  by (simp add: byte_def)

lemma byte_inject [simp]: "byte c = byte d \<longleftrightarrow> c = d"
  by (simp add: byte_def)

section \<open>UTF-8\<close>

definition is_cont :: "char \<Rightarrow> bool" where
  "is_cont c \<longleftrightarrow> 128 \<le> byte c \<and> byte c \<le> 191"

definition rune_error :: nat where
  "rune_error = 65533"

text \<open>
  \<open>utf8.DecodeRuneInString\<close>: the rune and the number of bytes it takes.  The second byte's range
  depends on the first, which rules out overlong forms, surrogates and runes above U+10FFFF.
\<close>

definition second_range :: "nat \<Rightarrow> nat \<times> nat" where
  "second_range b = (if b = 224 then (160, 191)
     else if b = 237 then (128, 159)
     else if b = 240 then (144, 191)
     else if b = 244 then (128, 143)
     else (128, 191))"

definition second_ok :: "nat \<Rightarrow> char \<Rightarrow> bool" where
  "second_ok b c \<longleftrightarrow> fst (second_range b) \<le> byte c \<and> byte c \<le> snd (second_range b)"

fun decode_rune :: "string \<Rightarrow> nat \<times> nat" where
  "decode_rune [] = (rune_error, 0)"
| "decode_rune (a # s) =
    (let b = byte a in
     if b < 128 then (b, 1)
     else if 194 \<le> b \<and> b \<le> 223 then
       (case s of
          x # _ \<Rightarrow> if is_cont x then ((b - 192) * 64 + (byte x - 128), 2) else (rune_error, 1)
        | _ \<Rightarrow> (rune_error, 1))
     else if 224 \<le> b \<and> b \<le> 239 then
       (case s of
          x # y # _ \<Rightarrow> if second_ok b x \<and> is_cont y
            then ((b - 224) * 4096 + (byte x - 128) * 64 + (byte y - 128), 3) else (rune_error, 1)
        | _ \<Rightarrow> (rune_error, 1))
     else if 240 \<le> b \<and> b \<le> 244 then
       (case s of
          x # y # z # _ \<Rightarrow> if second_ok b x \<and> is_cont y \<and> is_cont z
            then ((b - 240) * 262144 + (byte x - 128) * 4096 + (byte y - 128) * 64
                  + (byte z - 128), 4)
            else (rune_error, 1)
        | _ \<Rightarrow> (rune_error, 1))
     else (rune_error, 1))"

lemma decode_rune_width: "s \<noteq> [] \<Longrightarrow> 0 < snd (decode_rune s) \<and> snd (decode_rune s) \<le> length s"
  by (cases s) (auto simp: Let_def split: list.splits)

text \<open>The runes of a string with the bytes each one takes, as \<open>for _, r := range s\<close> visits them.\<close>

function rune_chunks :: "string \<Rightarrow> (nat \<times> string) list" where
  "rune_chunks s = (if s = [] then []
     else (fst (decode_rune s), take (snd (decode_rune s)) s)
          # rune_chunks (drop (snd (decode_rune s)) s))"
  by pat_completeness auto
termination
  using decode_rune_width by (relation "measure length") (auto simp: diff_less)

declare rune_chunks.simps [simp del]

lemma rune_chunks_Nil [simp]: "rune_chunks [] = []"
  by (simp add: rune_chunks.simps)

lemma rune_chunks_Cons:
  "s \<noteq> [] \<Longrightarrow> rune_chunks s = (fst (decode_rune s), take (snd (decode_rune s)) s)
     # rune_chunks (drop (snd (decode_rune s)) s)"
  by (simp add: rune_chunks.simps [of s])

definition runes :: "string \<Rightarrow> nat list" where
  "runes s = map fst (rune_chunks s)"

text \<open>\<open>utf8.Valid\<close>: no byte is read as the error rune of width 1.\<close>

definition utf8_valid :: "string \<Rightarrow> bool" where
  "utf8_valid s \<longleftrightarrow> (\<forall>(r, bs) \<in> set (rune_chunks s). r \<noteq> rune_error \<or> length bs \<noteq> 1)"

text \<open>\<open>utf8.AppendRune\<close>: runes that are no Unicode scalar value are written as U+FFFD.\<close>

definition encode_rune :: "nat \<Rightarrow> string" where
  "encode_rune r =
    (if r < 128 then [char_of r]
     else if r < 2048 then [char_of (192 + r div 64), char_of (128 + r mod 64)]
     else if (55296 \<le> r \<and> r \<le> 57343) \<or> 1114111 < r then [CHR 0xEF, CHR 0xBF, CHR 0xBD]
     else if r < 65536 then
       [char_of (224 + r div 4096), char_of (128 + r div 64 mod 64), char_of (128 + r mod 64)]
     else
       [char_of (240 + r div 262144), char_of (128 + r div 4096 mod 64),
        char_of (128 + r div 64 mod 64), char_of (128 + r mod 64)])"

definition encode_runes :: "nat list \<Rightarrow> string" where
  "encode_runes rs = concat (map encode_rune rs)"

lemma concat_rune_chunks: "concat (map snd (rune_chunks s)) = s"
proof (induction s rule: rune_chunks.induct)
  case (1 s)
  then show ?case by (cases "s = []") (simp_all add: rune_chunks_Cons)
qed

lemma rune_chunks_ascii_Cons:
  "byte c < 128 \<Longrightarrow> rune_chunks (c # s) = (byte c, [c]) # rune_chunks s"
  by (simp add: rune_chunks_Cons [of "c # s"] Let_def)

lemma runes_ascii: "is_ascii s \<Longrightarrow> runes s = map byte s"
  by (induction s) (simp_all add: runes_def is_ascii_def rune_chunks_ascii_Cons)

lemma length_runes_le: "length (runes s) \<le> length s"
proof (induction s rule: rune_chunks.induct)
  case (1 s)
  show ?case
  proof (cases "s = []")
    case False
    with 1 decode_rune_width [OF False] show ?thesis
      by (simp add: runes_def rune_chunks_Cons) linarith
  qed (simp add: runes_def)
qed

section \<open>Case mapping and folding\<close>

text \<open>\<open>strings.ToLower\<close> and \<open>strings.ToUpper\<close> map every rune; an ill-formed byte becomes U+FFFD.\<close>

definition to_lower :: "string \<Rightarrow> string" where
  "to_lower s = encode_runes (map rune_lower (runes s))"

definition to_upper :: "string \<Rightarrow> string" where
  "to_upper s = encode_runes (map rune_upper (runes s))"

lemma encode_rune_ascii: "r < 128 \<Longrightarrow> encode_rune r = [char_of r]"
  by (simp add: encode_rune_def)

lemma encode_rune_lower: "byte c < 128 \<Longrightarrow> encode_rune (rune_lower (byte c)) = [ascii_lower c]"
  by (simp add: rune_lower_def encode_rune_def ascii_lower_def is_upper_def)

lemma encode_rune_upper: "byte c < 128 \<Longrightarrow> encode_rune (rune_upper (byte c)) = [ascii_upper c]"
  by (auto simp: rune_upper_def encode_rune_def ascii_upper_def is_lower_def)

lemma to_lower_ascii: "is_ascii s \<Longrightarrow> to_lower s = map ascii_lower s"
  by (induction s)
    (simp_all add: to_lower_def encode_runes_def runes_ascii is_ascii_def encode_rune_lower)

lemma to_upper_ascii: "is_ascii s \<Longrightarrow> to_upper s = map ascii_upper s"
  by (induction s)
    (simp_all add: to_upper_def encode_runes_def runes_ascii is_ascii_def encode_rune_upper)

lemma to_lower_Nil [simp]: "to_lower [] = []"
  by (simp add: to_lower_def encode_runes_def runes_def)

lemma to_lower_Cons_ascii:
  "byte c < 128 \<Longrightarrow> to_lower (c # s) = ascii_lower c # to_lower s"
  by (simp add: to_lower_def encode_runes_def runes_def rune_chunks_ascii_Cons encode_rune_lower)

text \<open>
  \<open>strings.EqualFold\<close> where one side is ASCII, the only way the program calls it.  Simple folding
  joins an ASCII letter with its other case, \<open>k\<close> with the Kelvin sign and \<open>s\<close> with the long s;
  every other rune above ASCII folds to no ASCII rune.
\<close>

definition rune_fold :: "nat \<Rightarrow> nat" where
  "rune_fold r = (if r = 8490 then 107 else if r = 383 then 115 else
     if 65 \<le> r \<and> r \<le> 90 then r + 32 else r)"

definition equal_fold :: "string \<Rightarrow> string \<Rightarrow> bool" where
  "equal_fold s t \<longleftrightarrow> map rune_fold (runes s) = map rune_fold (runes t)"

section \<open>Trimming\<close>

text \<open>
  \<open>strings.TrimSpace\<close> removes the runes of Unicode's White_Space property from both ends.  On
  bytes that is removing the encodings below, no one of which is a prefix or suffix of another.
\<close>

definition space_encs :: "string list" where
  "space_encs =
   [[CHR 0x09], [CHR 0x0A], [CHR 0x0B], [CHR 0x0C], [CHR 0x0D], [CHR 0x20],
    [CHR 0xC2, CHR 0x85], [CHR 0xC2, CHR 0xA0], [CHR 0xE1, CHR 0x9A, CHR 0x80],
    [CHR 0xE2, CHR 0x80, CHR 0x80], [CHR 0xE2, CHR 0x80, CHR 0x81], [CHR 0xE2, CHR 0x80, CHR 0x82],
    [CHR 0xE2, CHR 0x80, CHR 0x83], [CHR 0xE2, CHR 0x80, CHR 0x84], [CHR 0xE2, CHR 0x80, CHR 0x85],
    [CHR 0xE2, CHR 0x80, CHR 0x86], [CHR 0xE2, CHR 0x80, CHR 0x87], [CHR 0xE2, CHR 0x80, CHR 0x88],
    [CHR 0xE2, CHR 0x80, CHR 0x89], [CHR 0xE2, CHR 0x80, CHR 0x8A], [CHR 0xE2, CHR 0x80, CHR 0xA8],
    [CHR 0xE2, CHR 0x80, CHR 0xA9], [CHR 0xE2, CHR 0x80, CHR 0xAF], [CHR 0xE2, CHR 0x81, CHR 0x9F],
    [CHR 0xE3, CHR 0x80, CHR 0x80]]"

fun strip_one :: "string list \<Rightarrow> string \<Rightarrow> string option" where
  "strip_one [] s = None"
| "strip_one (e # es) s =
    (if e \<noteq> [] \<and> prefix e s then Some (drop (length e) s) else strip_one es s)"

lemma strip_one_Some: "strip_one es s = Some r \<Longrightarrow> \<exists>e \<in> set es. e \<noteq> [] \<and> s = e @ r"
  by (induction es) (auto split: if_splits simp: prefix_def)

lemma strip_one_length: "strip_one es s = Some r \<Longrightarrow> length r < length s"
  by (auto dest: strip_one_Some)

function strip_all :: "string list \<Rightarrow> string \<Rightarrow> string" where
  "strip_all es s = (case strip_one es s of None \<Rightarrow> s | Some r \<Rightarrow> strip_all es r)"
  by pat_completeness auto
termination
  by (relation "measure (\<lambda>(es, s). length s)") (auto dest: strip_one_length)

declare strip_all.simps [simp del]

definition trim_left :: "string \<Rightarrow> string" where
  "trim_left s = strip_all space_encs s"

definition trim_right :: "string \<Rightarrow> string" where
  "trim_right s = rev (strip_all (map rev space_encs) (rev s))"

definition trim_space :: "string \<Rightarrow> string" where
  "trim_space s = trim_right (trim_left s)"

text \<open>\<open>strings.Trim(s, cutset)\<close> and its one-sided forms, for a one-byte cutset.\<close>

definition trim_byte_left :: "char \<Rightarrow> string \<Rightarrow> string" where
  "trim_byte_left c s = dropWhile (\<lambda>x. x = c) s"

definition trim_byte_right :: "char \<Rightarrow> string \<Rightarrow> string" where
  "trim_byte_right c s = rev (dropWhile (\<lambda>x. x = c) (rev s))"

definition trim_byte :: "char \<Rightarrow> string \<Rightarrow> string" where
  "trim_byte c s = trim_byte_right c (trim_byte_left c s)"

section \<open>Searching and splitting\<close>

definition has_prefix :: "string \<Rightarrow> string \<Rightarrow> bool" where
  "has_prefix s p \<longleftrightarrow> take (length p) s = p"

definition has_suffix :: "string \<Rightarrow> string \<Rightarrow> bool" where
  "has_suffix s p \<longleftrightarrow> length p \<le> length s \<and> drop (length s - length p) s = p"

definition cut_prefix :: "string \<Rightarrow> string \<Rightarrow> string option" where
  "cut_prefix s p = (if has_prefix s p then Some (drop (length p) s) else None)"

definition cut_suffix :: "string \<Rightarrow> string \<Rightarrow> string option" where
  "cut_suffix s p = (if has_suffix s p then Some (take (length s - length p) s) else None)"

text \<open>\<open>strings.Cut\<close>: the text before and after the first separator, \<open>None\<close> when there is none.\<close>

fun cut :: "string \<Rightarrow> string \<Rightarrow> (string \<times> string) option" where
  "cut sep [] = (if sep = [] then Some ([], []) else None)"
| "cut sep (c # s) =
    (if has_prefix (c # s) sep then Some ([], drop (length sep) (c # s))
     else map_option (\<lambda>(a, b). (c # a, b)) (cut sep s))"

definition contains :: "string \<Rightarrow> string \<Rightarrow> bool" where
  "contains s sep \<longleftrightarrow> cut sep s \<noteq> None"

text \<open>\<open>strings.Split\<close> at a one-byte separator: never empty.\<close>

fun split_byte :: "char \<Rightarrow> string \<Rightarrow> string list" where
  "split_byte c [] = [[]]"
| "split_byte c (x # s) =
    (if x = c then [] # split_byte c s
     else (case split_byte c s of [] \<Rightarrow> [[x]] | p # ps \<Rightarrow> (x # p) # ps))"

fun join :: "string \<Rightarrow> string list \<Rightarrow> string" where
  "join sep [] = []"
| "join sep [s] = s"
| "join sep (s # t # ss) = s @ sep @ join sep (t # ss)"

section \<open>Decimal integers\<close>

text \<open>\<open>strconv.FormatInt(n, 10)\<close> and \<open>strconv.Itoa\<close>.\<close>

fun nat_digits :: "nat \<Rightarrow> string" where
  "nat_digits n = (if n < 10 then [char_of (48 + n)]
     else nat_digits (n div 10) @ [char_of (48 + n mod 10)])"

declare nat_digits.simps [simp del]

definition format_int :: "int \<Rightarrow> string" where
  "format_int n = (if n < 0 then CHR ''-'' # nat_digits (nat (- n)) else nat_digits (nat n))"

definition digits_value :: "string \<Rightarrow> nat" where
  "digits_value s = fold (\<lambda>c n. n * 10 + (byte c - 48)) s 0"

definition int64_min :: int where
  "int64_min = - 9223372036854775808"

definition int64_max :: int where
  "int64_max = 9223372036854775807"

definition in_int64 :: "int \<Rightarrow> bool" where
  "in_int64 n \<longleftrightarrow> int64_min \<le> n \<and> n \<le> int64_max"

text \<open>An int64 result that overflowed: two's complement wrap-around.\<close>

definition wrap64 :: "int \<Rightarrow> int" where
  "wrap64 n = (n + 9223372036854775808) mod 18446744073709551616 - 9223372036854775808"

text \<open>
  \<open>strconv.ParseInt(s, 10, 64)\<close> and, on a 64-bit platform, \<open>strconv.Atoi\<close>: an optional sign and at
  least one digit, \<open>None\<close> for a syntax or a range error.
\<close>

definition parse_digits :: "string \<Rightarrow> nat option" where
  "parse_digits s = (if s \<noteq> [] \<and> (\<forall>c \<in> set s. is_digit c) then Some (digits_value s) else None)"

definition parse_int :: "string \<Rightarrow> int option" where
  "parse_int s =
    (let (neg, ds) = (case s of
        c # r \<Rightarrow> if c = CHR ''-'' then (True, r) else if c = CHR ''+'' then (False, r) else (False, s)
      | [] \<Rightarrow> (False, []))
     in case parse_digits ds of
       None \<Rightarrow> None
     | Some n \<Rightarrow> (let v = (if neg then - int n else int n) in if in_int64 v then Some v else None))"

end
