(* ===== verification/String_Facts.thy ===== *)
theory String_Facts
  imports Go_Strings
begin

text \<open>
  What the component proofs need of the string library: splitting and joining are inverse, trimming
  is idempotent and does not look past a separator, and integers survive formatting and parsing.
\<close>

section \<open>Splitting and joining at a byte\<close>

lemma split_byte_nonempty [simp]: "split_byte c s \<noteq> []"
  by (induction s) (auto split: list.splits)

lemma split_byte_Cons_other:
  "x \<noteq> c \<Longrightarrow> split_byte c (x # s) = (x # hd (split_byte c s)) # tl (split_byte c s)"
  by (cases "split_byte c s") auto

lemma split_byte_no_sep: "p \<in> set (split_byte c s) \<Longrightarrow> c \<notin> set p"
proof (induction s arbitrary: p)
  case (Cons x s)
  then show ?case by (cases "split_byte c s") (auto split: if_splits)
qed simp

lemma split_byte_free: "c \<notin> set s \<Longrightarrow> split_byte c s = [s]"
  by (induction s) auto

lemma split_byte_append:
  "split_byte c (s @ c # t) = split_byte c s @ split_byte c t"
proof (induction s)
  case (Cons x s)
  then show ?case by (cases "split_byte c s") auto
qed simp

lemma join_Cons: "ps \<noteq> [] \<Longrightarrow> join sep (p # ps) = p @ sep @ join sep ps"
  by (cases ps) auto

lemma join_split: "join [c] (split_byte c s) = s"
proof (induction s)
  case (Cons x s)
  then show ?case
    by (cases "split_byte c s"; cases "tl (split_byte c s)") (auto simp: join_Cons)
qed simp

lemma split_join:
  "ps \<noteq> [] \<Longrightarrow> \<forall>p \<in> set ps. c \<notin> set p \<Longrightarrow> split_byte c (join [c] ps) = ps"
proof (induction ps)
  case (Cons p ps)
  then show ?case
    by (cases "ps = []") (simp_all add: split_byte_free join_Cons split_byte_append)
qed simp

lemma join_parts_in: "p \<in> set ps \<Longrightarrow> set p \<subseteq> set (join sep ps)"
proof (induction ps)
  case (Cons q ps)
  then show ?case by (cases "ps = []") (auto simp: join_Cons)
qed simp

lemma split_byte_parts_in: "p \<in> set (split_byte c s) \<Longrightarrow> set p \<subseteq> set s"
  using join_parts_in [of p "split_byte c s" "[c]"] by (simp add: join_split)

section \<open>Cutting at a byte\<close>

lemma has_prefix_single [simp]: "has_prefix (x # s) [c] \<longleftrightarrow> x = c"
  by (simp add: has_prefix_def)

lemma cut_single_Some:
  "cut [c] s = Some (a, b) \<longleftrightarrow> s = a @ c # b \<and> c \<notin> set a"
proof (induction s arbitrary: a b)
  case (Cons x s)
  show ?case
  proof (cases "x = c")
    case True
    then show ?thesis by (cases a) auto
  next
    case False
    then show ?thesis using Cons by (cases a) auto
  qed
qed simp

lemma cut_single_None: "cut [c] s = None \<longleftrightarrow> c \<notin> set s"
  by (induction s) auto

lemma cut_single_append: "c \<notin> set a \<Longrightarrow> cut [c] (a @ c # b) = Some (a, b)"
  by (simp add: cut_single_Some)

lemma contains_single: "contains s [c] \<longleftrightarrow> c \<in> set s"
  by (simp add: contains_def cut_single_None)

section \<open>Trimming\<close>

lemma strip_one_None: "strip_one es s = None \<longleftrightarrow> (\<forall>e \<in> set es. e \<noteq> [] \<longrightarrow> \<not> prefix e s)"
  by (induction es) auto

lemma strip_all_None: "strip_one es s = None \<Longrightarrow> strip_all es s = s"
  by (simp add: strip_all.simps)

lemma strip_all_Some: "strip_one es s = Some r \<Longrightarrow> strip_all es s = strip_all es r"
  by (simp add: strip_all.simps [of es s])

lemma strip_one_strip_all [simp]: "strip_one es (strip_all es s) = None"
proof (induction es s rule: strip_all.induct)
  case (1 es s)
  then show ?case by (cases "strip_one es s") (simp_all add: strip_all_None strip_all_Some)
qed

lemma strip_all_idem [simp]: "strip_all es (strip_all es s) = strip_all es s"
  by (simp add: strip_all_None)

lemma strip_all_suffix: "\<exists>p. s = p @ strip_all es s"
proof (induction es s rule: strip_all.induct)
  case (1 es s)
  show ?case
  proof (cases "strip_one es s")
    case (Some r)
    then obtain e where "s = e @ r" using strip_one_Some by blast
    with 1 Some show ?thesis by (metis append.assoc strip_all_Some)
  qed (auto simp: strip_all_None)
qed

text \<open>A byte that occurs in no encoding stops the trimming.\<close>

definition stops :: "string list \<Rightarrow> char \<Rightarrow> bool" where
  "stops es c \<longleftrightarrow> (\<forall>e \<in> set es. c \<notin> set e)"

lemma prefix_before_stop:
  assumes "c \<notin> set e" shows "prefix e (k @ c # v) \<longleftrightarrow> prefix e k"
proof
  assume "prefix e (k @ c # v)"
  then obtain w where w: "k @ c # v = e @ w" by (auto simp: prefix_def)
  then have "prefix e k \<or> prefix k e"
    by (metis prefixI prefix_same_cases)
  then show "prefix e k"
  proof
    assume "prefix k e"
    then obtain u where u: "e = k @ u" by (auto simp: prefix_def)
    with w have "c # v = u @ w" by simp
    with assms u have "u = []" by (cases u) auto
    with u show ?thesis by simp
  qed
qed simp

lemma strip_one_before_stop:
  assumes "stops es c"
  shows "strip_one es (k @ c # v) = map_option (\<lambda>r. r @ c # v) (strip_one es k)"
  using assms
proof (induction es)
  case (Cons e es)
  then have "c \<notin> set e" and "stops es c" by (auto simp: stops_def)
  with Cons.IH show ?case
    by (auto simp: prefix_before_stop dest: prefix_length_le)
qed simp

lemma strip_all_before_stop:
  "stops es c \<Longrightarrow> strip_all es (k @ c # v) = strip_all es k @ c # v"
proof (induction es k rule: strip_all.induct)
  case (1 es k)
  then show ?case
    by (cases "strip_one es k")
      (simp_all add: strip_one_before_stop strip_all_None strip_all_Some)
qed

lemma stops_rev: "stops (map rev es) c \<longleftrightarrow> stops es c"
  by (simp add: stops_def)

lemma trim_left_before_stop:
  "stops space_encs c \<Longrightarrow> trim_left (k @ c # v) = trim_left k @ c # v"
  by (simp add: trim_left_def strip_all_before_stop)

lemma trim_right_after_stop:
  "stops space_encs c \<Longrightarrow> trim_right (k @ c # v) = k @ c # trim_right v"
  using strip_all_before_stop [of "map rev space_encs" c "rev v" "rev k"]
  by (simp add: trim_right_def stops_rev)

lemma trim_space_around_stop:
  "stops space_encs c \<Longrightarrow> trim_space (k @ c # v) = trim_left k @ c # trim_right v"
  by (simp add: trim_space_def trim_left_before_stop trim_right_after_stop)

lemma trim_left_idem [simp]: "trim_left (trim_left s) = trim_left s"
  by (simp add: trim_left_def)

lemma trim_right_idem [simp]: "trim_right (trim_right s) = trim_right s"
  by (simp add: trim_right_def)

lemma trim_left_Nil [simp]: "trim_left [] = []"
  by (simp add: trim_left_def strip_all_None strip_one_None)

lemma trim_right_Nil [simp]: "trim_right [] = []"
  by (simp add: trim_right_def strip_all_None strip_one_None)

lemma trim_space_Nil [simp]: "trim_space [] = []"
  by (simp add: trim_space_def)

lemma trim_space_left_idem [simp]: "trim_space (trim_left s) = trim_space s"
  by (simp add: trim_space_def)

lemma trim_left_set: "set (trim_left s) \<subseteq> set s"
  using strip_all_suffix [of s space_encs] unfolding trim_left_def
  by (metis Un_upper2 set_append)

lemma trim_right_set: "set (trim_right s) \<subseteq> set s"
  using strip_all_suffix [of "rev s" "map rev space_encs"] unfolding trim_right_def
  by (metis Un_upper2 set_append set_rev)

lemma trim_space_set: "set (trim_space s) \<subseteq> set s"
  using trim_left_set trim_right_set unfolding trim_space_def by blast

text \<open>
  The encodings synchronise: no byte inside one of them starts another, and none is a prefix or a
  suffix of another.  So the two ends are trimmed independently, in either order.
\<close>

lemma space_encs_sync: "e \<in> set space_encs \<Longrightarrow> f \<in> set space_encs \<Longrightarrow> hd f \<notin> set (tl e)"
proof -
  have "\<forall>e \<in> set space_encs. \<forall>f \<in> set space_encs. hd f \<notin> set (tl e)"
    by code_simp
  then show "e \<in> set space_encs \<Longrightarrow> f \<in> set space_encs \<Longrightarrow> hd f \<notin> set (tl e)" by blast
qed

lemma space_encs_prefix_free:
  "e \<in> set space_encs \<Longrightarrow> f \<in> set space_encs \<Longrightarrow> prefix e f \<Longrightarrow> e = f"
proof -
  have "\<forall>e \<in> set space_encs. \<forall>f \<in> set space_encs. prefix e f \<longrightarrow> e = f"
    by code_simp
  then show "e \<in> set space_encs \<Longrightarrow> f \<in> set space_encs \<Longrightarrow> prefix e f \<Longrightarrow> e = f" by blast
qed

lemma space_encs_suffix_free:
  "e \<in> set (map rev space_encs) \<Longrightarrow> f \<in> set (map rev space_encs) \<Longrightarrow> prefix e f \<Longrightarrow> e = f"
proof -
  have "\<forall>e \<in> set (map rev space_encs). \<forall>f \<in> set (map rev space_encs). prefix e f \<longrightarrow> e = f"
    by code_simp
  then show "e \<in> set (map rev space_encs) \<Longrightarrow> f \<in> set (map rev space_encs) \<Longrightarrow> prefix e f \<Longrightarrow> e = f"
    by blast
qed

lemma space_encs_nonempty: "e \<in> set space_encs \<Longrightarrow> e \<noteq> []"
proof -
  have "\<forall>e \<in> set space_encs. e \<noteq> []" by code_simp
  then show "e \<in> set space_encs \<Longrightarrow> e \<noteq> []" by blast
qed

text \<open>In a prefix-free list of encodings the one that matches is the only one.\<close>

lemma strip_one_prefix_free:
  assumes free: "\<And>e f. e \<in> set es \<Longrightarrow> f \<in> set es \<Longrightarrow> prefix e f \<Longrightarrow> e = f"
    and "e \<in> set es" and "e \<noteq> []"
  shows "strip_one es (e @ s) = Some s"
proof -
  have "strip_one es (e @ s) \<noteq> None"
    using assms(2,3) by (auto simp: strip_one_None)
  then obtain r where r: "strip_one es (e @ s) = Some r" by blast
  then obtain f where f: "f \<in> set es" "f \<noteq> []" "e @ s = f @ r"
    using strip_one_Some by blast
  then have "prefix e f \<or> prefix f e"
    by (metis prefixI prefix_same_cases)
  then have "e = f" using free assms(2) f(1) by blast
  with r f show ?thesis by simp
qed

lemma strip_space_enc: "e \<in> set space_encs \<Longrightarrow> strip_one space_encs (e @ s) = Some s"
  by (rule strip_one_prefix_free) (auto intro: space_encs_prefix_free dest: space_encs_nonempty)

lemma strip_rev_space:
  assumes e: "e \<in> set space_encs"
  shows "strip_all (map rev space_encs) (t @ rev e)
     = (let u = strip_all (map rev space_encs) t in if u = [] then [] else u @ rev e)"
proof (induction "map rev space_encs" t rule: strip_all.induct)
  case (1 t)
  let ?E = "map rev space_encs"
  have e': "rev e \<in> set ?E" "rev e \<noteq> []"
    using e space_encs_nonempty by auto
  show ?case
  proof (cases "strip_one ?E t")
    case (Some r)
    then obtain f where f: "f \<in> set ?E" "f \<noteq> []" "t = f @ r"
      using strip_one_Some by blast
    then have "strip_one ?E (t @ rev e) = Some (r @ rev e)"
      using strip_one_prefix_free [of ?E, OF space_encs_suffix_free] by simp
    with 1 Some show ?thesis by (simp add: strip_all_Some)
  next
    case None
    show ?thesis
    proof (cases "t = []")
      case True
      then have "strip_one ?E (t @ rev e) = Some []"
        using strip_one_prefix_free [of ?E, OF space_encs_suffix_free] e' by (metis True append_Nil append_Nil2)
      with True None show ?thesis by (simp add: strip_all_Some strip_all_None strip_one_None)
    next
      case False
      have "strip_one ?E (t @ rev e) = None"
      proof (rule ccontr)
        assume "strip_one ?E (t @ rev e) \<noteq> None"
        then obtain f' where f': "f' \<in> set ?E" "prefix f' (t @ rev e)" "f' \<noteq> []"
          by (auto simp: strip_one_None)
        from f'(1) obtain f where f: "f \<in> set space_encs" "f' = rev f" by auto
        have "\<not> prefix f' t" using None f'(1,3) by (auto simp: strip_one_None)
        with f'(2) obtain u where u: "f' = t @ u" "prefix u (rev e)" "u \<noteq> []"
          by (metis append_Nil2 prefix_append prefix_order.order_refl)
        then obtain w where w: "rev e = u @ w" by (auto simp: prefix_def)
        then have e_eq: "e = rev w @ rev u" by (metis rev_append rev_rev_ident)
        have f_eq: "f = rev u @ rev t" using f u by (metis rev_append rev_rev_ident)
        show False
        proof (cases "w = []")
          case True
          then have "prefix e f" using e_eq f_eq by simp
          then have "e = f" using space_encs_prefix_free e f(1) by blast
          with True e_eq f_eq False show False by simp
        next
          case w_ne: False
          have "hd f = hd (rev u)" using f_eq u(3) by (cases "rev u") auto
          moreover have "hd (rev u) \<in> set (tl e)"
            using e_eq w_ne hd_in_set [of "rev u"] u(3) by (cases "rev w") auto
          ultimately show False using space_encs_sync [OF e f(1)] by simp
        qed
      qed
      with None False show ?thesis by (simp add: strip_all_None)
    qed
  qed
qed

lemma trim_right_space_enc:
  "e \<in> set space_encs \<Longrightarrow>
   trim_right (e @ s) = (if trim_right s = [] then [] else e @ trim_right s)"
  using strip_rev_space [of e "rev s"] by (simp add: trim_right_def Let_def)

lemma trim_right_prefix: "prefix (trim_right s) s"
  using strip_all_suffix [of "rev s" "map rev space_encs"] unfolding trim_right_def
  by (metis prefixI rev_append rev_rev_ident)

lemma trim_left_right: "trim_left (trim_right s) = trim_right (trim_left s)"
  unfolding trim_left_def
proof (induction space_encs s rule: strip_all.induct)
  case (1 s)
  show ?case
  proof (cases "strip_one space_encs s")
    case None
    then have "strip_one space_encs (trim_right s) = None"
      using trim_right_prefix unfolding strip_one_None by (metis prefix_order.order_trans)
    with None show ?thesis by (simp add: strip_all_None)
  next
    case (Some r)
    then obtain e where e: "e \<in> set space_encs" "s = e @ r" using strip_one_Some by blast
    show ?thesis
    proof (cases "trim_right r = []")
      case True
      with 1 Some e show ?thesis
        by (metis strip_all_Some trim_right_space_enc)
    next
      case False
      then have "strip_all space_encs (trim_right s) = strip_all space_encs (trim_right r)"
        using e by (simp add: trim_right_space_enc strip_all_Some strip_space_enc)
      with 1 Some show ?thesis by (simp add: strip_all_Some)
    qed
  qed
qed

lemma trim_space_right_idem [simp]: "trim_space (trim_right s) = trim_space s"
  by (simp add: trim_space_def trim_left_right)

lemma trim_space_idem [simp]: "trim_space (trim_space s) = trim_space s"
  by (simp add: trim_space_def trim_left_right flip: trim_left_right)

lemma trim_left_space [simp]: "trim_left (trim_space s) = trim_space s"
  by (simp add: trim_space_def trim_left_right)

lemma trim_right_space [simp]: "trim_right (trim_space s) = trim_space s"
  by (simp add: trim_space_def)

lemma graphic_stops: "33 \<le> byte c \<Longrightarrow> byte c < 128 \<Longrightarrow> stops space_encs c"
proof -
  have "\<forall>e \<in> set space_encs. \<forall>c \<in> set e. byte c < 33 \<or> 128 \<le> byte c" by code_simp
  then show "33 \<le> byte c \<Longrightarrow> byte c < 128 \<Longrightarrow> stops space_encs c"
    unfolding stops_def by (meson linorder_not_less)
qed

lemma trim_space_stops:
  assumes "\<And>c. c \<in> set s \<Longrightarrow> stops space_encs c"
  shows "trim_space s = s"
proof -
  have none: "strip_one es t = None"
    if "\<And>c. c \<in> set t \<Longrightarrow> stops es c" for es t
    unfolding strip_one_None
  proof (intro ballI impI notI)
    fix e assume e: "e \<in> set es" "e \<noteq> []" "prefix e t"
    then have "hd e \<in> set t" by (metis hd_in_set set_mono_prefix subsetD)
    with that e(1) have "hd e \<notin> set e" by (auto simp: stops_def)
    with e(2) show False by simp
  qed
  have "trim_left s = s"
    unfolding trim_left_def by (rule strip_all_None) (rule none [OF assms])
  moreover have "trim_right s = s"
    unfolding trim_right_def
    by (subst strip_all_None [OF none]) (simp_all add: stops_rev assms)
  ultimately show ?thesis by (simp add: trim_space_def)
qed

lemma trim_space_graphic:
  "(\<And>c. c \<in> set s \<Longrightarrow> 33 \<le> byte c \<and> byte c < 128) \<Longrightarrow> trim_space s = s"
  by (rule trim_space_stops) (auto intro: graphic_stops)

section \<open>Decimal integers\<close>

lemma nat_digits_nonempty [simp]: "nat_digits n \<noteq> []"
  by (subst nat_digits.simps) simp

lemma nat_digits_digit: "c \<in> set (nat_digits n) \<Longrightarrow> is_digit c"
proof (induction n arbitrary: c rule: nat_digits.induct)
  case (1 n)
  show ?case
  proof (cases "n < 10")
    case True
    with 1 show ?thesis by (simp add: nat_digits.simps [of n] is_digit_def)
  next
    case False
    with 1 show ?thesis
      by (auto simp: nat_digits.simps [of n] is_digit_def)
  qed
qed

lemma digits_value_append: "digits_value (s @ [c]) = digits_value s * 10 + (byte c - 48)"
  by (simp add: digits_value_def)

lemma digits_value_nat_digits [simp]: "digits_value (nat_digits n) = n"
proof (induction n rule: nat_digits.induct)
  case (1 n)
  show ?case
  proof (cases "n < 10")
    case True
    then show ?thesis by (simp add: nat_digits.simps [of n] digits_value_def)
  next
    case False
    then have "digits_value (nat_digits n) = digits_value (nat_digits (n div 10)) * 10 + n mod 10"
      by (simp add: nat_digits.simps [of n] digits_value_append)
    with 1 False show ?thesis by simp
  qed
qed

lemma parse_digits_nat_digits [simp]: "parse_digits (nat_digits n) = Some n"
  by (simp add: parse_digits_def nat_digits_digit)

lemma nat_digits_no_sign: "hd (nat_digits n) \<noteq> CHR ''-'' \<and> hd (nat_digits n) \<noteq> CHR ''+''"
proof -
  have "is_digit (hd (nat_digits n))" using nat_digits_digit hd_in_set nat_digits_nonempty by blast
  moreover have "\<not> is_digit (CHR ''-'')" "\<not> is_digit (CHR ''+'')"
    by (simp_all add: is_digit_def byte_def)
  ultimately show ?thesis by metis
qed

theorem parse_format_int: "in_int64 n \<Longrightarrow> parse_int (format_int n) = Some n"
proof (cases "n < 0")
  case True
  assume "in_int64 n"
  with True show ?thesis by (simp add: parse_int_def format_int_def)
next
  case False
  assume "in_int64 n"
  with False nat_digits_no_sign [of "nat n"] parse_digits_nat_digits [of "nat n"] show ?thesis
    by (cases "nat_digits (nat n)") (simp_all add: parse_int_def format_int_def)
qed

lemma parse_int_in_int64: "parse_int s = Some n \<Longrightarrow> in_int64 n"
  by (auto simp: parse_int_def Let_def split: option.splits if_splits prod.splits)

lemma wrap64_in_int64: "in_int64 (wrap64 n)"
proof -
  let ?m = "(n + 9223372036854775808) mod 18446744073709551616"
  have "0 \<le> ?m" and "?m < 18446744073709551616" by simp_all
  then show ?thesis unfolding in_int64_def int64_min_def int64_max_def wrap64_def by linarith
qed

lemma wrap64_id: "in_int64 n \<Longrightarrow> wrap64 n = n"
  by (simp add: in_int64_def int64_min_def int64_max_def wrap64_def)

end
