(* ===== verification/B64.thy ===== *)
theory B64
  imports String_Facts
begin

text \<open>
  Package \<open>internal/b64\<close>: base64 in any of the four alphabets of \<open>encoding/base64\<close>, padded or not.
  The codec of the standard library is written out first (\<open>b64_encode\<close>, \<open>b64_quanta\<close>), then the
  program's own \<open>Decode\<close> and its early rejection \<open>plausible\<close>.
\<close>

section \<open>The standard library's codec\<close>

datatype encoding = StdEncoding | RawStdEncoding | URLEncoding | RawURLEncoding

fun padded :: "encoding \<Rightarrow> bool" where
  "padded StdEncoding = True"
| "padded RawStdEncoding = False"
| "padded URLEncoding = True"
| "padded RawURLEncoding = False"

fun url_alphabet :: "encoding \<Rightarrow> bool" where
  "url_alphabet StdEncoding = False"
| "url_alphabet RawStdEncoding = False"
| "url_alphabet URLEncoding = True"
| "url_alphabet RawURLEncoding = True"

definition b64_char :: "encoding \<Rightarrow> nat \<Rightarrow> char" where
  "b64_char enc v =
    (if v < 26 then char_of (65 + v)
     else if v < 52 then char_of (97 + (v - 26))
     else if v < 62 then char_of (48 + (v - 52))
     else if v = 62 then (if url_alphabet enc then CHR ''-'' else CHR ''+'')
     else (if url_alphabet enc then CHR ''_'' else CHR ''/''))"

definition b64_value :: "encoding \<Rightarrow> char \<Rightarrow> nat option" where
  "b64_value enc c =
    (if is_upper c then Some (byte c - 65)
     else if is_lower c then Some (byte c - 97 + 26)
     else if is_digit c then Some (byte c - 48 + 52)
     else if c = (if url_alphabet enc then CHR ''-'' else CHR ''+'') then Some 62
     else if c = (if url_alphabet enc then CHR ''_'' else CHR ''/'') then Some 63
     else None)"

text \<open>\<open>Encoding.EncodeToString\<close>: three bytes to four sextets, the rest padded where the form pads.\<close>

fun b64_encode :: "encoding \<Rightarrow> string \<Rightarrow> string" where
  "b64_encode enc [] = []"
| "b64_encode enc [a] =
    [b64_char enc (byte a div 4), b64_char enc (byte a mod 4 * 16)]
    @ (if padded enc then ''=='' else [])"
| "b64_encode enc [a, b] =
    [b64_char enc (byte a div 4), b64_char enc (byte a mod 4 * 16 + byte b div 16),
     b64_char enc (byte b mod 16 * 4)]
    @ (if padded enc then ''='' else [])"
| "b64_encode enc (a # b # c # r) =
    [b64_char enc (byte a div 4), b64_char enc (byte a mod 4 * 16 + byte b div 16),
     b64_char enc (byte b mod 16 * 4 + byte c div 64), b64_char enc (byte c mod 64)]
    @ b64_encode enc r"

text \<open>
  \<open>Encoding.Decode\<close> on input without line breaks (the decoder skips \<open>\r\<close> and \<open>\n\<close> wherever it
  meets them): \<open>None\<close> stands for a \<open>CorruptInputError\<close>.  Bits left over in the last sextet are
  dropped, as the non-strict encodings do; padding must be complete and nothing may follow it.
\<close>

definition bytes1 :: "nat \<Rightarrow> nat \<Rightarrow> string" where
  "bytes1 u v = [char_of (u * 4 + v div 16)]"

definition bytes2 :: "nat \<Rightarrow> nat \<Rightarrow> nat \<Rightarrow> string" where
  "bytes2 u v w = bytes1 u v @ [char_of (v mod 16 * 16 + w div 4)]"

definition bytes3 :: "nat \<Rightarrow> nat \<Rightarrow> nat \<Rightarrow> nat \<Rightarrow> string" where
  "bytes3 u v w x = bytes2 u v w @ [char_of (w mod 4 * 64 + x)]"

fun b64_quanta :: "encoding \<Rightarrow> string \<Rightarrow> string option" where
  "b64_quanta enc [] = Some []"
| "b64_quanta enc [a] = None"
| "b64_quanta enc [a, b] =
    (if padded enc then None
     else (case (b64_value enc a, b64_value enc b) of
        (Some u, Some v) \<Rightarrow> Some (bytes1 u v)
      | _ \<Rightarrow> None))"
| "b64_quanta enc [a, b, c] =
    (if padded enc then None
     else (case (b64_value enc a, b64_value enc b, b64_value enc c) of
        (Some u, Some v, Some w) \<Rightarrow> Some (bytes2 u v w)
      | _ \<Rightarrow> None))"
| "b64_quanta enc (a # b # c # d # r) =
    (case (b64_value enc a, b64_value enc b) of
       (Some u, Some v) \<Rightarrow>
         (case b64_value enc c of
            Some w \<Rightarrow>
              (case b64_value enc d of
                 Some x \<Rightarrow> map_option (\<lambda>t. bytes3 u v w x @ t) (b64_quanta enc r)
               | None \<Rightarrow> if padded enc \<and> d = CHR ''='' \<and> r = []
                          then Some (bytes2 u v w) else None)
          | None \<Rightarrow> if padded enc \<and> c = CHR ''='' \<and> d = CHR ''='' \<and> r = []
                     then Some (bytes1 u v) else None)
     | _ \<Rightarrow> None)"

definition is_newline :: "char \<Rightarrow> bool" where
  "is_newline c \<longleftrightarrow> c = CHR 0x0A \<or> c = CHR 0x0D"

definition std_decode :: "encoding \<Rightarrow> string \<Rightarrow> string option" where
  "std_decode enc s = b64_quanta enc (filter (\<lambda>c. \<not> is_newline c) s)"

section \<open>The program's Decode\<close>

text \<open>The order in which the forms are tried, the package's \<open>encodings\<close> array.\<close>

definition encodings :: "encoding list" where
  "encodings = [StdEncoding, RawStdEncoding, URLEncoding, RawURLEncoding]"

text \<open>Every byte belongs to some alphabet, is padding, or is a line break the decoder skips.\<close>

definition plausible_byte :: "char \<Rightarrow> bool" where
  "plausible_byte c \<longleftrightarrow>
    is_upper c \<or> is_lower c \<or> is_digit c
    \<or> c \<in> {CHR ''+'', CHR ''/'', CHR ''-'', CHR ''_'', CHR ''=''} \<or> is_newline c"

definition plausible :: "string \<Rightarrow> bool" where
  "plausible s \<longleftrightarrow> (\<forall>c \<in> set s. plausible_byte c)"

text \<open>The loop over the encodings: the first that decodes and whose result is accepted.\<close>

fun try_encodings :: "encoding list \<Rightarrow> string \<Rightarrow> (string \<Rightarrow> bool) option
    \<Rightarrow> (string \<times> encoding) option" where
  "try_encodings [] src accept = None"
| "try_encodings (enc # es) src accept =
    (case std_decode enc src of
       None \<Rightarrow> try_encodings es src accept
     | Some out \<Rightarrow>
         (if (case accept of None \<Rightarrow> True | Some f \<Rightarrow> f out) then Some (out, enc)
          else try_encodings es src accept))"

definition decode :: "string \<Rightarrow> (string \<Rightarrow> bool) option \<Rightarrow> (string \<times> encoding) option" where
  "decode s accept =
    (let s = trim_space s
     in if \<not> plausible s then None else try_encodings encodings s accept)"

section \<open>Decoding inverts encoding\<close>

lemma alphabet_bytes:
  "byte (CHR ''+'') = 43" "byte (CHR ''/'') = 47" "byte (CHR ''-'') = 45" "byte (CHR ''_'') = 95"
  "byte (CHR ''='') = 61"
  by (simp_all add: byte_def)

lemma b64_value_char_eq:
  "v < 64 \<Longrightarrow> b64_value e2 (b64_char e1 v) =
     (if v < 62 \<or> url_alphabet e1 = url_alphabet e2 then Some v else None)"
  by (auto simp: b64_value_def b64_char_def is_upper_def is_lower_def is_digit_def alphabet_bytes)

lemma b64_char_agree: "v < 62 \<or> url_alphabet e1 = url_alphabet e2 \<Longrightarrow> b64_char e2 v = b64_char e1 v"
  by (auto simp: b64_char_def)

lemma b64_value_char:
  "v < 64 \<Longrightarrow> b64_value e2 (b64_char e1 v) = Some w \<Longrightarrow> w = v \<and> b64_char e2 v = b64_char e1 v"
  using b64_char_agree [of v e1 e2] by (auto simp: b64_value_char_eq split: if_splits)

lemma b64_value_own: "v < 64 \<Longrightarrow> b64_value e (b64_char e v) = Some v"
  by (simp add: b64_value_char_eq)

lemma b64_value_pad [simp]: "b64_value e (CHR ''='') = None"
  by (simp add: b64_value_def is_upper_def is_lower_def is_digit_def byte_def)

lemma b64_char_not_pad: "v < 64 \<Longrightarrow> b64_char e v \<noteq> CHR ''=''"
  using b64_value_own [of v e] by auto

lemma sextet_bounds [simp]:
  "byte a div 4 < 64" "byte a mod 4 * 16 + byte b div 16 < 64"
  "byte b mod 16 * 4 + byte c div 64 < 64" "byte a mod 4 * 16 < 64" "byte b mod 16 * 4 < 64"
  using byte_less [of a] byte_less [of b] byte_less [of c] by linarith+

lemma bytes1_back [simp]:
  "bytes1 (byte a div 4) (byte a mod 4 * 16) = [a]"
  "y < 16 \<Longrightarrow> bytes1 (byte a div 4) (byte a mod 4 * 16 + y) = [a]"
proof -
  have "byte a div 4 * 4 + byte a mod 4 = byte a" by simp
  then show "bytes1 (byte a div 4) (byte a mod 4 * 16) = [a]"
    "y < 16 \<Longrightarrow> bytes1 (byte a div 4) (byte a mod 4 * 16 + y) = [a]"
    by (simp_all add: bytes1_def)
qed

lemma bytes2_back [simp]:
  "bytes2 (byte a div 4) (byte a mod 4 * 16 + byte b div 16) (byte b mod 16 * 4) = [a, b]"
  "y < 4 \<Longrightarrow>
   bytes2 (byte a div 4) (byte a mod 4 * 16 + byte b div 16) (byte b mod 16 * 4 + y) = [a, b]"
proof -
  have "byte b div 16 < 16" using byte_less [of b] by linarith
  moreover from this have "(byte a mod 4 * 16 + byte b div 16) mod 16 * 16 + byte b mod 16 = byte b"
    by simp
  ultimately show
    "bytes2 (byte a div 4) (byte a mod 4 * 16 + byte b div 16) (byte b mod 16 * 4) = [a, b]"
    "y < 4 \<Longrightarrow>
     bytes2 (byte a div 4) (byte a mod 4 * 16 + byte b div 16) (byte b mod 16 * 4 + y) = [a, b]"
    by (simp_all add: bytes2_def)
qed

lemma bytes3_back [simp]:
  "bytes3 (byte a div 4) (byte a mod 4 * 16 + byte b div 16)
     (byte b mod 16 * 4 + byte c div 64) (byte c mod 64) = [a, b, c]"
proof -
  have "byte c div 64 < 4" using byte_less [of c] by linarith
  moreover from this have "(byte b mod 16 * 4 + byte c div 64) mod 4 * 64 + byte c mod 64 = byte c"
    by simp
  ultimately show ?thesis by (simp add: bytes3_def)
qed

lemma quanta_encode_own: "b64_quanta e (b64_encode e xs) = Some xs"
  by (induction e xs rule: b64_encode.induct) (simp_all add: b64_value_own)

lemma quanta_encode_any:
  "b64_quanta e2 (b64_encode e1 xs) = Some ys \<Longrightarrow> ys = xs \<and> b64_encode e2 xs = b64_encode e1 xs"
proof (induction e1 xs arbitrary: ys rule: b64_encode.induct)
  case (1 enc)
  then show ?case by simp
next
  case (2 enc a)
  then show ?case
    by (auto split: if_splits option.splits dest!: b64_value_char [rotated])
next
  case (3 enc a b)
  then show ?case
    by (auto split: if_splits option.splits simp: b64_char_not_pad dest!: b64_value_char [rotated])
next
  case (4 enc a b c r)
  then show ?case
    by (auto split: if_splits option.splits simp: b64_char_not_pad dest!: b64_value_char [rotated])
qed

section \<open>Early rejection and the order of the alphabets\<close>

lemma b64_value_plausible: "b64_value e c = Some v \<Longrightarrow> plausible_byte c"
  by (auto simp: b64_value_def plausible_byte_def split: if_splits)

lemma quanta_plausible: "b64_quanta e s = Some out \<Longrightarrow> \<forall>c \<in> set s. plausible_byte c"
proof (induction e s arbitrary: out rule: b64_quanta.induct)
  case (5 enc a b c d r)
  have "plausible_byte (CHR ''='')" by (simp add: plausible_byte_def)
  with 5 show ?case
    by (auto split: option.splits if_splits dest: b64_value_plausible)
qed (auto split: if_splits option.splits dest: b64_value_plausible)

lemma std_decode_plausible: "std_decode e s = Some out \<Longrightarrow> plausible s"
  using quanta_plausible [of e "filter (\<lambda>c. \<not> is_newline c) s" out]
  by (auto simp: std_decode_def plausible_def plausible_byte_def)

lemma try_encodings_None:
  "(\<And>e. std_decode e s = None) \<Longrightarrow> try_encodings es s accept = None"
  by (induction es) auto

lemma try_encodings_first:
  assumes "e \<in> set es" and "std_decode e s = Some out"
    and "\<And>e' out'. std_decode e' s = Some out' \<Longrightarrow> P out' e'"
    and "\<And>e' out'. std_decode e' s = Some out' \<Longrightarrow>
          (case accept of None \<Rightarrow> True | Some f \<Rightarrow> f out')"
  shows "\<exists>out' e'. try_encodings es s accept = Some (out', e') \<and> P out' e'"
  using assms(1)
proof (induction es)
  case (Cons e' es)
  show ?case
  proof (cases "std_decode e' s")
    case None
    with Cons assms(2) show ?thesis by auto
  next
    case (Some out')
    with assms(3,4) show ?thesis by force
  qed
qed simp

lemma try_encodings_Some:
  "try_encodings es s accept = Some (out, e) \<Longrightarrow>
   \<exists>before after. es = before @ e # after \<and> std_decode e s = Some out
     \<and> (\<forall>f. accept = Some f \<longrightarrow> f out)
     \<and> (\<forall>e' \<in> set before. \<forall>out'. std_decode e' s = Some out' \<longrightarrow>
          (\<exists>f. accept = Some f \<and> \<not> f out'))"
proof (induction es)
  case (Cons e' es)
  show ?case
  proof (cases "\<exists>out'. std_decode e' s = Some out' \<and> (case accept of None \<Rightarrow> True | Some f \<Rightarrow> f out')")
    case True
    with Cons.prems show ?thesis
      by (intro exI [of _ "[]"] exI [of _ es]) (auto split: option.splits)
  next
    case False
    with Cons.prems have "try_encodings es s accept = Some (out, e)"
      by (auto split: option.splits if_splits)
    from Cons.IH [OF this] obtain before after where
      "es = before @ e # after" "std_decode e s = Some out" "\<forall>f. accept = Some f \<longrightarrow> f out"
      "\<forall>e' \<in> set before. \<forall>out'. std_decode e' s = Some out' \<longrightarrow>
          (\<exists>f. accept = Some f \<and> \<not> f out')"
      by blast
    with False show ?thesis
      by (intro exI [of _ "e' # before"] exI [of _ after]) (auto split: option.splits)
  qed
qed simp

text \<open>The alphabets are graphic ASCII, so nothing in an encoded value is trimmed or skipped.\<close>

lemma b64_char_byte: "v < 64 \<Longrightarrow> 33 \<le> byte (b64_char e v) \<and> byte (b64_char e v) < 128"
  by (auto simp: b64_char_def alphabet_bytes)

lemma b64_encode_graphic: "c \<in> set (b64_encode e xs) \<Longrightarrow> 33 \<le> byte c \<and> byte c < 128"
  by (induction e xs rule: b64_encode.induct)
    (auto simp: b64_char_byte alphabet_bytes split: if_splits)

lemma b64_encode_trim [simp]: "trim_space (b64_encode e xs) = b64_encode e xs"
  by (rule trim_space_graphic) (rule b64_encode_graphic)

lemma b64_encode_no_newline [simp]:
  "filter (\<lambda>c. \<not> is_newline c) (b64_encode e xs) = b64_encode e xs"
proof -
  have "\<not> is_newline c" if "c \<in> set (b64_encode e xs)" for c
    using b64_encode_graphic [OF that] by (auto simp: is_newline_def byte_def)
  then show ?thesis by (simp add: filter_id_conv)
qed

lemma std_decode_encode:
  "std_decode e (b64_encode e xs) = Some xs"
  "std_decode e2 (b64_encode e xs) = Some ys \<Longrightarrow> ys = xs \<and> b64_encode e2 xs = b64_encode e xs"
  by (simp_all add: std_decode_def quanta_encode_own quanta_encode_any)

lemma in_encodings [simp]: "e \<in> set encodings"
  by (cases e) (simp_all add: encodings_def)

lemma decode_encode_accept:
  assumes "case accept of None \<Rightarrow> True | Some f \<Rightarrow> f xs"
  shows "\<exists>e'. decode (b64_encode e xs) accept = Some (xs, e') \<and> b64_encode e' xs = b64_encode e xs"
proof -
  have "plausible (b64_encode e xs)"
    using std_decode_encode(1) by (rule std_decode_plausible)
  moreover have "\<exists>out e'. try_encodings encodings (b64_encode e xs) accept = Some (out, e')
      \<and> (out = xs \<and> b64_encode e' xs = b64_encode e xs)"
    using assms std_decode_encode(2)
    by (intro try_encodings_first [OF in_encodings std_decode_encode(1)]) (auto split: option.splits)
  ultimately show ?thesis by (auto simp: decode_def Let_def)
qed

section \<open>Properties\<close>

text \<open>C39: whatever form a value was encoded in (either alphabet, padded or not), \<open>Decode\<close> with no
  filter gives back the bytes, and the encoding it reports writes exactly the same text again, which
  is what a rewrite needs to restore the form it found.\<close>

theorem decode_restores_form:
  "\<exists>e'. decode (b64_encode e xs) None = Some (xs, e') \<and> b64_encode e' xs = b64_encode e xs"
  by (rule decode_encode_accept) simp

text \<open>the early rejection of \<open>plausible\<close> loses nothing: \<open>Decode\<close> gives what trying every
  alphabet on the trimmed text would give, whatever the text and the filter.\<close>

theorem decode_matches_reference:
  "decode s accept = try_encodings encodings (trim_space s) accept"
proof (cases "plausible (trim_space s)")
  case False
  then have "std_decode e (trim_space s) = None" for e
    using std_decode_plausible by (cases "std_decode e (trim_space s)") auto
  with False show ?thesis by (simp add: decode_def Let_def try_encodings_None)
qed (simp add: decode_def Let_def)

end
