(* ===== verification/Utf8_Facts.thy ===== *)
theory Utf8_Facts
  imports String_Facts
begin

text \<open>
  UTF-8 decoding inverts encoding: the runes of an encoded rune sequence are that sequence, and a
  well-formed string is the encoding of its runes.
\<close>

definition valid_rune :: "nat \<Rightarrow> bool" where
  "valid_rune r \<longleftrightarrow> r \<le> 1114111 \<and> \<not> (55296 \<le> r \<and> r \<le> 57343)"

lemma valid_rune_ascii [simp]: "r < 128 \<Longrightarrow> valid_rune r"
  by (simp add: valid_rune_def)

lemma valid_rune_error [simp]: "valid_rune rune_error"
  by (simp add: valid_rune_def rune_error_def)

lemma encode_rune_length: "encode_rune r \<noteq> []"
  by (simp add: encode_rune_def)

text \<open>Runes as numbers in base 64.\<close>

lemma div_4096: "(r :: nat) div 4096 = r div 64 div 64"
  using div_mult2_eq [of r 64 64] by simp

lemma div_262144: "(r :: nat) div 262144 = r div 64 div 64 div 64"
  using div_mult2_eq [of r 4096 64] by (simp add: div_4096)

lemma radix64_3: "(r :: nat) div 4096 * 4096 + r div 64 mod 64 * 64 + r mod 64 = r"
  using div_mult_mod_eq [of r 64] div_mult_mod_eq [of "r div 64" 64] unfolding div_4096 by linarith

lemma radix64_4:
  "(r :: nat) div 262144 * 262144 + r div 4096 mod 64 * 4096 + r div 64 mod 64 * 64 + r mod 64 = r"
  using div_mult_mod_eq [of r 64] div_mult_mod_eq [of "r div 64" 64]
    div_mult_mod_eq [of "r div 64 div 64" 64]
  unfolding div_4096 div_262144 by linarith

lemma mod_radix: "(w :: nat) < 64 \<Longrightarrow> (x * 64 + w) mod 64 = w"
  by simp

lemma div_radix: "(w :: nat) < 64 \<Longrightarrow> (x * 64 + w) div 64 = x"
  by simp

lemma radix64_3_back:
  fixes u v w :: nat
  assumes "v < 64" "w < 64"
  shows "(u * 4096 + v * 64 + w) div 4096 = u" "(u * 4096 + v * 64 + w) div 64 mod 64 = v"
    "(u * 4096 + v * 64 + w) mod 64 = w"
proof -
  have r: "u * 4096 + v * 64 + w = (u * 64 + v) * 64 + w" by simp
  show "(u * 4096 + v * 64 + w) div 4096 = u" "(u * 4096 + v * 64 + w) div 64 mod 64 = v"
    "(u * 4096 + v * 64 + w) mod 64 = w"
    unfolding r div_4096 div_radix [OF assms(2)] mod_radix [OF assms(2)]
      div_radix [OF assms(1)] mod_radix [OF assms(1)]
    by simp_all
qed

lemma radix64_4_back:
  fixes u v w q :: nat
  assumes "v < 64" "w < 64" "q < 64"
  shows "(u * 262144 + v * 4096 + w * 64 + q) div 262144 = u"
    "(u * 262144 + v * 4096 + w * 64 + q) div 4096 mod 64 = v"
    "(u * 262144 + v * 4096 + w * 64 + q) div 64 mod 64 = w"
    "(u * 262144 + v * 4096 + w * 64 + q) mod 64 = q"
proof -
  have r: "u * 262144 + v * 4096 + w * 64 + q = ((u * 64 + v) * 64 + w) * 64 + q" by simp
  show "(u * 262144 + v * 4096 + w * 64 + q) div 262144 = u"
    "(u * 262144 + v * 4096 + w * 64 + q) div 4096 mod 64 = v"
    "(u * 262144 + v * 4096 + w * 64 + q) div 64 mod 64 = w"
    "(u * 262144 + v * 4096 + w * 64 + q) mod 64 = q"
    unfolding r div_4096 div_262144 div_radix [OF assms(3)] mod_radix [OF assms(3)]
      div_radix [OF assms(2)] mod_radix [OF assms(2)] div_radix [OF assms(1)] mod_radix [OF assms(1)]
    by simp_all
qed

lemma decode_encode_2:
  assumes "128 \<le> r" "r < 2048"
  shows "decode_rune (char_of (192 + r div 64) # char_of (128 + r mod 64) # t) = (r, 2)"
proof -
  have "2 \<le> r div 64" "r div 64 < 32" using assms by linarith+
  then show ?thesis using assms by (simp add: is_cont_def Let_def)
qed

lemma decode_encode_3:
  assumes "2048 \<le> r" "r < 65536" "\<not> (55296 \<le> r \<and> r \<le> 57343)"
  shows "decode_rune (char_of (224 + r div 4096) # char_of (128 + r div 64 mod 64)
      # char_of (128 + r mod 64) # t) = (r, 3)"
proof -
  define a b c where abc: "a = r div 4096" "b = r div 64 mod 64" "c = r mod 64"
  have r: "r = a * 4096 + b * 64 + c" unfolding abc by (rule radix64_3 [symmetric])
  have bounds: "a < 16" "b < 64" "c < 64" unfolding abc using assms(2) by linarith+
  have "a = 0 \<Longrightarrow> 32 \<le> b" and "a = 13 \<Longrightarrow> b < 32" using assms r bounds by linarith+
  then have "second_ok (224 + a) (char_of (128 + b))"
    using bounds by (auto simp: second_ok_def second_range_def)
  moreover have "is_cont (char_of (128 + c))" using bounds by (simp add: is_cont_def)
  ultimately show ?thesis using bounds r unfolding abc [symmetric] by (simp add: Let_def)
qed

lemma decode_encode_4:
  assumes "65536 \<le> r" "r \<le> 1114111"
  shows "decode_rune (char_of (240 + r div 262144) # char_of (128 + r div 4096 mod 64)
      # char_of (128 + r div 64 mod 64) # char_of (128 + r mod 64) # t) = (r, 4)"
proof -
  define a b c d where abcd: "a = r div 262144" "b = r div 4096 mod 64" "c = r div 64 mod 64"
    "d = r mod 64"
  have r: "r = a * 262144 + b * 4096 + c * 64 + d"
    unfolding abcd by (rule radix64_4 [symmetric])
  have bounds: "a < 5" "b < 64" "c < 64" "d < 64" unfolding abcd using assms(2) by linarith+
  have "a = 0 \<Longrightarrow> 16 \<le> b" and "a = 4 \<Longrightarrow> b < 16" using assms r bounds by linarith+
  then have "second_ok (240 + a) (char_of (128 + b))"
    using bounds by (auto simp: second_ok_def second_range_def)
  moreover have "is_cont (char_of (128 + c))" "is_cont (char_of (128 + d))"
    using bounds by (simp_all add: is_cont_def)
  ultimately show ?thesis using bounds r unfolding abcd [symmetric] by (simp add: Let_def)
qed

lemma decode_encode_rune:
  "valid_rune r \<Longrightarrow> decode_rune (encode_rune r @ t) = (r, length (encode_rune r))"
  by (auto simp: encode_rune_def valid_rune_def decode_encode_2 decode_encode_3 decode_encode_4
      simp del: decode_rune.simps(2)) (simp add: Let_def)

lemma runes_Nil [simp]: "runes [] = []"
  by (simp add: runes_def)

lemma runes_Cons: "s \<noteq> [] \<Longrightarrow> runes s = fst (decode_rune s) # runes (drop (snd (decode_rune s)) s)"
  by (simp add: runes_def rune_chunks_Cons)

lemma runes_encode_append:
  "\<forall>r \<in> set rs. valid_rune r \<Longrightarrow> runes (encode_runes rs @ t) = rs @ runes t"
proof (induction rs)
  case (Cons r rs)
  then have "runes (encode_rune r @ encode_runes rs @ t) = r # runes (encode_runes rs @ t)"
    by (subst runes_Cons) (simp_all add: encode_rune_length decode_encode_rune)
  with Cons show ?case by (simp add: encode_runes_def)
qed (simp add: encode_runes_def)

lemma runes_encode: "\<forall>r \<in> set rs. valid_rune r \<Longrightarrow> runes (encode_runes rs) = rs"
  using runes_encode_append [of rs "[]"] by simp

lemma byte_minus_add: "k \<le> byte c \<Longrightarrow> char_of (k + (byte c - k)) = c"
  by simp

lemma decode_rune_sound:
  assumes "s \<noteq> []"
  shows "valid_rune (fst (decode_rune s))
    \<and> (decode_rune s \<noteq> (rune_error, 1) \<longrightarrow>
         encode_rune (fst (decode_rune s)) = take (snd (decode_rune s)) s)"
proof -
  obtain a s' where s: "s = a # s'" using assms by (cases s) auto
  let ?b = "byte a"
  consider "?b < 128" | "194 \<le> ?b" "?b \<le> 223" | "224 \<le> ?b" "?b \<le> 239" | "240 \<le> ?b" "?b \<le> 244"
    | "128 \<le> ?b" "?b < 194" | "244 < ?b" by linarith
  then show ?thesis
  proof cases
    case 1
    then show ?thesis by (simp add: s encode_rune_def)
  next
    case 2
    show ?thesis
    proof (cases "\<exists>x t. s' = x # t \<and> is_cont x")
      case True
      then obtain x t where x: "s' = x # t" "is_cont x" by blast
      define u v where uv: "u = ?b - 192" "v = byte x - 128"
      have uv': "?b = 192 + u" "byte x = 128 + v" "2 \<le> u" "u < 32" "v < 64"
        using 2 x(2) unfolding uv is_cont_def by linarith+
      then have "a = char_of (192 + u)" "x = char_of (128 + v)" by (metis char_of_byte)+
      with 2 x uv' show ?thesis
        by (simp add: s Let_def encode_rune_def valid_rune_def)
    next
      case False
      with 2 show ?thesis by (auto simp: s Let_def split: list.splits)
    qed
  next
    case 3
    show ?thesis
    proof (cases "\<exists>x y t. s' = x # y # t \<and> second_ok ?b x \<and> is_cont y")
      case True
      then obtain x y t where x: "s' = x # y # t" "second_ok ?b x" "is_cont y" by blast
      define u v w where uvw: "u = ?b - 224" "v = byte x - 128" "w = byte y - 128"
      have uvw': "?b = 224 + u" "byte x = 128 + v" "byte y = 128 + w" "u < 16" "v < 64" "w < 64"
        using 3 x(2,3) unfolding uvw is_cont_def second_ok_def second_range_def
        by (auto split: if_splits)
      have sec: "u = 0 \<Longrightarrow> 32 \<le> v" "u = 13 \<Longrightarrow> v < 32"
        using x(2) uvw' by (auto simp: second_ok_def second_range_def)
      have "a = char_of (224 + u)" "x = char_of (128 + v)" "y = char_of (128 + w)"
        using uvw' by (metis char_of_byte)+
      moreover define r where "r = u * 4096 + v * 64 + w"
      moreover have "2048 \<le> r" "r < 65536" "\<not> (55296 \<le> r \<and> r \<le> 57343)"
        using uvw' sec unfolding r_def by (cases "u = 0"; cases "u = 13"; linarith)+
      moreover have "r div 4096 = u" "r div 64 mod 64 = v" "r mod 64 = w"
        using uvw' unfolding r_def by (simp_all only: radix64_3_back)
      ultimately show ?thesis using 3 x uvw'
        by (auto simp: s Let_def encode_rune_def valid_rune_def)
    next
      case False
      with 3 show ?thesis by (auto simp: s Let_def split: list.splits)
    qed
  next
    case 4
    show ?thesis
    proof (cases "\<exists>x y z t. s' = x # y # z # t \<and> second_ok ?b x \<and> is_cont y \<and> is_cont z")
      case True
      then obtain x y z t where
        x: "s' = x # y # z # t" "second_ok ?b x" "is_cont y" "is_cont z" by blast
      define u v w q where uvw: "u = ?b - 240" "v = byte x - 128" "w = byte y - 128"
        "q = byte z - 128"
      have uvw': "?b = 240 + u" "byte x = 128 + v" "byte y = 128 + w" "byte z = 128 + q"
        "u < 5" "v < 64" "w < 64" "q < 64"
        using 4 x(2-4) unfolding uvw is_cont_def second_ok_def second_range_def
        by (auto split: if_splits)
      have sec: "u = 0 \<Longrightarrow> 16 \<le> v" "u = 4 \<Longrightarrow> v < 16"
        using x(2) uvw' by (auto simp: second_ok_def second_range_def)
      have "a = char_of (240 + u)" "x = char_of (128 + v)" "y = char_of (128 + w)"
        "z = char_of (128 + q)"
        using uvw' by (metis char_of_byte)+
      moreover define r where "r = u * 262144 + v * 4096 + w * 64 + q"
      moreover have "65536 \<le> r" "r \<le> 1114111"
        using uvw' sec unfolding r_def by (cases "u = 0"; cases "u = 4"; linarith)+
      moreover have "r div 262144 = u" "r div 4096 mod 64 = v" "r div 64 mod 64 = w" "r mod 64 = q"
        using uvw' unfolding r_def by (simp_all only: radix64_4_back)
      ultimately show ?thesis using 4 x uvw'
        by (simp add: s Let_def encode_rune_def valid_rune_def)
    next
      case False
      with 4 show ?thesis by (auto simp: s Let_def split: list.splits)
    qed
  next
    case 5
    then show ?thesis by (simp add: s Let_def)
  next
    case 6
    then show ?thesis by (simp add: s Let_def)
  qed
qed

lemma runes_valid: "r \<in> set (runes s) \<Longrightarrow> valid_rune r"
proof (induction s rule: rune_chunks.induct)
  case (1 s)
  then show ?case
    by (cases "s = []") (auto simp: runes_Cons decode_rune_sound)
qed

lemma encode_runes_valid: "utf8_valid s \<Longrightarrow> encode_runes (runes s) = s"
proof (induction s rule: rune_chunks.induct)
  case (1 s)
  show ?case
  proof (cases "s = []")
    case False
    let ?n = "snd (decode_rune s)"
    have "utf8_valid (drop ?n s)"
      using 1(2) False by (simp add: utf8_valid_def rune_chunks_Cons)
    moreover have "decode_rune s \<noteq> (rune_error, 1)"
      using 1(2) False decode_rune_width [OF False]
      by (auto simp: utf8_valid_def rune_chunks_Cons)
    ultimately have "encode_runes (runes (drop ?n s)) = drop ?n s"
      and "encode_rune (fst (decode_rune s)) = take ?n s"
      using 1(1) False decode_rune_sound [OF False] by simp_all
    with False have "encode_runes (runes s) = take ?n s @ drop ?n s"
      by (simp add: runes_Cons encode_runes_def)
    then show ?thesis by simp
  qed (simp add: encode_runes_def)
qed

end
