(* ===== verification/Codec.thy ===== *)
theory Codec
  imports B64 Utf8_Facts
begin

text \<open>
  File \<open>internal/rewrite/codec.go\<close>: the wire form of a header value, plain, base64 or base64 behind
  the prefix \<open>base64:\<close>, and the test that tells encoded text from a short word that happens to be
  valid base64.
\<close>

datatype form = FormPlain | FormBase64Prefixed | FormBase64

definition base64_prefix :: string where
  "base64_prefix = ''base64:''"

definition is_text :: "string \<Rightarrow> bool" where
  "is_text raw \<longleftrightarrow> raw \<noteq> [] \<and> utf8_valid raw
    \<and> (\<forall>r \<in> set (runes raw). \<not> (r < 32 \<and> r \<noteq> 9 \<and> r \<noteq> 10 \<and> r \<noteq> 13))"

definition decode_any :: "string \<Rightarrow> string option" where
  "decode_any value =
    (let v = trim_space value
     in if length v < 4 then None else map_option fst (decode v (Some is_text)))"

definition decode_base64 :: "string \<Rightarrow> (string \<times> form) option" where
  "decode_base64 value =
    (case cut_prefix value base64_prefix of
       Some rest \<Rightarrow> map_option (\<lambda>t. (t, FormBase64Prefixed)) (decode_any (trim_space rest))
     | None \<Rightarrow> map_option (\<lambda>t. (t, FormBase64)) (decode_any value))"

fun encode_form :: "string \<Rightarrow> form \<Rightarrow> string" where
  "encode_form text FormBase64Prefixed = base64_prefix @ b64_encode StdEncoding text"
| "encode_form text FormBase64 = b64_encode StdEncoding text"
| "encode_form text FormPlain = text"

section \<open>Text survives a form\<close>

lemma b64_encode_length_4: "xs \<noteq> [] \<Longrightarrow> 4 \<le> length (b64_encode StdEncoding xs)"
  by (induction StdEncoding xs rule: b64_encode.induct) auto

lemma decode_any_encode: "is_text t \<Longrightarrow> decode_any (b64_encode StdEncoding t) = Some t"
  using decode_encode_accept [where accept = "Some is_text" and xs = t and e = StdEncoding] b64_encode_length_4 [of t]
  by (auto simp: decode_any_def Let_def is_text_def)

lemma cut_prefix_append [simp]: "cut_prefix (p @ s) p = Some s"
  by (simp add: cut_prefix_def has_prefix_def)

lemma b64_char_plausible: "v < 64 \<Longrightarrow> plausible_byte (b64_char e v)"
  using b64_value_own b64_value_plausible by blast

lemma encode_not_prefixed: "cut_prefix (b64_encode e t) base64_prefix = None"
proof -
  have "plausible (b64_encode e t)" using std_decode_encode(1) by (rule std_decode_plausible)
  moreover have "\<not> plausible_byte (CHR '':'')"
    by (simp add: plausible_byte_def is_upper_def is_lower_def is_digit_def is_newline_def byte_def)
  moreover have "CHR '':'' \<in> set base64_prefix" by (simp add: base64_prefix_def)
  ultimately show ?thesis
    by (metis cut_prefix_def has_prefix_def in_set_takeD plausible_def)
qed

lemma decode_base64_encode:
  "is_text t \<Longrightarrow> f \<noteq> FormPlain \<Longrightarrow> decode_base64 (encode_form t f) = Some (t, f)"
  by (cases f) (simp_all add: decode_base64_def decode_any_encode encode_not_prefixed)

lemma decode_any_text: "decode_any v = Some t \<Longrightarrow> is_text t"
  by (auto simp: decode_any_def decode_def Let_def split: if_splits dest!: try_encodings_Some)

section \<open>Properties\<close>

text \<open>what \<open>DecodeBase64\<close> reads is printable text, and writing it back in the form it was found
  in gives a value that decodes to the same text in the same form; so a rewrite that keeps the form
  keeps the value readable by the client.\<close>

theorem decode_base64_stable:
  assumes "decode_base64 v = Some (t, f)"
  shows "is_text t \<and> f \<noteq> FormPlain \<and> decode_base64 (encode_form t f) = Some (t, f)"
proof -
  from assms have t: "is_text t" and f: "f \<noteq> FormPlain"
    by (auto simp: decode_base64_def dest: decode_any_text split: option.splits)
  from decode_base64_encode [OF t f] t f show ?thesis by blast
qed

lemma decode_base64_stable_witness:
  "decode_base64 ''base64:aGVsbG8'' = Some (''hello'', FormBase64Prefixed)
   \<and> decode_base64 (encode_form ''hello'' FormBase64Prefixed) = Some (''hello'', FormBase64Prefixed)"
proof -
  have 1: "decode_base64 ''base64:aGVsbG8'' = Some (''hello'', FormBase64Prefixed)"
    by code_simp
  from decode_base64_stable [OF 1] 1 show ?thesis by blast
qed

text \<open>every printable text is found again under both encoded forms, whatever its bytes.\<close>

theorem encoded_text_found:
  assumes "is_text t" and "f = FormBase64 \<or> f = FormBase64Prefixed"
  shows "decode_base64 (encode_form t f) = Some (t, f)"
  using assms by (intro decode_base64_encode) auto

lemma encoded_text_found_witness:
  "decode_base64 (encode_form ''a'' FormBase64) = Some (''a'', FormBase64)"
proof (rule encoded_text_found)
  show "is_text ''a''" by code_simp
qed simp

end
