(* ===== verification/Case_Facts.thy ===== *)
theory Case_Facts
  imports Utf8_Facts
begin

declare decode_rune.simps(2) [simp del]

text \<open>
  Comparing a lowered or folded string with an ASCII word: apart from the Kelvin sign and U+0130
  under lower case, and the Kelvin sign and the long s under folding, only ASCII text can give one.
\<close>

definition range_image_ok :: "case_range \<Rightarrow> bool" where
  "range_image_ok e = (case e of (lo, hi, st, d) \<Rightarrow>
     (128 \<le> int lo + d \<or> (lo = hi \<and> (int lo + d = 105 \<or> int lo + d = 107)))
     \<and> (int hi + d < 55296 \<or> 57343 < int lo + d) \<and> int hi + d \<le> 1114111)"

lemma lower_ranges_ok: "\<forall>e \<in> set lower_ranges. range_image_ok e"
proof -
  have "list_all range_image_ok lower_ranges"
    unfolding lower_ranges_def by (simp only: list.pred_inject range_image_ok_def prod.case) simp
  then show ?thesis by (simp add: list_all_iff)
qed

lemma map_case_cases:
  assumes "map_case tab r = r'"
  obtains "r' = r" | lo hi st d where "(lo, hi, st, d) \<in> set tab" "lo \<le> r" "r \<le> hi" "r' = nat (int r + d)"
proof (cases "find (in_case_range r) tab")
  case None
  with assms that(1) show thesis by (simp add: map_case_def)
next
  case (Some e)
  obtain lo hi st d where e: "e = (lo, hi, st, d)" by (cases e) auto
  from Some obtain ys zs where "tab = ys @ e # zs" "in_case_range r e"
    using find_Some_split by metis
  with Some e assms that(2) [of lo hi st d] show thesis
    by (simp add: map_case_def in_case_range_def)
qed

lemma rune_lower_range:
  assumes "128 \<le> r" and "rune_lower r = r'" and "r' \<noteq> r"
  shows "(128 \<le> r' \<or> r' = 105 \<or> r' = 107) \<and> valid_rune r'"
proof -
  from assms have "map_case lower_ranges r = r'" by (simp add: rune_lower_def)
  then show ?thesis
  proof (cases rule: map_case_cases)
    case (2 lo hi st d)
    with lower_ranges_ok have ok: "range_image_ok (lo, hi, st, d)" by blast
    from 2(2,3) have *: "int lo \<le> int r" "int r \<le> int hi" by simp_all
    have r': "int r' = int r + d" if "0 \<le> int r + d" using 2(4) that by simp
    from ok * have "0 \<le> int r + d" unfolding range_image_ok_def by auto
    with r' have "int r' = int r + d" by simp
    with ok * show ?thesis unfolding range_image_ok_def valid_rune_def by auto
  qed (use assms in simp)
qed

lemma rune_lower_valid: "valid_rune r \<Longrightarrow> valid_rune (rune_lower r)"
  using rune_lower_range [of r "rune_lower r"]
  by (cases "r < 128"; cases "rune_lower r = r") (auto simp: rune_lower_def valid_rune_def)

lemma runes_to_lower: "runes (to_lower s) = map rune_lower (runes s)"
  unfolding to_lower_def by (rule runes_encode) (auto dest: runes_valid intro: rune_lower_valid)

lemma decode_rune_ascii:
  assumes "fst (decode_rune (c # s)) < 128" shows "byte c < 128"
proof -
  have "encode_rune (fst (decode_rune (c # s))) = take (snd (decode_rune (c # s))) (c # s)"
    using decode_rune_sound [of "c # s"] assms by (force simp: rune_error_def)
  then have "char_of (fst (decode_rune (c # s))) = c"
    using assms by (cases "snd (decode_rune (c # s))") (simp_all add: encode_rune_ascii del: decode_rune.simps)
  then have "byte c = fst (decode_rune (c # s))"
    using assms byte_char_of [of "fst (decode_rune (c # s))"] by (simp del: decode_rune.simps byte_char_of)
  with assms show ?thesis by simp
qed

lemma runes_ascii_only: "(\<And>r. r \<in> set (runes s) \<Longrightarrow> r < 128) \<Longrightarrow> is_ascii s"
proof (induction s)
  case (Cons c s)
  have "fst (decode_rune (c # s)) < 128" using Cons.prems by (simp add: runes_Cons)
  then have c: "byte c < 128" by (rule decode_rune_ascii)
  then have "runes (c # s) = byte c # runes s" by (simp add: runes_def rune_chunks_ascii_Cons)
  with Cons c show ?case by (simp add: is_ascii_def)
qed (simp add: is_ascii_def)

lemma to_lower_word:
  assumes t: "is_ascii t" "105 \<notin> byte ` set t" "107 \<notin> byte ` set t"
  shows "to_lower s = t \<longleftrightarrow> is_ascii s \<and> map ascii_lower s = t"
proof
  assume s: "to_lower s = t"
  then have rs: "map rune_lower (runes s) = map byte t"
    using runes_to_lower [of s] t(1) by (simp add: runes_ascii)
  have "is_ascii s"
  proof (rule runes_ascii_only, rule ccontr)
    fix r assume r: "r \<in> set (runes s)" "\<not> r < 128"
    then have "rune_lower r \<in> byte ` set t" using rs by (metis image_eqI list.set_map)
    moreover from this have "rune_lower r < 128" using t(1) by (auto simp: is_ascii_def)
    ultimately show False using rune_lower_range [of r "rune_lower r"] r(2) t(2,3) by force
  qed
  with s show "is_ascii s \<and> map ascii_lower s = t" by (simp add: to_lower_ascii)
qed (auto simp: to_lower_ascii)

lemma rune_fold_byte: "byte c < 128 \<Longrightarrow> rune_fold (byte c) = byte (ascii_lower c)"
  by (auto simp: rune_fold_def ascii_lower_def is_upper_def)

lemma map_fold_ascii: "is_ascii s \<Longrightarrow> map rune_fold (runes s) = map byte (map ascii_lower s)"
  by (induction s) (simp_all add: runes_ascii is_ascii_def rune_fold_byte)

lemma ascii_lower_ascii: "byte c < 128 \<Longrightarrow> byte (ascii_lower c) < 128"
  by (auto simp: ascii_lower_def is_upper_def)

lemma equal_fold_word:
  assumes t: "is_ascii t" "107 \<notin> byte ` ascii_lower ` set t" "115 \<notin> byte ` ascii_lower ` set t"
  shows "equal_fold s t \<longleftrightarrow> is_ascii s \<and> map ascii_lower s = map ascii_lower t"
proof
  have rt: "map rune_fold (runes t) = map byte (map ascii_lower t)"
    using t(1) by (rule map_fold_ascii)
  assume "equal_fold s t"
  then have rs: "map rune_fold (runes s) = map byte (map ascii_lower t)"
    by (simp only: equal_fold_def rt)
  have s: "is_ascii s"
  proof (rule runes_ascii_only, rule ccontr)
    fix r assume r: "r \<in> set (runes s)" "\<not> r < 128"
    then have in_t: "rune_fold r \<in> byte ` ascii_lower ` set t"
      using rs by (metis image_eqI list.set_map)
    then have "rune_fold r < 128"
      using t(1) ascii_lower_ascii by (fastforce simp: is_ascii_def)
    with r(2) in_t t(2,3) show False by (auto simp: rune_fold_def split: if_splits)
  qed
  then have "map byte (map ascii_lower s) = map byte (map ascii_lower t)"
    using rs map_fold_ascii by metis
  then have "map ascii_lower s = map ascii_lower t"
    by (metis byte_inject inj_map_eq_map inj_onI)
  with s show "is_ascii s \<and> map ascii_lower s = map ascii_lower t" by simp
next
  assume s: "is_ascii s \<and> map ascii_lower s = map ascii_lower t"
  then show "equal_fold s t" using t(1) by (simp add: equal_fold_def map_fold_ascii del: map_map)
qed

end
