(* ===== verification/Userinfo.thy ===== *)
theory Userinfo
  imports Case_Facts
begin

text \<open>
  File \<open>internal/subinfo/userinfo.go\<close>: the \<open>subscription-userinfo\<close> header, a list of
  \<open>key=value\<close> fields between semicolons, and its rewrite to an unlimited plan.  An int64 is an
  \<open>int\<close>; the one addition that can overflow wraps around.
\<close>

definition user_info_header :: string where
  "user_info_header = ''subscription-userinfo''"

record user_info =
  upload :: int
  download :: int
  total :: int
  expire :: int

definition no_user_info :: user_info where
  "no_user_info = \<lparr>upload = -1, download = -1, total = -1, expire = -1\<rparr>"

definition used_of :: "user_info \<Rightarrow> int" where
  "used_of u =
    (if upload u < 0 \<and> download u < 0 then -1
     else if upload u < 0 then download u
     else if download u < 0 then upload u
     else wrap64 (upload u + download u))"

text \<open>One round of the loop over the fields; the flag is the code's \<open>any\<close>.\<close>

definition parse_field :: "string \<Rightarrow> user_info \<times> bool \<Rightarrow> user_info \<times> bool" where
  "parse_field part acc =
    (case cut ''='' part of
       None \<Rightarrow> acc
     | Some (key, val) \<Rightarrow>
         (case parse_int (trim_space val) of
            None \<Rightarrow> acc
          | Some n \<Rightarrow>
              (let k = to_lower (trim_space key); (info, any) = acc
               in if k = ''upload'' then (info\<lparr>upload := n\<rparr>, True)
                  else if k = ''download'' then (info\<lparr>download := n\<rparr>, True)
                  else if k = ''total'' then (info\<lparr>total := n\<rparr>, True)
                  else if k = ''expire'' then (info\<lparr>expire := n\<rparr>, True)
                  else acc)))"

definition parse_user_info :: "string \<Rightarrow> user_info \<times> bool" where
  "parse_user_info header =
    (if trim_space header = [] then (no_user_info, False)
     else fold parse_field (split_byte (CHR '';'') header) (no_user_info, False))"

definition is_total_field :: "string \<Rightarrow> bool" where
  "is_total_field part =
    (case cut ''='' part of
       None \<Rightarrow> False
     | Some (key, _) \<Rightarrow> equal_fold (trim_space key) ''total'')"

definition force_field :: "string \<Rightarrow> string list" where
  "force_field part =
    (if is_total_field part then [''total=0'']
     else if trim_space part = [] then [] else [trim_space part])"

definition force_unlimited_total :: "string \<Rightarrow> string" where
  "force_unlimited_total header =
    (if trim_space header = [] then ''total=0''
     else
       (let parts = split_byte (CHR '';'') header;
            out = concat (map force_field parts)
        in join ''; '' (if list_ex is_total_field parts then out else out @ [''total=0''])))"

section \<open>Fields and the blanks around them\<close>

lemma stops_equals: "stops space_encs (CHR ''='')"
  by (rule graphic_stops) (simp_all add: byte_def)

lemma trim_left_blank: "trim_left (CHR 0x20 # s) = trim_left s"
proof -
  have "[CHR 0x20] \<in> set space_encs" by (simp add: space_encs_def)
  from strip_space_enc [OF this, of s] show ?thesis
    by (simp add: trim_left_def strip_all_Some)
qed

lemma trim_space_blank [simp]: "trim_space (CHR 0x20 # s) = trim_space s"
  by (simp add: trim_space_def trim_left_blank)

lemma trim_space_has_stop: "stops space_encs c \<Longrightarrow> c \<in> set s \<Longrightarrow> trim_space s \<noteq> []"
  by (metis split_list trim_space_around_stop append_is_Nil_conv list.distinct(1))

lemma parse_field_trim [simp]: "parse_field (trim_space q) acc = parse_field q acc"
proof (cases "cut ''='' q")
  case None
  then have "CHR ''='' \<notin> set (trim_space q)"
    using trim_space_set by (auto simp: cut_single_None)
  with None show ?thesis by (simp add: parse_field_def flip: cut_single_None)
next
  case (Some kv)
  obtain k v where kv: "kv = (k, v)" by (cases kv)
  with Some have "q = k @ CHR ''='' # v" and k: "CHR ''='' \<notin> set k"
    by (simp_all add: cut_single_Some)
  then have "trim_space q = trim_left k @ CHR ''='' # trim_right v"
    by (simp add: trim_space_around_stop stops_equals)
  moreover have "CHR ''='' \<notin> set (trim_left k)" using k trim_left_set by blast
  ultimately have "cut ''='' (trim_space q) = Some (trim_left k, trim_right v)"
    by (simp add: cut_single_append)
  with Some kv show ?thesis by (simp add: parse_field_def split: option.split)
qed

lemma parse_field_blank [simp]: "parse_field (CHR 0x20 # q) acc = parse_field q acc"
  by (metis parse_field_trim trim_space_blank)

lemma parse_field_Nil [simp]: "parse_field [] acc = acc"
  by (simp add: parse_field_def)

lemma parse_field_all_blank: "trim_space q = [] \<Longrightarrow> parse_field q acc = acc"
  by (metis parse_field_trim parse_field_Nil)

lemma parse_total_zero: "parse_field ''total=0'' (i, a) = (i\<lparr>total := 0\<rparr>, True)"
proof -
  have "cut ''='' ''total=0'' = Some (''total'', ''0'')" by code_simp
  moreover have "parse_int (trim_space ''0'') = Some 0" by code_simp
  moreover have "to_lower (trim_space ''total'') = ''total''" by code_simp
  ultimately show ?thesis by (simp add: parse_field_def Let_def)
qed

text \<open>The two comparisons of a key with \<open>total\<close>, lowering it and folding it, agree.\<close>

lemma total_key: "to_lower k = ''total'' \<longleftrightarrow> equal_fold k ''total''"
proof -
  have "is_ascii ''total''" "105 \<notin> byte ` set ''total''" "107 \<notin> byte ` set ''total''"
    "map ascii_lower ''total'' = ''total''"
    by (simp_all add: is_ascii_def byte_def ascii_lower_def is_upper_def)
  moreover from this have "107 \<notin> byte ` ascii_lower ` set ''total''"
    "115 \<notin> byte ` ascii_lower ` set ''total''"
    by (simp_all add: byte_def ascii_lower_def is_upper_def)
  ultimately show ?thesis by (simp add: to_lower_word equal_fold_word)
qed

lemma parse_field_total:
  "is_total_field p \<Longrightarrow> (fst (parse_field p acc))\<lparr>total := x\<rparr> = (fst acc)\<lparr>total := x\<rparr>"
  by (cases acc) (auto simp: is_total_field_def parse_field_def Let_def
      simp flip: total_key split: option.splits)

lemma parse_field_other:
  assumes "\<not> is_total_field p" and "i\<lparr>total := 0\<rparr> = j\<lparr>total := 0\<rparr>"
  shows "(fst (parse_field p (i, a)))\<lparr>total := 0\<rparr> = (fst (parse_field p (j, b)))\<lparr>total := 0\<rparr>"
    and "total (fst (parse_field p (i, a))) = total i"
    and "a \<Longrightarrow> snd (parse_field p (i, a))"
  using assms
  by (cases i; cases j; auto simp: is_total_field_def parse_field_def Let_def
      simp flip: total_key split: option.splits)+

section \<open>The rewritten header\<close>

definition force_step :: "string \<Rightarrow> user_info \<times> bool \<Rightarrow> user_info \<times> bool" where
  "force_step p acc = (if is_total_field p then parse_field ''total=0'' acc else parse_field p acc)"

lemma fold_force_field: "fold parse_field (force_field p) acc = force_step p acc"
  by (simp add: force_field_def force_step_def parse_field_all_blank)

lemma fold_force_fields:
  "fold parse_field (concat (map force_field ps)) acc = fold force_step ps acc"
  by (induction ps arbitrary: acc) (simp_all add: fold_force_field)

lemma split_join_blank:
  "\<forall>q \<in> set (p # ps). CHR '';'' \<notin> set q \<Longrightarrow>
   split_byte (CHR '';'') (join ''; '' (p # ps)) = p # map ((#) (CHR 0x20)) ps"
proof (induction ps arbitrary: p)
  case (Cons q ps)
  have "join ''; '' (p # q # ps) = p @ CHR '';'' # CHR 0x20 # join ''; '' (q # ps)" by simp
  then show ?case
    using Cons.prems Cons.IH [of q]
    by (simp add: split_byte_append split_byte_free split_byte_Cons_other)
qed (simp add: split_byte_free)

lemma fold_blank_fields: "fold parse_field (map ((#) (CHR 0x20)) ps) acc = fold parse_field ps acc"
  by (induction ps arbitrary: acc) simp_all

lemma force_fold:
  assumes "i\<lparr>total := 0\<rparr> = j\<lparr>total := 0\<rparr>"
  shows "(fst (fold force_step ps (i, a)))\<lparr>total := 0\<rparr> = (fst (fold parse_field ps (j, b)))\<lparr>total := 0\<rparr>
    \<and> (list_ex is_total_field ps \<or> (total i = 0 \<and> a) \<longrightarrow>
         total (fst (fold force_step ps (i, a))) = 0 \<and> snd (fold force_step ps (i, a)))"
  using assms
proof (induction ps arbitrary: i j a b)
  case (Cons p ps)
  obtain j' b' where j': "parse_field p (j, b) = (j', b')" by (cases "parse_field p (j, b)")
  show ?case
  proof (cases "is_total_field p")
    case True
    then have "i\<lparr>total := 0, total := 0\<rparr> = j'\<lparr>total := 0\<rparr>"
      using Cons.prems parse_field_total [OF True, where acc = "(j, b)" and x = 0] j' by simp
    from Cons.IH [OF this, of True b'] show ?thesis
      using True j' by (simp add: force_step_def parse_total_zero)
  next
    case False
    obtain i' a' where i': "parse_field p (i, a) = (i', a')" by (cases "parse_field p (i, a)")
    with False Cons.prems j' have "i'\<lparr>total := 0\<rparr> = j'\<lparr>total := 0\<rparr>"
      using parse_field_other(1) [OF False Cons.prems, of a b] by simp
    moreover have "total i' = total i" "a \<Longrightarrow> a'"
      using parse_field_other(2,3) [OF False Cons.prems, of a] i' by simp_all
    ultimately show ?thesis
      using Cons.IH [of i' j' a' b'] False i' j' by (auto simp: force_step_def)
  qed
qed simp

lemma force_field_no_sep:
  "CHR '';'' \<notin> set p \<Longrightarrow> q \<in> set (force_field p) \<Longrightarrow> CHR '';'' \<notin> set q"
  using trim_space_set by (auto simp: force_field_def split: if_splits)

section \<open>Properties\<close>

text \<open>C38: the header that \<open>ForceUnlimitedTotal\<close> writes reads back as the same upload, download
  and expiry with a total of zero, whatever the original said of the total, in whatever spelling,
  how often, or not at all.\<close>

theorem force_unlimited_reads_back:
  "parse_user_info (force_unlimited_total h) = ((fst (parse_user_info h))\<lparr>total := 0\<rparr>, True)"
proof (cases "trim_space h = []")
  case True
  have "trim_space ''total=0'' = ''total=0''" "split_byte (CHR '';'') ''total=0'' = [''total=0'']"
    by code_simp+
  with True show ?thesis
    by (simp add: parse_user_info_def force_unlimited_total_def parse_total_zero)
next
  case False
  let ?parts = "split_byte (CHR '';'') h"
  let ?out = "concat (map force_field ?parts)"
  let ?all = "if list_ex is_total_field ?parts then ?out else ?out @ [''total=0'']"
  have total_in: "''total=0'' \<in> set ?all"
    by (auto simp: list_ex_iff force_field_def)
  then obtain q qs where all: "?all = q # qs" by (cases ?all) auto
  have "\<forall>q \<in> set ?all. CHR '';'' \<notin> set q"
    using force_field_no_sep split_byte_no_sep [where c = "CHR '';''" and s = h]
    by (auto split: if_splits)
  then have "split_byte (CHR '';'') (join ''; '' ?all) = q # map ((#) (CHR 0x20)) qs"
    unfolding all by (rule split_join_blank)
  then have folded: "fold parse_field (split_byte (CHR '';'') (join ''; '' ?all)) acc
      = fold parse_field ?all acc" for acc
    by (simp add: all fold_blank_fields)
  have "CHR ''='' \<in> set (join ''; '' ?all)"
    using join_parts_in [OF total_in, of "''; ''"] by auto
  then have "trim_space (join ''; '' ?all) \<noteq> []"
    by (rule trim_space_has_stop [OF stops_equals])
  then have "parse_user_info (force_unlimited_total h) = fold parse_field ?all (no_user_info, False)"
    using False folded by (simp add: parse_user_info_def force_unlimited_total_def Let_def)
  also have "\<dots> = ((fst (fold parse_field ?parts (no_user_info, False)))\<lparr>total := 0\<rparr>, True)"
  proof (cases "list_ex is_total_field ?parts")
    case True
    obtain j c where jc: "fold force_step ?parts (no_user_info, False) = (j, c)" by fastforce
    with True force_fold [of no_user_info no_user_info ?parts False False]
    have "j\<lparr>total := 0\<rparr> = (fst (fold parse_field ?parts (no_user_info, False)))\<lparr>total := 0\<rparr>"
      "total j = 0" "c" by simp_all
    moreover from this have "j\<lparr>total := 0\<rparr> = j" by (cases j) simp
    ultimately show ?thesis using True jc by (simp add: fold_force_fields)
  next
    case False
    obtain j c where jc: "fold force_step ?parts (no_user_info, False) = (j, c)" by fastforce
    with force_fold [of no_user_info no_user_info ?parts False False]
    have "j\<lparr>total := 0\<rparr> = (fst (fold parse_field ?parts (no_user_info, False)))\<lparr>total := 0\<rparr>"
      by simp
    with False jc show ?thesis by (simp add: fold_force_fields parse_total_zero)
  qed
  finally show ?thesis using False by (simp add: parse_user_info_def)
qed

text \<open>the counters of the header are int64 values or absent: \<open>ParseUserInfo\<close> never yields a
  number outside the range, and \<open>Used\<close> stays in it even where the sum of the two overflows.\<close>

theorem user_info_in_int64:
  "in_int64 (used_of (fst (parse_user_info h))) \<and> in_int64 (upload (fst (parse_user_info h)))
   \<and> in_int64 (download (fst (parse_user_info h))) \<and> in_int64 (total (fst (parse_user_info h)))
   \<and> in_int64 (expire (fst (parse_user_info h)))"
proof -
  define ok where "ok = (\<lambda>i :: user_info. in_int64 (upload i) \<and> in_int64 (download i) \<and> in_int64 (total i)
      \<and> in_int64 (expire i))"
  have step: "ok (fst (parse_field p acc))" if "ok (fst acc)" for p acc
    using that by (cases acc)
      (auto simp: parse_field_def ok_def Let_def dest: parse_int_in_int64 split: option.splits)
  have "ok (fst (fold parse_field ps acc))" if "ok (fst acc)" for ps acc
    using that by (induction ps arbitrary: acc) (simp_all add: step)
  moreover have "ok no_user_info"
    by (simp add: ok_def no_user_info_def in_int64_def int64_min_def int64_max_def)
  ultimately have "ok (fst (parse_user_info h))" by (simp add: parse_user_info_def)
  moreover have "in_int64 (-1)" by (simp add: in_int64_def int64_min_def int64_max_def)
  ultimately show ?thesis by (auto simp: ok_def used_of_def wrap64_in_int64)
qed

end
