(* ===== verification/Tmpl.thy ===== *)
theory Tmpl
  imports Utf8_Facts
begin

text \<open>
  Package \<open>internal/tmpl\<close>: placeholders \<open>{NAME|modifier:arg|...}\<close> in a header value.

  The regular expression \<open>placeholderRe\<close> is fixed, and no two of its classes overlap at a choice,
  so a match at a position is unique: \<open>match_at\<close> reads it off.  \<open>FindAll\<close> takes the leftmost match,
  then goes on after it: \<open>tokens\<close>.
\<close>

section \<open>The placeholder pattern\<close>

definition name_char :: "char \<Rightarrow> bool" where
  "name_char c \<longleftrightarrow> is_upper c \<or> is_digit c \<or> c = CHR ''_''"

definition mod_char :: "char \<Rightarrow> bool" where
  "mod_char c \<longleftrightarrow> c \<noteq> CHR ''{'' \<and> c \<noteq> CHR ''}''"

text \<open>A match at the start of the text: the name, the modifiers with their bars, and what follows.\<close>

fun match_at :: "string \<Rightarrow> (string \<times> string \<times> string) option" where
  "match_at (a # c # r) =
    (if a = CHR ''{'' \<and> is_upper c then
       (let name = c # takeWhile name_char r;
            r1 = dropWhile name_char r;
            mods = takeWhile mod_char r1
        in (case dropWhile mod_char r1 of
              e # rest \<Rightarrow>
                if e = CHR ''}'' \<and> (mods = [] \<or> hd mods = CHR ''|'') then Some (name, mods, rest)
                else None
            | [] \<Rightarrow> None))
     else None)"
| "match_at _ = None"

datatype token = Lit char | Hole string string

fun token_text :: "token \<Rightarrow> string" where
  "token_text (Lit c) = [c]"
| "token_text (Hole name mods) = CHR ''{'' # name @ mods @ ''}''"

lemma match_at_text:
  "match_at s = Some (name, mods, rest) \<Longrightarrow> s = token_text (Hole name mods) @ rest"
proof (induction s rule: match_at.induct)
  case (1 a c r)
  let ?r1 = "dropWhile name_char r"
  from 1 have "a = CHR ''{''" and name: "name = c # takeWhile name_char r"
    and mods: "mods = takeWhile mod_char ?r1"
    and rest: "dropWhile mod_char ?r1 = CHR ''}'' # rest"
    by (auto simp: Let_def split: if_splits list.splits)
  have "?r1 = mods @ CHR ''}'' # rest"
    using takeWhile_dropWhile_id [of mod_char ?r1] unfolding mods rest by simp
  moreover have "r = takeWhile name_char r @ ?r1" by simp
  ultimately have "r = takeWhile name_char r @ mods @ CHR ''}'' # rest" by simp
  then show ?case using \<open>a = _\<close> name by simp
qed simp_all

lemma match_at_shorter: "match_at s = Some (name, mods, rest) \<Longrightarrow> length rest < length s"
  by (drule match_at_text) simp

function tokens :: "string \<Rightarrow> token list" where
  "tokens s = (case s of [] \<Rightarrow> []
    | c # s' \<Rightarrow>
        (case match_at s of
           Some (name, mods, rest) \<Rightarrow> Hole name mods # tokens rest
         | None \<Rightarrow> Lit c # tokens s'))"
  by pat_completeness auto
termination
  by (relation "measure length") (auto dest: match_at_shorter)

declare tokens.simps [simp del]

fun hole_name :: "token \<Rightarrow> string option" where
  "hole_name (Lit c) = None"
| "hole_name (Hole name mods) = Some name"

definition match_names :: "string \<Rightarrow> string list" where
  "match_names s = List.map_filter hole_name (tokens s)"

section \<open>Contains and Names\<close>

definition contains_placeholder :: "string \<Rightarrow> bool" where
  "contains_placeholder s \<longleftrightarrow> CHR ''{'' \<in> set s \<and> match_names s \<noteq> []"

text \<open>The loop of \<open>Names\<close>: a name is appended unless it is there already.\<close>

fun add_names :: "string list \<Rightarrow> string list \<Rightarrow> string list" where
  "add_names acc [] = acc"
| "add_names acc (n # ns) = add_names (if n \<in> set acc then acc else acc @ [n]) ns"

definition names :: "string \<Rightarrow> string list" where
  "names s = (if CHR ''{'' \<notin> set s then [] else add_names [] (match_names s))"

section \<open>Modifiers\<close>

record modifier =
  mod_name :: string
  mod_arg :: string

definition parse_modifiers :: "string \<Rightarrow> modifier list" where
  "parse_modifiers spec =
    (if spec = [] then []
     else map (\<lambda>part.
         (case cut '':'' part of
            Some (name, arg) \<Rightarrow> \<lparr>mod_name = to_lower (trim_space name), mod_arg = arg\<rparr>
          | None \<Rightarrow> \<lparr>mod_name = to_lower (trim_space part), mod_arg = []\<rparr>))
       (split_byte (CHR ''|'') (case cut_prefix spec ''|'' of Some r \<Rightarrow> r | None \<Rightarrow> spec)))"

definition default_of :: "modifier list \<Rightarrow> string option" where
  "default_of mods = map_option mod_arg (find (\<lambda>m. mod_name m = ''default'') mods)"

definition ellipsis :: string where
  "ellipsis = [CHR 0xE2, CHR 0x80, CHR 0xA6]"

definition truncate :: "string \<Rightarrow> int \<Rightarrow> string" where
  "truncate s n =
    (if n \<le> 0 then s
     else if int (length (runes s)) \<le> n then s
     else if n = 1 then ellipsis
     else encode_runes (take (nat (n - 1)) (runes s)) @ ellipsis)"

definition apply_modifier :: "modifier \<Rightarrow> string \<Rightarrow> string" where
  "apply_modifier m value =
    (if mod_name m = ''upper'' then to_upper value
     else if mod_name m = ''lower'' then to_lower value
     else if mod_name m = ''trim'' then trim_space value
     else if mod_name m = ''truncate'' then
       (case parse_int (trim_space (mod_arg m)) of Some n \<Rightarrow> truncate value n | None \<Rightarrow> value)
     else value)"

definition apply_modifiers :: "string \<Rightarrow> modifier list \<Rightarrow> string" where
  "apply_modifiers value mods = fold apply_modifier mods value"

section \<open>Render\<close>

datatype unknown = Keep | Blank

type_synonym lookup = "string \<Rightarrow> string option"

definition render_one :: "string \<Rightarrow> string \<Rightarrow> string \<Rightarrow> lookup \<Rightarrow> unknown \<Rightarrow> string" where
  "render_one match name mod_spec look unk =
    (let mods = parse_modifiers mod_spec
     in case look name of
          None \<Rightarrow>
            (case default_of mods of
               Some def \<Rightarrow> apply_modifiers def mods
             | None \<Rightarrow> (if unk = Blank then [] else match))
        | Some value \<Rightarrow>
            (if value = [] then
               (case default_of mods of
                  Some def \<Rightarrow> apply_modifiers def mods
                | None \<Rightarrow> apply_modifiers value mods)
             else apply_modifiers value mods))"

fun render_token :: "lookup \<Rightarrow> unknown \<Rightarrow> token \<Rightarrow> string" where
  "render_token look unk (Lit c) = [c]"
| "render_token look unk (Hole name mods) =
     render_one (token_text (Hole name mods)) name mods look unk"

definition render :: "string \<Rightarrow> lookup \<Rightarrow> unknown \<Rightarrow> string" where
  "render s look unk =
    (if CHR ''{'' \<notin> set s then s
     else if match_names s = [] then s
     else concat (map (render_token look unk) (tokens s)))"

section \<open>The token view of a template\<close>

lemma tokens_Nil [simp]: "tokens [] = []"
  by (simp add: tokens.simps)

lemma tokens_Some: "match_at s = Some (name, mods, rest) \<Longrightarrow> tokens s = Hole name mods # tokens rest"
  by (subst tokens.simps) (cases s; simp)

lemma tokens_None: "match_at (c # s) = None \<Longrightarrow> tokens (c # s) = Lit c # tokens s"
  by (subst tokens.simps) simp

lemma tokens_induct [case_names Nil Match Lit]:
  assumes "P []"
    and "\<And>s name mods rest. match_at s = Some (name, mods, rest) \<Longrightarrow> P rest \<Longrightarrow> P s"
    and "\<And>c s. match_at (c # s) = None \<Longrightarrow> P s \<Longrightarrow> P (c # s)"
  shows "P s"
proof (induction s rule: length_induct)
  case (1 s)
  show ?case
  proof (cases "match_at s")
    case None
    with 1 assms(1,3) show ?thesis by (cases s) auto
  next
    case (Some m)
    with 1 assms(2) show ?thesis by (cases m) (auto dest: match_at_shorter)
  qed
qed

lemma concat_tokens: "concat (map token_text (tokens s)) = s"
  by (induction s rule: tokens_induct) (auto simp: tokens_Some tokens_None dest: match_at_text)

lemma match_at_brace: "match_at s = Some m \<Longrightarrow> CHR ''{'' \<in> set s"
  by (induction s rule: match_at.induct) (auto split: if_splits)

lemma tokens_no_brace: "CHR ''{'' \<notin> set s \<Longrightarrow> tokens s = map Lit s"
proof (induction s)
  case (Cons c s)
  then have "match_at (c # s) = None"
    using match_at_brace [of "c # s"] by (cases "match_at (c # s)") auto
  with Cons show ?case by (simp add: tokens_None)
qed simp

lemma map_filter_Lit: "List.map_filter hole_name (map Lit s) = []"
  by (induction s) (simp_all add: List.map_filter_simps)

lemma match_names_no_brace: "CHR ''{'' \<notin> set s \<Longrightarrow> match_names s = []"
  by (simp add: match_names_def tokens_no_brace map_filter_Lit)

lemma no_matches_Lit: "List.map_filter hole_name ts = [] \<Longrightarrow> \<exists>s. ts = map Lit s"
proof (induction ts)
  case (Cons t ts)
  then obtain s where "ts = map Lit s" by (cases t) (auto simp: List.map_filter_simps)
  moreover obtain c where "t = Lit c" using Cons.prems by (cases t) (auto simp: List.map_filter_simps)
  ultimately show ?case by (intro exI [of _ "c # s"]) simp
qed simp

lemma render_tokens_Lit: "concat (map (render_token look unk) (map Lit s)) = s"
  by (induction s) simp_all

lemma concat_text_Lit: "concat (map token_text (map Lit s)) = s"
  by (induction s) simp_all

lemma render_no_match:
  "match_names s = [] \<Longrightarrow> concat (map (render_token look unk) (tokens s)) = s"
  using no_matches_Lit [of "tokens s"] concat_tokens [of s]
  by (metis match_names_def render_tokens_Lit concat_text_Lit)

lemma render_tokens: "render s look unk = concat (map (render_token look unk) (tokens s))"
  by (auto simp: render_def render_no_match match_names_no_brace)

lemma set_match_names: "n \<in> set (match_names s) \<longleftrightarrow> (\<exists>mods. Hole n mods \<in> set (tokens s))"
proof -
  have "n \<in> set (List.map_filter hole_name ts) \<longleftrightarrow> (\<exists>mods. Hole n mods \<in> set ts)" for ts
  proof (induction ts)
    case (Cons t ts)
    then show ?case by (cases t) (auto simp: List.map_filter_simps)
  qed (simp add: List.map_filter_simps)
  then show ?thesis by (simp add: match_names_def)
qed

lemma set_add_names: "set (add_names acc ns) = set acc \<union> set ns"
  by (induction ns arbitrary: acc) auto

lemma distinct_add_names: "distinct acc \<Longrightarrow> distinct (add_names acc ns)"
  by (induction ns arbitrary: acc) auto

lemma set_names: "set (names s) = set (match_names s)"
  by (simp add: names_def set_add_names match_names_no_brace)

lemma names_Nil_iff: "names s = [] \<longleftrightarrow> match_names s = []"
  by (metis set_empty set_names)

lemma runes_ellipsis: "runes ellipsis = [8230]"
proof -
  have "map byte ellipsis = map byte (encode_runes [8230])"
    by (simp add: ellipsis_def encode_runes_def encode_rune_def) (simp add: byte_def)
  then have "ellipsis = encode_runes [8230]"
    by (metis (no_types, lifting) byte_inject inj_map_eq_map inj_onI)
  moreover have "\<forall>r \<in> set [8230]. valid_rune r" by (simp add: valid_rune_def)
  ultimately show ?thesis using runes_encode by metis
qed

section \<open>Properties\<close>

lemma render_cong:
  "(\<And>n. n \<in> set (names s) \<Longrightarrow> look n = look' n) \<Longrightarrow> render s look unk = render s look' unk"
proof -
  assume same: "\<And>n. n \<in> set (names s) \<Longrightarrow> look n = look' n"
  have "render_token look unk t = render_token look' unk t" if "t \<in> set (tokens s)" for t
  proof (cases t)
    case (Hole name mods)
    with that have "look name = look' name" using same by (auto simp: set_names set_match_names)
    with Hole show ?thesis by (simp add: render_one_def)
  qed simp
  then have "map (render_token look unk) (tokens s) = map (render_token look' unk) (tokens s)"
    by simp
  then show ?thesis by (simp only: render_tokens)
qed

text \<open>\<open>Render\<close> asks for no value but those \<open>Names\<close> lists: two lookups that agree on them
  render the template alike.  So \<open>Names\<close> is enough to decide what has to be fetched.\<close>

theorem render_depends_on_names:
  "(\<And>n. n \<in> set (names s) \<Longrightarrow> look n = look' n) \<Longrightarrow> render s look unk = render s look' unk"
  by (rule render_cong)

lemma render_depends_on_names_witness:
  "render ''{A|upper}-{B}'' (\<lambda>n. if n = ''A'' then Some ''x'' else if n = ''B'' then Some ''y'' else None) Keep
   = render ''{A|upper}-{B}'' (\<lambda>n. if n = ''A'' then Some ''x'' else Some ''y'') Keep"
proof (rule render_depends_on_names)
  fix n assume "n \<in> set (names ''{A|upper}-{B}'')"
  moreover have "names ''{A|upper}-{B}'' = [''A'', ''B'']" by code_simp
  ultimately show "(if n = ''A'' then Some ''x'' else if n = ''B'' then Some ''y'' else None)
      = (if n = ''A'' then Some ''x'' else Some ''y'')" by auto
qed

text \<open>\<open>Names\<close> reports every placeholder once, and \<open>Contains\<close> holds exactly when it reports one;
  without one \<open>Render\<close> returns the text byte for byte, whatever the lookup and the policy.\<close>

theorem names_and_contains:
  "distinct (names s) \<and> (contains_placeholder s \<longleftrightarrow> names s \<noteq> [])
   \<and> (contains_placeholder s \<or> render s look unk = s)"
proof -
  have "distinct (names s)" by (simp add: names_def distinct_add_names)
  moreover have "contains_placeholder s \<longleftrightarrow> names s \<noteq> []"
    using match_names_no_brace by (auto simp: contains_placeholder_def names_Nil_iff)
  moreover have "contains_placeholder s \<or> render s look unk = s"
    by (auto simp: contains_placeholder_def render_def)
  ultimately show ?thesis by blast
qed

text \<open>under the \<open>keep\<close> policy a template whose placeholders are all unknown, and none of which
  has a default, comes out as it went in: no modifier touches an unresolved placeholder.\<close>

theorem render_keep_unknown:
  assumes "\<And>n mods. Hole n mods \<in> set (tokens s) \<Longrightarrow>
      look n = None \<and> default_of (parse_modifiers mods) = None"
  shows "render s look Keep = s"
proof -
  have "render_token look Keep t = token_text t" if "t \<in> set (tokens s)" for t
  proof (cases t)
    case (Hole name mods)
    with that assms [of name mods] show ?thesis by (simp add: render_one_def)
  qed simp
  then have "map (render_token look Keep) (tokens s) = map token_text (tokens s)" by simp
  then show ?thesis by (simp only: render_tokens concat_tokens)
qed

lemma render_keep_unknown_witness:
  "render ''a{X|upper} {Y}'' (\<lambda>_. None) Keep = ''a{X|upper} {Y}''"
proof (rule render_keep_unknown)
  have t: "tokens ''a{X|upper} {Y}''
     = [Lit (CHR ''a''), Hole ''X'' ''|upper'', Lit (CHR '' ''), Hole ''Y'' []]"
    by code_simp
  have d: "default_of (parse_modifiers ''|upper'') = None" "default_of (parse_modifiers []) = None"
    by code_simp+
  fix n mods assume "Hole n mods \<in> set (tokens ''a{X|upper} {Y}'')"
  then show "None = None \<and> default_of (parse_modifiers mods) = None" using d unfolding t by auto
qed

text \<open>\<open>Truncate\<close> keeps a text that fits, and otherwise gives exactly \<open>n\<close> runes: the first
  \<open>n - 1\<close> of the text and the ellipsis.  Without a positive limit it does nothing.\<close>

theorem truncate_runes:
  "runes (truncate s n) =
    (if n \<le> 0 \<or> int (length (runes s)) \<le> n then runes s
     else take (nat (n - 1)) (runes s) @ [8230])
   \<and> (n \<le> 0 \<or> int (length (runes (truncate s n))) \<le> n)"
proof -
  have v: "\<forall>r \<in> set (take k (runes s)). valid_rune r" for k
    using runes_valid by (meson in_set_takeD)
  have "runes (truncate s n) =
    (if n \<le> 0 \<or> int (length (runes s)) \<le> n then runes s
     else take (nat (n - 1)) (runes s) @ [8230])"
    by (auto simp: truncate_def runes_ellipsis runes_encode_append [OF v])
  then show ?thesis by auto
qed

end
