(* ===== verification/Go_Http.thy ===== *)
theory Go_Http
  imports String_Facts
begin

text \<open>
  The parts of \<open>net/http\<close> and \<open>net/url\<close> that several components use: header maps with their
  canonical keys, and the escaping of one path segment.  A header is an association list from
  key to values, in the order in which a \<open>range\<close> statement visits it.
\<close>

text \<open>\<open>strings.LastIndexByte\<close> and \<open>strings.IndexByte\<close>, \<open>None\<close> for -1.\<close>

definition last_index :: "char \<Rightarrow> string \<Rightarrow> nat option" where
  "last_index c s = find (\<lambda>i. s ! i = c) (rev [0..<length s])"

definition first_index :: "char \<Rightarrow> string \<Rightarrow> nat option" where
  "first_index c s = find (\<lambda>i. s ! i = c) [0..<length s]"

section \<open>Canonical header keys\<close>

text \<open>The bytes of an HTTP token, \<open>validHeaderFieldByte\<close>.\<close>

definition token_byte :: "char \<Rightarrow> bool" where
  "token_byte c \<longleftrightarrow> is_alnum c \<or> c \<in> set ''!#$%&*+-.^_`|~'' \<or> byte c = 39"

fun canonical_from :: "bool \<Rightarrow> string \<Rightarrow> string" where
  "canonical_from up [] = []"
| "canonical_from up (c # s) =
    (if up then ascii_upper c else ascii_lower c) # canonical_from (c = CHR ''-'') s"

text \<open>\<open>http.CanonicalHeaderKey\<close>: a name with a byte that is no token byte is kept as it is.\<close>

definition canonical_header_key :: "string \<Rightarrow> string" where
  "canonical_header_key s = (if list_all token_byte s then canonical_from True s else s)"

lemma ascii_lower_upper:
  "ascii_upper (ascii_upper c) = ascii_upper c" "ascii_lower (ascii_lower c) = ascii_lower c"
  "ascii_lower (ascii_upper c) = ascii_lower c" "ascii_upper (ascii_lower c) = ascii_upper c"
  by (auto simp: ascii_upper_def ascii_lower_def is_upper_def is_lower_def)

lemma ascii_case_dash:
  "ascii_upper c = CHR ''-'' \<longleftrightarrow> c = CHR ''-''" "ascii_lower c = CHR ''-'' \<longleftrightarrow> c = CHR ''-''"
proof -
  have "byte (CHR ''-'') = 45" by (simp add: byte_def)
  then show "ascii_upper c = CHR ''-'' \<longleftrightarrow> c = CHR ''-''"
    "ascii_lower c = CHR ''-'' \<longleftrightarrow> c = CHR ''-''"
    by (auto simp: ascii_upper_def ascii_lower_def is_upper_def is_lower_def
        simp flip: byte_inject)
qed

lemma token_byte_case: "token_byte (ascii_upper c) = token_byte c" "token_byte (ascii_lower c) = token_byte c"
  by (auto simp: ascii_upper_def ascii_lower_def token_byte_def is_alnum_def is_upper_def is_lower_def
      is_digit_def)

lemma canonical_from_idem: "canonical_from up (canonical_from up s) = canonical_from up s"
  by (induction s arbitrary: up) (simp_all add: ascii_lower_upper ascii_case_dash)

lemma canonical_from_token: "list_all token_byte (canonical_from up s) = list_all token_byte s"
  by (induction s arbitrary: up) (simp_all add: token_byte_case)

lemma canonical_idem [simp]:
  "canonical_header_key (canonical_header_key s) = canonical_header_key s"
  by (simp add: canonical_header_key_def canonical_from_idem canonical_from_token)

section \<open>Header maps\<close>

type_synonym header = "(string, string list) gomap"

definition header_get :: "header \<Rightarrow> string \<Rightarrow> string" where
  "header_get h k =
    (case map_of h (canonical_header_key k) of Some (v # _) \<Rightarrow> v | _ \<Rightarrow> [])"

definition header_set :: "header \<Rightarrow> string \<Rightarrow> string \<Rightarrow> header" where
  "header_set h k v = AList.update (canonical_header_key k) [v] h"

definition header_del :: "header \<Rightarrow> string \<Rightarrow> header" where
  "header_del h k = AList.delete (canonical_header_key k) h"

text \<open>A header as \<open>net/http\<close> parses it: one entry per key, keys in canonical spelling.\<close>

definition header_ok :: "header \<Rightarrow> bool" where
  "header_ok h \<longleftrightarrow> gomap_ok h \<and> (\<forall>k \<in> set (map_keys h). canonical_header_key k = k)"

lemma map_of_header_set [simp]:
  "map_of (header_set h k v) = (map_of h)(canonical_header_key k \<mapsto> [v])"
  by (simp add: header_set_def)

lemma map_of_header_del [simp]:
  "map_of (header_del h k) = (map_of h)(canonical_header_key k := None)"
  by (simp add: header_del_def)

lemma header_get_set:
  "header_get (header_set h k v) j =
    (if canonical_header_key j = canonical_header_key k then v else header_get h j)"
  by (simp add: header_get_def)

lemma header_get_del:
  "header_get (header_del h k) j =
    (if canonical_header_key j = canonical_header_key k then [] else header_get h j)"
  by (simp add: header_get_def)

lemma header_ok_set [inv_intros]: "header_ok h \<Longrightarrow> header_ok (header_set h k v)"
  by (auto simp: header_ok_def header_set_def AList.dom_update)

lemma header_ok_del [inv_intros]: "header_ok h \<Longrightarrow> header_ok (header_del h k)"
  by (auto simp: header_ok_def header_del_def map_keys_delete)

text \<open>
  What a client relies on when it edits a keyed collection: an edit at one key shows there and
  nowhere else.
\<close>

locale keyed_edits =
  fixes look :: "'s \<Rightarrow> 'k \<Rightarrow> 'v option"
    and put :: "'s \<Rightarrow> 'k \<Rightarrow> 'v \<Rightarrow> 's"
    and erase :: "'s \<Rightarrow> 'k \<Rightarrow> 's"
  assumes look_put: "look (put s k v) j = (if j = k then Some v else look s j)"
    and look_erase: "look (erase s k) j = (if j = k then None else look s j)"
begin

text \<open>A list of edits, \<open>None\<close> for an erasure, run in order.\<close>

definition edit :: "'k \<times> 'v option \<Rightarrow> 's \<Rightarrow> 's" where
  "edit e s = (case snd e of None \<Rightarrow> erase s (fst e) | Some v \<Rightarrow> put s (fst e) v)"

lemma look_edit: "look (edit e s) j = (if j = fst e then snd e else look s j)"
  by (simp add: edit_def look_put look_erase split: option.split)

lemma look_edits_other: "j \<notin> fst ` set es \<Longrightarrow> look (fold edit es s) j = look s j"
  by (induction es arbitrary: s) (simp_all add: look_edit)

lemma look_edits:
  "distinct (map fst es) \<Longrightarrow> (j, v) \<in> set es \<Longrightarrow> look (fold edit es s) j = v"
proof (induction es arbitrary: s)
  case (Cons e es)
  show ?case
  proof (cases "e = (j, v)")
    case True
    with Cons.prems have "j \<notin> fst ` set es" by simp
    with True show ?thesis by (simp add: look_edits_other look_edit)
  next
    case False
    with Cons show ?thesis by simp
  qed
qed simp

text \<open>A loop that skips the keys already edited lets the first change of each key win.\<close>

lemma look_first_match:
  assumes "\<And>c W s. step c (W, s) =
    (if key c \<in> W \<or> \<not> ok c then (W, s) else (insert (key c) W, edit (key c, val c) s))"
  shows "look (snd (fold step cs (W, s))) j =
    (if j \<in> W then look s j
     else case find (\<lambda>c. key c = j \<and> ok c) cs of None \<Rightarrow> look s j | Some c \<Rightarrow> val c)"
  by (induction cs arbitrary: W s) (auto simp: assms look_edit split: option.split)

end

text \<open>Header maps: a key outside its canonical spelling is looked up under that spelling.\<close>

definition header_lookup :: "header \<Rightarrow> string \<Rightarrow> string list option" where
  "header_lookup h k = map_of h k"

definition header_put :: "header \<Rightarrow> string \<Rightarrow> string list \<Rightarrow> header" where
  "header_put h k vs = AList.update k vs h"

definition header_erase :: "header \<Rightarrow> string \<Rightarrow> header" where
  "header_erase h k = AList.delete k h"

interpretation headers: keyed_edits header_lookup header_put header_erase
  by unfold_locales (simp_all add: header_lookup_def header_put_def header_erase_def)

section \<open>Hexadecimal digits\<close>

definition hex_upper :: "nat \<Rightarrow> char" where
  "hex_upper n = (if n < 10 then char_of (48 + n) else char_of (55 + n))"

definition hex_lower :: "nat \<Rightarrow> char" where
  "hex_lower n = (if n < 10 then char_of (48 + n) else char_of (87 + n))"

definition hex_value :: "char \<Rightarrow> nat option" where
  "hex_value c =
    (if is_digit c then Some (byte c - 48)
     else if 97 \<le> byte c \<and> byte c \<le> 102 then Some (byte c - 87)
     else if 65 \<le> byte c \<and> byte c \<le> 70 then Some (byte c - 55)
     else None)"

lemma hex_value_less: "hex_value c = Some x \<Longrightarrow> x < 16"
  by (auto simp: hex_value_def is_digit_def split: if_splits)

lemma hex_value_upper: "n < 16 \<Longrightarrow> hex_value (hex_upper n) = Some n"
  by (auto simp: hex_value_def hex_upper_def is_digit_def)

lemma hex_value_lower: "n < 16 \<Longrightarrow> hex_value (hex_lower n) = Some n"
  by (auto simp: hex_value_def hex_lower_def is_digit_def)

section \<open>Escaping a path segment\<close>

definition segment_byte :: "char \<Rightarrow> bool" where
  "segment_byte c \<longleftrightarrow> is_alnum c \<or> c \<in> set ''-_.~$&+=:@''"

definition path_escape :: "string \<Rightarrow> string" where
  "path_escape s =
    concat (map (\<lambda>c. if segment_byte c then [c]
                     else [CHR ''%'', hex_upper (byte c div 16), hex_upper (byte c mod 16)]) s)"

lemma path_escape_id: "\<forall>c \<in> set s. segment_byte c \<Longrightarrow> path_escape s = s"
  by (induction s) (simp_all add: path_escape_def)

end
