(* ===== verification/Config_Types.thy ===== *)
theory Config_Types
  imports String_Facts
begin

text \<open>
  File \<open>internal/config/file.go\<close> and its neighbours \<open>patterns.go\<close> and \<open>useragents.go\<close>: the types
  of the configuration that the other components read.  A compiled regular expression is the
  predicate \<open>MatchString\<close> computes, an optional setting is an \<open>option\<close>, and a resolved time zone is
  its name (\<open>None\<close> for the code's nil).  A time is a number of nanoseconds since the Unix epoch.
\<close>

type_synonym regex = "string \<Rightarrow> bool"
type_synonym time = int
type_synonym duration = int

definition second :: int where
  "second = 1000000000"

datatype encoding_mode = Encode_Auto | Encode_None | Encode_Base64 | Encode_Base64_Prefixed

datatype unknown_policy = Unknown_Keep | Unknown_Blank

datatype user_agent_action = Agent_Notice | Agent_Block

record traffic_format =
  decimals :: int
  binary_units :: bool
  unlimited :: string
  units :: "string list"
  force_unlimited :: bool

record datetime_format =
  layout :: string
  time_layout :: string
  timezone :: string
  never :: string
  location :: "string option"

definition location_of :: "datetime_format \<Rightarrow> string" where
  "location_of d = (case location d of None \<Rightarrow> ''UTC'' | Some l \<Rightarrow> l)"

record progress_bar_opts =
  bar_width :: int
  bar_filled :: string
  bar_empty :: string

record template_opts =
  unknown_opt :: unknown_policy
  scan_all_headers :: bool
  decode_base64_opt :: bool

record condition =
  client_types :: "string list"
  user_statuses :: "string list"
  cond_user_agent :: string
  exists_opt :: "bool option"
  has_traffic_limit :: "bool option"
  user_agent_re :: "regex option"

definition condition_empty :: "condition \<Rightarrow> bool" where
  "condition_empty c \<longleftrightarrow>
    client_types c = [] \<and> user_statuses c = [] \<and> trim_space (cond_user_agent c) = []
    \<and> exists_opt c = None \<and> has_traffic_limit c = None"

record header_rule =
  rule_name :: string
  rule_template :: "string option"
  rule_encode :: encoding_mode
  rule_remove :: bool
  rule_when :: condition
  rule_max_length :: int

record block_opts =
  block_enabled :: bool
  block_patterns :: "string list"

record hosts_opts =
  shuffle_patterns :: "string list"

record user_agent_rule =
  agent_name :: string
  agent_pattern :: string
  agent_action :: "user_agent_action option"
  agent_message :: string
  agent_announce :: bool

record user_agents =
  agent_rules :: "user_agent_rule list"

record config_file =
  traffic_opt :: traffic_format
  datetime_opt :: datetime_format
  bar_opt :: progress_bar_opts
  template_opt :: template_opts
  vars_opt :: "(string, string) gomap"
  headers_opt :: "header_rule list"
  block_opt :: block_opts
  hosts_opt :: hosts_opts
  user_agents_opt :: user_agents

definition infinity_sign :: string where
  "infinity_sign = [CHR 0xE2, CHR 0x88, CHR 0x9E]"

definition bar_full_sign :: string where
  "bar_full_sign = [CHR 0xE2, CHR 0x96, CHR 0xB0]"

definition bar_empty_sign :: string where
  "bar_empty_sign = [CHR 0xE2, CHR 0x96, CHR 0xB1]"

definition default_file :: config_file where
  "default_file =
    \<lparr>traffic_opt = \<lparr>decimals = 2, binary_units = True, unlimited = infinity_sign, units = [],
                     force_unlimited = False\<rparr>,
     datetime_opt = \<lparr>layout = ''02.01.2006'', time_layout = ''15:04'', timezone = ''UTC'',
                      never = infinity_sign, location = Some ''UTC''\<rparr>,
     bar_opt = \<lparr>bar_width = 10, bar_filled = bar_full_sign, bar_empty = bar_empty_sign\<rparr>,
     template_opt = \<lparr>unknown_opt = Unknown_Keep, scan_all_headers = True,
                      decode_base64_opt = True\<rparr>,
     vars_opt = [], headers_opt = [],
     block_opt = \<lparr>block_enabled = True, block_patterns = []\<rparr>,
     hosts_opt = \<lparr>shuffle_patterns = []\<rparr>,
     user_agents_opt = \<lparr>agent_rules = []\<rparr>\<rparr>"

end
