(* ===== verification/Panel_Client.thy ===== *)
theory Panel_Client
  imports Go_Http Config_Types
begin

text \<open>
  File \<open>internal/panel/client.go\<close>: the panel's answer about a subscription, and the client that
  asks for it.  The network, the decoding of the JSON answer and the parsing of a timestamp are
  parameters; of the base URL only the scheme and the path matter.  The errors keep what the
  callers tell apart and drop the wording.
\<close>

record user =
  user_short_uuid :: string
  username :: string
  days_left :: int
  traffic_used :: string
  traffic_limit :: string
  lifetime_traffic_used :: string
  traffic_used_bytes :: string
  traffic_limit_bytes :: string
  lifetime_traffic_used_bytes :: string
  expires_at :: string
  is_active :: bool
  user_status :: string
  traffic_limit_strategy :: string

record info =
  is_found :: bool
  info_user :: user
  info_subscription_url :: string

definition parse_bytes :: "string \<Rightarrow> int" where
  "parse_bytes s = (if s = [] then -1 else case parse_int s of None \<Rightarrow> -1 | Some n \<Rightarrow> n)"

definition used_bytes :: "user \<Rightarrow> int" where
  "used_bytes u = parse_bytes (traffic_used_bytes u)"

definition limit_bytes :: "user \<Rightarrow> int" where
  "limit_bytes u = parse_bytes (traffic_limit_bytes u)"

definition lifetime_used_bytes :: "user \<Rightarrow> int" where
  "lifetime_used_bytes u = parse_bytes (lifetime_traffic_used_bytes u)"

definition expiry_of :: "(string \<Rightarrow> time option) \<Rightarrow> user \<Rightarrow> time option" where
  "expiry_of parse_rfc3339 u =
    (if expires_at u = [] then None else parse_rfc3339 (expires_at u))"

section \<open>Requests to the panel\<close>

record url =
  url_scheme :: string
  url_host :: string
  url_path :: string

record panel_options =
  base_url :: "url option"
  token :: string
  timeout :: duration
  caddy_auth_token :: string
  cloudflare_id :: string
  cloudflare_secret :: string

record panel_client =
  base :: url
  common :: header

definition client_user_agent :: "string \<Rightarrow> string" where
  "client_user_agent version = ''remnawave-subpage-proxy/'' @ version"

text \<open>\<open>New\<close> without the transport: the headers every request carries.\<close>

definition common_headers :: "string \<Rightarrow> panel_options \<Rightarrow> header" where
  "common_headers version opts =
    (let h = header_set [] ''Authorization'' (''Bearer '' @ token opts);
         h = header_set h ''User-Agent'' (client_user_agent version);
         h = header_set h ''Accept'' ''application/json'';
         h = header_set h ''X-Subpage-Proxy-Version'' version;
         h = (if caddy_auth_token opts \<noteq> [] then header_set h ''X-Api-Key'' (caddy_auth_token opts)
              else h);
         h = (if cloudflare_id opts \<noteq> [] \<and> cloudflare_secret opts \<noteq> []
              then header_set (header_set h ''CF-Access-Client-Id'' (cloudflare_id opts))
                     ''CF-Access-Client-Secret'' (cloudflare_secret opts)
              else h)
     in case base_url opts of
          Some b \<Rightarrow>
            if url_scheme b = ''http''
            then header_set (header_set h ''X-Forwarded-Proto'' ''https'')
                   ''X-Forwarded-For'' ''127.0.0.1''
            else h
        | None \<Rightarrow> h)"

text \<open>A client without a base URL has none to ask; \<open>None\<close> stands for it.\<close>

definition new_client :: "string \<Rightarrow> panel_options \<Rightarrow> panel_client option" where
  "new_client version opts =
    map_option (\<lambda>b. \<lparr>base = b, common = common_headers version opts\<rparr>) (base_url opts)"

record panel_request =
  req_url :: url
  req_header :: header

record panel_response =
  status :: nat
  body :: string

datatype panel_error =
    Not_Found
  | Bad_Request
  | Transport_Error string
  | Token_Rejected nat
  | Panel_Status nat
  | Bad_Answer

text \<open>What the client needs of the outside: \<open>build\<close> says whether a request can be made of a URL.\<close>

record network =
  build :: "url \<Rightarrow> bool"
  send :: "panel_request \<Rightarrow> string + panel_response"
  decode_info :: "string \<Rightarrow> info option"
  decode_version :: "string \<Rightarrow> string option"

definition short_uuid_byte :: "char \<Rightarrow> bool" where
  "short_uuid_byte c \<longleftrightarrow> is_alnum c \<or> c = CHR ''_'' \<or> c = CHR ''-''"

definition valid_short_uuid :: "string \<Rightarrow> bool" where
  "valid_short_uuid s \<longleftrightarrow> list_all short_uuid_byte s \<and> 1 \<le> length s \<and> length s \<le> 128"

definition real_ip_header :: string where
  "real_ip_header = ''x-remnawave-real-ip''"

definition trim_suffix :: "string \<Rightarrow> string \<Rightarrow> string" where
  "trim_suffix s suf = (case cut_suffix s suf of None \<Rightarrow> s | Some r \<Rightarrow> r)"

definition info_request :: "panel_client \<Rightarrow> string \<Rightarrow> string \<Rightarrow> panel_request" where
  "info_request c short_uuid real_ip =
    \<lparr>req_url = (base c)\<lparr>url_path := trim_suffix (url_path (base c)) ''/'' @ ''/api/sub/''
        @ path_escape short_uuid @ ''/info''\<rparr>,
     req_header = (if real_ip = [] then common c
                   else header_set (common c) real_ip_header real_ip)\<rparr>"

definition read_limit :: nat where
  "read_limit = 1048576"

definition read_info :: "network \<Rightarrow> panel_response \<Rightarrow> panel_error + info" where
  "read_info net resp =
    (if status resp = 404 then Inl Not_Found
     else if status resp = 401 \<or> status resp = 403 then Inl (Token_Rejected (status resp))
     else if status resp \<noteq> 200 then Inl (Panel_Status (status resp))
     else
       (case decode_info net (take read_limit (body resp)) of
          None \<Rightarrow> Inl Bad_Answer
        | Some i \<Rightarrow> if is_found i then Inr i else Inl Not_Found))"

definition subscription_info ::
    "network \<Rightarrow> panel_client \<Rightarrow> string \<Rightarrow> string \<Rightarrow> panel_error + info" where
  "subscription_info net c short_uuid real_ip =
    (if \<not> valid_short_uuid short_uuid then Inl Not_Found
     else
       (let req = info_request c short_uuid real_ip in
        if \<not> build net (req_url req) then Inl Bad_Request
        else
          (case send net req of
             Inl e \<Rightarrow> Inl (Transport_Error e)
           | Inr resp \<Rightarrow> read_info net resp)))"

text \<open>\<open>Ping\<close>; the joined path of the metadata route is an argument.\<close>

definition ping :: "network \<Rightarrow> panel_client \<Rightarrow> string \<Rightarrow> panel_error + string" where
  "ping net c metadata_path =
    (let u = (base c)\<lparr>url_path := metadata_path\<rparr> in
     if \<not> build net u then Inl Bad_Request
     else
       (case send net \<lparr>req_url = u, req_header = common c\<rparr> of
          Inl e \<Rightarrow> Inl (Transport_Error e)
        | Inr resp \<Rightarrow>
            if status resp \<noteq> 200 then Inl (Panel_Status (status resp))
            else
              (case decode_version net (take read_limit (body resp)) of
                 None \<Rightarrow> Inl Bad_Answer
               | Some v \<Rightarrow>
                   Inr (if trim_space v = [] then ''unknown'' else trim_space v))))"

section \<open>What the client sends and answers\<close>

lemma short_uuid_bytes:
  "valid_short_uuid s \<Longrightarrow> \<forall>c \<in> set s. segment_byte c"
  by (auto simp: valid_short_uuid_def short_uuid_byte_def segment_byte_def list_all_iff)

lemma path_escape_uuid: "valid_short_uuid s \<Longrightarrow> path_escape s = s"
  by (simp add: path_escape_id short_uuid_bytes)

lemma short_uuid_no_dot:
  assumes "valid_short_uuid s" shows "CHR ''/'' \<notin> set s \<and> CHR ''.'' \<notin> set s \<and> CHR ''%'' \<notin> set s"
proof -
  have "\<not> short_uuid_byte (CHR ''/'')" "\<not> short_uuid_byte (CHR ''.'')" "\<not> short_uuid_byte (CHR ''%'')"
    by code_simp+
  with assms show ?thesis by (auto simp: valid_short_uuid_def list_all_iff)
qed

lemma parse_bytes_bounds: "in_int64 (parse_bytes s)"
  by (auto simp: parse_bytes_def in_int64_def int64_min_def int64_max_def
      dest!: parse_int_in_int64 split: option.split)

text \<open>C37: The client asks the panel at most one thing, and only for a short UUID of the allowed
  shape: the outcome depends on the network only through the one request whose path is the
  client's base path, \<open>/api/sub/\<close>, the short UUID as a single plain segment, and \<open>/info\<close>.\<close>

theorem subscription_info_confined:
  "(\<not> valid_short_uuid u \<longrightarrow> subscription_info net c u ip = Inl Not_Found)
   \<and> (valid_short_uuid u \<longrightarrow>
        url_path (req_url (info_request c u ip))
          = trim_suffix (url_path (base c)) ''/'' @ ''/api/sub/'' @ u @ ''/info''
        \<and> url_host (req_url (info_request c u ip)) = url_host (base c)
        \<and> CHR ''/'' \<notin> set u \<and> CHR ''.'' \<notin> set u \<and> CHR ''%'' \<notin> set u)
   \<and> (send net (info_request c u ip) = send net' (info_request c u ip) \<and> build net = build net'
        \<and> decode_info net = decode_info net'
      \<longrightarrow> subscription_info net c u ip = subscription_info net' c u ip)"
  by (auto simp: subscription_info_def Let_def read_info_def info_request_def path_escape_uuid
      dest: short_uuid_no_dot split: sum.split)

definition sample_client :: panel_client where
  "sample_client =
    \<lparr>base = \<lparr>url_scheme = ''https'', url_host = ''panel'', url_path = ''/x/''\<rparr>, common = []\<rparr>"

definition sample_user :: user where
  "sample_user =
    \<lparr>user_short_uuid = ''abc'', username = ''bob'', days_left = 4, traffic_used = '''',
     traffic_limit = '''', lifetime_traffic_used = '''', traffic_used_bytes = ''10'',
     traffic_limit_bytes = ''0'', lifetime_traffic_used_bytes = ''30'', expires_at = ''T'',
     is_active = True, user_status = ''ACTIVE'', traffic_limit_strategy = ''NO_RESET''\<rparr>"

definition sample_net :: "nat \<Rightarrow> network" where
  "sample_net code =
    \<lparr>build = (\<lambda>_. True), send = (\<lambda>_. Inr \<lparr>status = code, body = ''x''\<rparr>),
     decode_info = (\<lambda>_. Some \<lparr>is_found = True, info_user = sample_user,
                               info_subscription_url = ''''\<rparr>),
     decode_version = (\<lambda>_. Some '''')\<rparr>"

theorem subscription_info_confined_witness:
  "subscription_info (sample_net 200) sample_client ''../x'' '''' = Inl Not_Found
   \<and> url_path (req_url (info_request sample_client ''a-Z_9'' '''')) = ''/x/api/sub/a-Z_9/info''"
proof -
  have "\<not> valid_short_uuid ''../x''" "valid_short_uuid ''a-Z_9''" by code_simp+
  moreover have "trim_suffix (url_path (base sample_client)) ''/'' = ''/x''" by code_simp
  ultimately show ?thesis
    using subscription_info_confined [of "''../x''" "sample_net 200" sample_client "''''" "sample_net 200"]
      subscription_info_confined [of "''a-Z_9''" "sample_net 200" sample_client "''''" "sample_net 200"]
    by simp
qed

text \<open>What the lookup returns tells why: an answer needs HTTP 200 and a body that names a
  found subscription; \<open>Not_Found\<close> stands for an id of the wrong shape, HTTP 404, or an answer that
  says so; 401 and 403 are the token, and every other status is reported as itself.\<close>

theorem subscription_info_errors:
  "(case subscription_info net c u ip of
      Inr i \<Rightarrow> is_found i \<and> (\<exists>b. send net (info_request c u ip) = Inr \<lparr>status = 200, body = b\<rparr>
                  \<and> decode_info net (take read_limit b) = Some i)
    | Inl Not_Found \<Rightarrow>
        \<not> valid_short_uuid u
        \<or> (\<exists>b. send net (info_request c u ip) = Inr \<lparr>status = 404, body = b\<rparr>)
        \<or> (\<exists>b i. send net (info_request c u ip) = Inr \<lparr>status = 200, body = b\<rparr>
              \<and> decode_info net (take read_limit b) = Some i \<and> \<not> is_found i)
    | Inl (Token_Rejected s) \<Rightarrow> s = 401 \<or> s = 403
    | Inl (Panel_Status s) \<Rightarrow> s \<notin> {200, 401, 403, 404}
    | Inl (Transport_Error e) \<Rightarrow> send net (info_request c u ip) = Inl e
    | Inl Bad_Request \<Rightarrow> \<not> build net (req_url (info_request c u ip))
    | Inl Bad_Answer \<Rightarrow>
        (\<exists>b. send net (info_request c u ip) = Inr \<lparr>status = 200, body = b\<rparr>
           \<and> decode_info net (take read_limit b) = None))"
proof (cases "valid_short_uuid u \<and> build net (req_url (info_request c u ip))")
  case False
  then show ?thesis by (auto simp: subscription_info_def Let_def)
next
  case True
  show ?thesis
  proof (cases "send net (info_request c u ip)")
    case (Inl e)
    with True show ?thesis by (simp add: subscription_info_def Let_def)
  next
    case (Inr resp)
    obtain s b where "resp = \<lparr>status = s, body = b\<rparr>" by (cases resp)
    with True Inr show ?thesis
      by (auto simp: subscription_info_def Let_def read_info_def split: option.split)
  qed
qed

theorem subscription_info_errors_witness:
  "subscription_info (sample_net 404) sample_client ''a'' '''' = Inl Not_Found
   \<and> (\<exists>b. send (sample_net 404) (info_request sample_client ''a'' '''')
            = Inr \<lparr>status = 404, body = b\<rparr>)"
proof -
  have "valid_short_uuid ''a''" by code_simp
  moreover from this have "subscription_info (sample_net 404) sample_client ''a'' '''' = Inl Not_Found"
    by (simp add: subscription_info_def sample_net_def read_info_def)
  ultimately show ?thesis
    using subscription_info_errors [where net = "sample_net 404" and c = sample_client and u = "''a''"
        and ip = "''''"]
    by (simp add: sample_net_def)
qed

end
