(* ===== verification/Go_Float.thy ===== *)
theory Go_Float
  imports String_Facts
begin

text \<open>
  The float64 arithmetic behind the traffic counters, for the values that occur there: zero and
  positive numbers far from the ends of the exponent range.  A value is an exact fraction
  (numerator, denominator); every operation computes exactly and rounds to 53 significant bits,
  ties to even, which is what IEEE 754 and Go prescribe.  \<open>math.Pow\<close> of 1000 or 1024 to an index of
  at most 6 is exact.
\<close>

type_synonym f64 = "nat \<times> nat"

text \<open>Division to the nearest natural number, a tie to the even one.\<close>

definition round_half_even :: "nat \<Rightarrow> nat \<Rightarrow> nat" where
  "round_half_even p d =
    (let q = p div d; r = p mod d
     in if 2 * r < d \<or> (2 * r = d \<and> even q) then q else q + 1)"

text \<open>
  With \<open>k\<close> the difference of the bit lengths, \<open>p / d\<close> lies between \<open>2 ^ (k - 1)\<close> and \<open>2 ^ (k + 1)\<close>;
  the exponent is the one that leaves 53 bits before the point.
\<close>

definition f64_scaled :: "nat \<Rightarrow> nat \<Rightarrow> int \<Rightarrow> nat \<times> nat" where
  "f64_scaled p d e = (if 0 \<le> e then (p, d * 2 ^ nat e) else (p * 2 ^ nat (- e), d))"

text \<open>\<open>bits.Len64\<close>.\<close>

fun bit_length :: "nat \<Rightarrow> nat" where
  "bit_length n = (if n = 0 then 0 else Suc (bit_length (n div 2)))"

declare bit_length.simps [simp del]

definition f64_exponent :: "nat \<Rightarrow> nat \<Rightarrow> int" where
  "f64_exponent p d =
    (let e = int (bit_length p) - int (bit_length d) - 52;
         (a, b) = f64_scaled p d e
     in if a < b * 2 ^ 52 then e - 1 else e)"

definition f64_round :: "nat \<Rightarrow> nat \<Rightarrow> f64" where
  "f64_round p d =
    (if p = 0 then (0, 1)
     else
       (let e = f64_exponent p d;
            (a, b) = f64_scaled p d e;
            m = round_half_even a b
        in if 0 \<le> e then (m * 2 ^ nat e, 1) else (m, 2 ^ nat (- e))))"

definition f64_of_nat :: "nat \<Rightarrow> f64" where
  "f64_of_nat n = f64_round n 1"

text \<open>A natural number below \<open>2 ^ 53\<close>, or another one that has an exact representation.\<close>

definition f64_whole :: "nat \<Rightarrow> f64" where
  "f64_whole n = (n, 1)"

lemma f64_whole_fst [simp]: "fst (f64_whole n) = n"
  by (simp add: f64_whole_def)

lemma f64_whole_snd [simp]: "snd (f64_whole n) = 1"
  by (simp add: f64_whole_def)

definition f64_add :: "f64 \<Rightarrow> f64 \<Rightarrow> f64" where
  "f64_add x y = f64_round (fst x * snd y + fst y * snd x) (snd x * snd y)"

definition f64_mult :: "f64 \<Rightarrow> f64 \<Rightarrow> f64" where
  "f64_mult x y = f64_round (fst x * fst y) (snd x * snd y)"

definition f64_div :: "f64 \<Rightarrow> f64 \<Rightarrow> f64" where
  "f64_div x y = f64_round (fst x * snd y) (snd x * fst y)"

definition f64_ge_nat :: "f64 \<Rightarrow> nat \<Rightarrow> bool" where
  "f64_ge_nat x n \<longleftrightarrow> n * snd x \<le> fst x"

text \<open>\<open>int(math.Round(x))\<close>, halves away from zero, and \<open>int(math.Ceil(x))\<close>.\<close>

definition f64_nearest :: "f64 \<Rightarrow> nat" where
  "f64_nearest x = (2 * fst x + snd x) div (2 * snd x)"

definition f64_ceil :: "f64 \<Rightarrow> nat" where
  "f64_ceil x = (fst x + snd x - 1) div snd x"

text \<open>\<open>strconv.FormatFloat(x, 'f', decimals, 64)\<close>: the exact value rounded to the decimals, ties to even.\<close>

definition pad_zeros :: "nat \<Rightarrow> string \<Rightarrow> string" where
  "pad_zeros k s = replicate (k - length s) (CHR ''0'') @ s"

definition format_fixed :: "f64 \<Rightarrow> nat \<Rightarrow> string" where
  "format_fixed x decimals =
    (let n = round_half_even (fst x * 10 ^ decimals) (snd x)
     in nat_digits (n div 10 ^ decimals)
        @ (if decimals = 0 then []
           else CHR ''.'' # pad_zeros decimals (nat_digits (n mod 10 ^ decimals))))"

section \<open>What the callers rely on\<close>

lemma bit_length_bounds:
  "0 < n \<Longrightarrow> 2 ^ (bit_length n - 1) \<le> n \<and> n < 2 ^ bit_length n \<and> 0 < bit_length n"
proof (induction n rule: bit_length.induct)
  case (1 n)
  show ?case
  proof (cases "n div 2 = 0")
    case True
    with "1.prems" have "n = 1" by linarith
    then show ?thesis by (simp add: bit_length.simps)
  next
    case False
    with 1 have "2 ^ (bit_length (n div 2) - 1) \<le> n div 2" "n div 2 < 2 ^ bit_length (n div 2)"
      "0 < bit_length (n div 2)" by simp_all
    moreover have "bit_length n = Suc (bit_length (n div 2))"
      using "1.prems" by (simp add: bit_length.simps [of n])
    ultimately show ?thesis by (cases "bit_length (n div 2)") auto
  qed
qed

lemma f64_round_zero [simp]: "f64_round 0 d = (0, 1)"
  by (simp add: f64_round_def)

lemma f64_round_den: "0 < snd (f64_round p d)"
  by (simp add: f64_round_def Let_def split: prod.split)

lemma round_half_even_pos: "0 < d \<Longrightarrow> d \<le> p \<Longrightarrow> 0 < round_half_even p d"
  by (auto simp: round_half_even_def Let_def div_greater_zero_iff)

lemma round_half_even_exact: "0 < d \<Longrightarrow> round_half_even (q * d) d = q"
  by (simp add: round_half_even_def)

lemma round_half_even_one [simp]: "round_half_even n 1 = n" "round_half_even n (Suc 0) = n"
  by (simp_all add: round_half_even_def)

text \<open>At the chosen exponent the scaled fraction has at least 53 bits before the point.\<close>

lemma scaled_start:
  assumes "0 < p" "0 < d"
  shows "snd (f64_scaled p d (int (bit_length p) - int (bit_length d) - 52)) * 2 ^ 51
    \<le> fst (f64_scaled p d (int (bit_length p) - int (bit_length d) - 52))"
proof -
  let ?kp = "bit_length p" and ?kd = "bit_length d"
  have kp: "2 ^ (?kp - 1) \<le> p" "0 < ?kp" and kd: "d \<le> 2 ^ ?kd"
    using bit_length_bounds [OF assms(1)] bit_length_bounds [OF assms(2)] by simp_all
  show ?thesis
  proof (cases "?kd + 52 \<le> ?kp")
    case True
    then obtain m where m: "?kp = ?kd + 52 + m" using le_Suc_ex by blast
    have "d * 2 ^ m * 2 ^ 51 \<le> 2 ^ ?kd * 2 ^ m * 2 ^ 51" using kd by simp
    also have "\<dots> = 2 ^ (?kp - 1)" using m by (simp add: power_add)
    finally have "d * 2 ^ m * 2 ^ 51 \<le> p" using kp(1) by (rule order.trans)
    then show ?thesis using m by (simp add: f64_scaled_def)
  next
    case False
    then obtain m where m: "?kd + 52 = ?kp + m" "0 < m"
      by (metis le_Suc_ex nat_le_linear add_0_right neq0_conv)
    have "d * 2 ^ 51 \<le> 2 ^ ?kd * 2 ^ 51" using kd by simp
    also have "\<dots> = 2 ^ (?kp - 1) * 2 ^ m"
    proof -
      have "?kd + 51 = (?kp - 1) + m" using m kp(2) by linarith
      then show ?thesis by (simp only: flip: power_add)
    qed
    also have "\<dots> \<le> p * 2 ^ m" using kp(1) by simp
    finally have "d * 2 ^ 51 \<le> p * 2 ^ m" .
    moreover have "int ?kp - int ?kd - 52 = - int m" using m(1) by linarith
    ultimately show ?thesis using m(2) by (simp add: f64_scaled_def)
  qed
qed

lemma scaled_pred:
  "(a, b) = f64_scaled p d e \<Longrightarrow> (a', b') = f64_scaled p d (e - 1) \<Longrightarrow>
   (a' = a \<and> b = 2 * b') \<or> (a' = 2 * a \<and> b' = b)"
proof -
  assume ab: "(a, b) = f64_scaled p d e" "(a', b') = f64_scaled p d (e - 1)"
  show ?thesis
  proof (cases "1 \<le> e")
    case True
    then have "nat e = Suc (nat (e - 1))" by simp
    with ab True show ?thesis by (simp add: f64_scaled_def)
  next
    case False
    then have "nat (- (e - 1)) = Suc (nat (- e))" by simp
    with ab False show ?thesis by (cases "e = 0") (simp_all add: f64_scaled_def)
  qed
qed

lemma f64_scaled_bound:
  assumes "0 < p" "0 < d" "(a, b) = f64_scaled p d (f64_exponent p d)"
  shows "b * 2 ^ 52 \<le> a"
proof -
  let ?e = "int (bit_length p) - int (bit_length d) - 52"
  obtain a0 b0 where ab0: "(a0, b0) = f64_scaled p d ?e" by (metis surj_pair)
  have start: "b0 * 2 ^ 51 \<le> a0" using scaled_start [OF assms(1,2)] by (simp flip: ab0)
  show ?thesis
  proof (cases "a0 < b0 * 2 ^ 52")
    case True
    then have "f64_exponent p d = ?e - 1"
      unfolding f64_exponent_def Let_def by (simp flip: ab0)
    with assms(3) scaled_pred [OF ab0] have "(a = a0 \<and> b0 = 2 * b) \<or> (a = 2 * a0 \<and> b = b0)" by simp
    with start show ?thesis by auto
  next
    case False
    then have "f64_exponent p d = ?e"
      unfolding f64_exponent_def Let_def by (simp flip: ab0)
    with assms(3) ab0 False show ?thesis by (metis Pair_inject not_less)
  qed
qed

lemma f64_scaled_den: "0 < d \<Longrightarrow> (a, b) = f64_scaled p d e \<Longrightarrow> 0 < b"
  by (auto simp: f64_scaled_def split: if_splits)

lemma f64_round_pos: "0 < p \<Longrightarrow> 0 < d \<Longrightarrow> 0 < fst (f64_round p d)"
proof -
  assume pd: "0 < p" "0 < d"
  obtain a b where ab: "(a, b) = f64_scaled p d (f64_exponent p d)" by (metis surj_pair)
  have "b \<le> b * 2 ^ 52" by simp
  also have "\<dots> \<le> a" by (rule f64_scaled_bound [OF pd ab])
  finally have "0 < round_half_even a b"
    using f64_scaled_den [OF pd(2) ab] by (intro round_half_even_pos)
  with pd(1) show ?thesis by (simp add: f64_round_def Let_def flip: ab)
qed

text \<open>A quotient that is a natural number below \<open>2 ^ 53\<close> is exact.\<close>

lemma f64_round_exact:
  assumes "0 < d" "q < 2 ^ 53"
  shows "fst (f64_round (q * d) d) = q * snd (f64_round (q * d) d)"
proof (cases "q = 0")
  case False
  with assms have p: "0 < q * d" by simp
  let ?e = "f64_exponent (q * d) d"
  obtain a b where ab: "(a, b) = f64_scaled (q * d) d ?e" by (metis surj_pair)
  have bound: "b * 2 ^ 52 \<le> a" by (rule f64_scaled_bound [OF p assms(1) ab])
  show ?thesis
  proof (cases "0 \<le> ?e")
    case True
    with ab have eq: "a = q * d" "b = d * 2 ^ nat ?e" by (simp_all add: f64_scaled_def)
    with bound have "d * (2 ^ nat ?e * 2 ^ 52) \<le> d * q" by (simp add: ac_simps)
    with assms(1) have "2 ^ nat ?e * 2 ^ 52 \<le> q" by simp
    from le_less_trans [OF this assms(2)] have "2 ^ nat ?e * 2 ^ 52 < (2 :: nat) ^ 53" .
    then have "(2 :: nat) ^ nat ?e < 2" by simp
    then have "nat ?e = 0" by (cases "nat ?e") auto
    then show ?thesis using p True ab eq assms(1)
      by (simp add: f64_round_def f64_scaled_def Let_def round_half_even_exact)
  next
    case False
    with ab have "a = (q * 2 ^ nat (- ?e)) * d" "b = d" by (simp_all add: f64_scaled_def ac_simps)
    then have "round_half_even a b = q * 2 ^ nat (- ?e)"
      using assms(1) by (simp only: round_half_even_exact)
    then show ?thesis using p False by (simp add: f64_round_def Let_def flip: ab)
  qed
qed simp

text \<open>Rounding never crosses a natural number below \<open>2 ^ 53\<close>, from either side.\<close>

lemma round_half_even_ge: "0 < d \<Longrightarrow> q * d \<le> p \<Longrightarrow> q \<le> round_half_even p d"
proof -
  assume "0 < d" "q * d \<le> p"
  then have "q \<le> p div d" by (simp add: less_eq_div_iff_mult_less_eq)
  then show ?thesis by (simp add: round_half_even_def Let_def)
qed

lemma round_half_even_le: "0 < d \<Longrightarrow> p \<le> q * d \<Longrightarrow> round_half_even p d \<le> q"
proof -
  assume d: "0 < d" and le: "p \<le> q * d"
  show ?thesis
  proof (cases "p = q * d")
    case True
    with d show ?thesis by (simp add: round_half_even_exact)
  next
    case False
    with le have "p < q * d" by simp
    with d have "p div d < q" by (simp add: div_less_iff_less_mult)
    then show ?thesis by (simp add: round_half_even_def Let_def)
  qed
qed

lemma f64_round_cases:
  assumes "0 < p" "0 < d"
  obtains (whole) e where "f64_round p d = (round_half_even p (d * 2 ^ e) * 2 ^ e, 1)"
      "d * 2 ^ e * 2 ^ 52 \<le> p"
    | (fraction) e where "f64_round p d = (round_half_even (p * 2 ^ e) d, 2 ^ e)"
proof (cases "0 \<le> f64_exponent p d")
  case True
  obtain a b where ab: "(a, b) = f64_scaled p d (f64_exponent p d)" by (metis surj_pair)
  have "b * 2 ^ 52 \<le> a" by (rule f64_scaled_bound [OF assms ab])
  moreover from ab True have "a = p" "b = d * 2 ^ nat (f64_exponent p d)"
    by (simp_all add: f64_scaled_def)
  ultimately show ?thesis
    using assms True by (intro whole [of "nat (f64_exponent p d)"])
      (simp_all add: f64_round_def f64_scaled_def Let_def)
next
  case False
  with assms show ?thesis
    by (intro fraction [of "nat (- f64_exponent p d)"])
      (simp_all add: f64_round_def f64_scaled_def Let_def)
qed

lemma f64_round_ge:
  assumes "0 < d" "q < 2 ^ 53" "q * d \<le> p"
  shows "q * snd (f64_round p d) \<le> fst (f64_round p d)"
proof (cases "p = 0")
  case True
  with assms show ?thesis by simp
next
  case False
  then have p: "0 < p" by simp
  from p assms(1) show ?thesis
  proof (cases rule: f64_round_cases)
    case (whole e)
    show ?thesis
    proof (cases e)
      case 0
      with whole(1) round_half_even_ge [OF assms(1) assms(3)] show ?thesis by simp
    next
      case (Suc k)
      have "2 ^ 52 * (d * 2 ^ e) \<le> p" using whole(2) by (simp add: ac_simps)
      with assms(1) have "2 ^ 52 \<le> round_half_even p (d * 2 ^ e)"
        by (intro round_half_even_ge) simp_all
      then have "2 ^ 52 * 2 ^ e \<le> round_half_even p (d * 2 ^ e) * 2 ^ e" by simp
      moreover have "(2 :: nat) ^ 53 \<le> 2 ^ 52 * 2 ^ e" using Suc by simp
      ultimately have "q \<le> round_half_even p (d * 2 ^ e) * 2 ^ e" using assms(2) by linarith
      then show ?thesis using whole(1) by simp
    qed
  next
    case (fraction e)
    have "q * 2 ^ e * d \<le> p * 2 ^ e" using assms(3) by (simp add: ac_simps)
    with assms(1) fraction show ?thesis by (simp add: round_half_even_ge)
  qed
qed

lemma f64_round_le:
  assumes "0 < d" "q < 2 ^ 53" "p \<le> q * d"
  shows "fst (f64_round p d) \<le> q * snd (f64_round p d)"
proof (cases "p = 0")
  case False
  then have p: "0 < p" by simp
  from p assms(1) show ?thesis
  proof (cases rule: f64_round_cases)
    case (whole e)
    from le_trans [OF whole(2) assms(3)] have "d * (2 ^ e * 2 ^ 52) \<le> d * q"
      by (simp only: ac_simps)
    then have "2 ^ e * 2 ^ 52 \<le> q" using assms(1) by (simp only: nat_mult_le_cancel1)
    from le_less_trans [OF this assms(2)] have "(2 :: nat) ^ e < 2" by simp
    then have "e = 0" by (cases e) auto
    with whole(1) round_half_even_le [OF assms(1) assms(3)] show ?thesis by simp
  next
    case (fraction e)
    have "p * 2 ^ e \<le> q * 2 ^ e * d" using assms(3) by (simp add: ac_simps)
    with assms(1) fraction show ?thesis by (simp add: round_half_even_le)
  qed
qed simp

lemma f64_of_nat_exact: "n < 2 ^ 53 \<Longrightarrow> fst (f64_of_nat n) = n * snd (f64_of_nat n)"
  using f64_round_exact [of 1 n] by (simp add: f64_of_nat_def)

lemma f64_of_nat_den [simp]: "0 < snd (f64_of_nat n)"
  by (simp add: f64_of_nat_def f64_round_den)

end
