(* ===== verification/Vars.thy ===== *)
theory Vars
  imports Userinfo Panel_Client Go_Float
begin

text \<open>
  File \<open>internal/subinfo/vars.go\<close>: the template variables.  \<open>lookup\<close> answers a placeholder from
  the operator's own variables, the request, the \<open>subscription-userinfo\<close> header or the panel;
  \<open>needs_panel\<close> decides beforehand whether the panel has to be asked.  The formatting and parsing
  of timestamps are parameters, and one instant stands for all readings of the clock while a
  response is rendered.
\<close>

datatype origin = Origin_Local | Origin_Traffic | Origin_Panel

definition catalog :: "(string, origin) gomap" where
  "catalog =
    [(''TRAFFIC_USED'', Origin_Traffic), (''TRAFFIC_USED_BYTES'', Origin_Traffic),
     (''TRAFFIC_LIMIT'', Origin_Traffic), (''TRAFFIC_LIMIT_BYTES'', Origin_Traffic),
     (''TRAFFIC_USED_IN_LIMIT'', Origin_Traffic), (''TRAFFIC_LIMIT_VALUE'', Origin_Traffic),
     (''TRAFFIC_UNIT'', Origin_Traffic), (''TRAFFIC_AVAILABLE'', Origin_Traffic),
     (''TRAFFIC_AVAILABLE_BYTES'', Origin_Traffic), (''TRAFFIC_USED_PERCENT'', Origin_Traffic),
     (''TRAFFIC_LEFT_PERCENT'', Origin_Traffic), (''PROGRESS_BAR'', Origin_Traffic),
     (''TRAFFIC_UPLOAD'', Origin_Traffic), (''TRAFFIC_DOWNLOAD'', Origin_Traffic),
     (''DAYS_LEFT'', Origin_Traffic), (''EXPIRES_AT'', Origin_Traffic),
     (''EXPIRES_AT_DATE'', Origin_Traffic), (''EXPIRES_AT_TIME'', Origin_Traffic),
     (''EXPIRES_AT_UNIX'', Origin_Traffic),
     (''USERNAME'', Origin_Panel), (''USER_STATUS'', Origin_Panel), (''IS_ACTIVE'', Origin_Panel),
     (''TRAFFIC_LIMIT_STRATEGY'', Origin_Panel), (''LIFETIME_TRAFFIC_USED'', Origin_Panel),
     (''ORIGINAL_VALUE'', Origin_Local), (''SHORT_UUID'', Origin_Local),
     (''SUBSCRIPTION_URL'', Origin_Local), (''CLIENT_TYPE'', Origin_Local),
     (''USER_AGENT'', Origin_Local), (''CLIENT_IP'', Origin_Local), (''NOW'', Origin_Local),
     (''DATE'', Origin_Local), (''TIME'', Origin_Local)]"

record source =
  src_short_uuid :: string
  src_client_type :: string
  src_user_agent :: string
  src_client_ip :: string
  src_subscription_url :: string
  src_user_info :: "user_info option"
  src_panel :: "info option"

record time_lib =
  parse_rfc3339 :: "string \<Rightarrow> time option"
  format_in :: "time \<Rightarrow> string \<Rightarrow> string \<Rightarrow> string"
  now :: time

record resolver =
  res_traffic :: traffic_format
  res_datetime :: datetime_format
  res_bar :: progress_bar_opts
  res_custom :: "(string, string) gomap"
  res_time :: time_lib

definition new_resolver :: "config_file \<Rightarrow> time_lib \<Rightarrow> resolver" where
  "new_resolver f t =
    \<lparr>res_traffic = traffic_opt f, res_datetime = datetime_opt f, res_bar = bar_opt f,
     res_custom = vars_opt f, res_time = t\<rparr>"

text \<open>A name the catalog does not hold reads as the zero value, \<open>OriginLocal\<close>.\<close>

definition origin_of :: "string \<Rightarrow> origin" where
  "origin_of name = (case map_of catalog name of None \<Rightarrow> Origin_Local | Some og \<Rightarrow> og)"

definition needs_panel :: "resolver \<Rightarrow> string list \<Rightarrow> bool \<Rightarrow> bool" where
  "needs_panel r names have_user_info =
    list_ex (\<lambda>name.
      map_of (res_custom r) name = None
      \<and> (case origin_of name of
            Origin_Panel \<Rightarrow> True
          | Origin_Traffic \<Rightarrow> \<not> have_user_info
          | Origin_Local \<Rightarrow> False)) names"

section \<open>Numbers and units\<close>

definition non_empty :: "string \<Rightarrow> string option" where
  "non_empty s = (if s = [] then None else Some s)"

definition available :: "int \<Rightarrow> int \<Rightarrow> int" where
  "available used limit = (if used < 0 \<or> limit < 0 then -1 else max 0 (limit - used))"

text \<open>The conversion of a float to \<open>int\<close>; out of range it gives the least int64, as on amd64.\<close>

definition to_go_int :: "nat \<Rightarrow> int" where
  "to_go_int n = (if int n \<le> int64_max then int n else int64_min)"

definition percent_used :: "int \<Rightarrow> int \<Rightarrow> int option" where
  "percent_used used limit =
    (if used < 0 \<or> limit < 0 then None
     else if limit = 0 then Some 0
     else
       (let ratio = f64_div (f64_of_nat (nat used)) (f64_of_nat (nat limit));
            pct = to_go_int (f64_nearest (f64_mult ratio (f64_whole 100)))
        in Some (min (max pct 0) 100)))"

definition progress_bar :: "progress_bar_opts \<Rightarrow> int \<Rightarrow> string" where
  "progress_bar bar pct =
    (if bar_width bar \<le> 0 then []
     else
       (let w = nat (bar_width bar);
            x = f64_div (f64_mult (f64_of_nat w) (f64_of_nat (nat pct))) (f64_whole 100);
            filled = min (max (to_go_int (f64_nearest x)) 0) (bar_width bar)
        in concat (replicate (nat filled) (bar_filled bar))
           @ concat (replicate (w - nat filled) (bar_empty bar))))"

definition decimal_units :: "string list" where
  "decimal_units = [''B'', ''KB'', ''MB'', ''GB'', ''TB'', ''PB'', ''EB'']"

definition binary_unit_names :: "string list" where
  "binary_unit_names = [''B'', ''KiB'', ''MiB'', ''GiB'', ''TiB'', ''PiB'', ''EiB'']"

definition units_of :: "traffic_format \<Rightarrow> string list \<times> nat" where
  "units_of f =
    (let (us, b) = (if binary_units f then (binary_unit_names, 1024) else (decimal_units, 1000))
     in (if units f \<noteq> [] then units f else us, b))"

text \<open>The loop of \<open>unitIndex\<close>: at most \<open>left\<close> divisions remain.\<close>

primrec unit_steps :: "f64 \<Rightarrow> nat \<Rightarrow> nat \<Rightarrow> nat" where
  "unit_steps v b 0 = 0"
| "unit_steps v b (Suc left) =
    (if f64_ge_nat v b then Suc (unit_steps (f64_div v (f64_whole b)) b left) else 0)"

definition unit_index :: "nat \<Rightarrow> nat \<Rightarrow> nat \<Rightarrow> nat" where
  "unit_index n b max_idx = unit_steps (f64_of_nat n) b max_idx"

definition format_scaled :: "nat \<Rightarrow> nat \<Rightarrow> nat \<Rightarrow> int \<Rightarrow> string" where
  "format_scaled n idx b decs =
    (if idx = 0 then format_int (int n)
     else format_fixed (f64_div (f64_of_nat n) (f64_whole (b ^ idx))) (nat decs))"

definition format_bytes :: "nat \<Rightarrow> traffic_format \<Rightarrow> string" where
  "format_bytes n f =
    (let (us, b) = units_of f; idx = unit_index n b (length us - 1)
     in format_scaled n idx b (decimals f) @ '' '' @ us ! idx)"

definition limit_scale :: "traffic_format \<Rightarrow> int \<Rightarrow> int \<Rightarrow> nat" where
  "limit_scale f used limit =
    (let (us, b) = units_of f;
         n = (if limit \<le> 0 then used else limit)
     in unit_index (nat n) b (length us - 1))"

definition bytes_value :: "traffic_format \<Rightarrow> int \<Rightarrow> string option" where
  "bytes_value f n = (if n < 0 then None else Some (format_bytes (nat n) f))"

definition raw_bytes :: "int \<Rightarrow> string option" where
  "raw_bytes n = (if n < 0 then None else Some (format_int n))"

section \<open>Times\<close>

definition hour :: int where
  "hour = 3600 * second"

text \<open>\<open>Time.Sub\<close> saturates at the ends of int64.\<close>

definition saturate :: "int \<Rightarrow> int" where
  "saturate d = max int64_min (min int64_max d)"

definition hours_of :: "int \<Rightarrow> f64" where
  "hours_of d =
    f64_add (f64_of_nat (nat (d div hour))) (f64_div (f64_of_nat (nat (d mod hour))) (f64_whole (nat hour)))"

definition days_until :: "time \<Rightarrow> time \<Rightarrow> int" where
  "days_until t expiry =
    (if \<not> t < expiry then 0
     else int (f64_ceil (f64_div (hours_of (saturate (expiry - t))) (f64_whole 24))))"

text \<open>
  \<open>time.Unix\<close> and \<open>Time.Unix\<close>: seconds are held as an int64 counted from the year 1, so those at
  the far end of the range wrap around.
\<close>

definition unix_to_internal :: int where
  "unix_to_internal = 62135596800"

definition unix_time :: "int \<Rightarrow> time" where
  "unix_time secs = (wrap64 (secs + unix_to_internal) - unix_to_internal) * second"

definition unix_seconds :: "time \<Rightarrow> int" where
  "unix_seconds t = wrap64 (t div second)"

definition full_layout :: "resolver \<Rightarrow> string" where
  "full_layout r = layout (res_datetime r) @ '' '' @ time_layout (res_datetime r)"

definition format_time :: "resolver \<Rightarrow> time \<Rightarrow> string \<Rightarrow> string" where
  "format_time r t lay = format_in (res_time r) t (location_of (res_datetime r)) lay"

section \<open>Resolving a name\<close>

definition traffic_counters :: "source \<Rightarrow> int \<times> int \<times> bool" where
  "traffic_counters src =
    (let (used, limit, ok) =
       (case src_user_info src of
          None \<Rightarrow> (-1, -1, False)
        | Some ui \<Rightarrow>
            if used_of ui \<ge> 0 \<or> total ui \<ge> 0 then (used_of ui, total ui, True) else (-1, -1, False))
     in case src_panel src of
          None \<Rightarrow> (used, limit, ok)
        | Some p \<Rightarrow>
            (let used = (if used < 0 then used_bytes (info_user p) else used);
                 limit = (if limit < 0 then limit_bytes (info_user p) else limit)
             in (used, limit, ok \<or> used \<ge> 0 \<or> limit \<ge> 0)))"

definition limit_of :: "source \<Rightarrow> int \<times> bool" where
  "limit_of src = (let (_, limit, ok) = traffic_counters src in (limit, ok \<and> limit \<ge> 0))"

definition expiry :: "resolver \<Rightarrow> source \<Rightarrow> time option" where
  "expiry r src =
    (case src_user_info src of
       Some ui \<Rightarrow>
         if expire ui > 0 then Some (unix_time (expire ui))
         else (case src_panel src of
                 None \<Rightarrow> None | Some p \<Rightarrow> expiry_of (parse_rfc3339 (res_time r)) (info_user p))
     | None \<Rightarrow>
         (case src_panel src of
            None \<Rightarrow> None | Some p \<Rightarrow> expiry_of (parse_rfc3339 (res_time r)) (info_user p)))"

definition resolve_local :: "resolver \<Rightarrow> string \<Rightarrow> source \<Rightarrow> string option" where
  "resolve_local r name src =
    (if name = ''SHORT_UUID'' then non_empty (src_short_uuid src)
     else if name = ''CLIENT_TYPE'' then non_empty (src_client_type src)
     else if name = ''USER_AGENT'' then non_empty (src_user_agent src)
     else if name = ''CLIENT_IP'' then non_empty (src_client_ip src)
     else if name = ''SUBSCRIPTION_URL'' then non_empty (src_subscription_url src)
     else if name = ''NOW'' then Some (format_time r (now (res_time r)) (full_layout r))
     else if name = ''DATE'' then Some (format_time r (now (res_time r)) (layout (res_datetime r)))
     else if name = ''TIME''
       then Some (format_time r (now (res_time r)) (time_layout (res_datetime r)))
     else None)"

definition resolve_panel :: "resolver \<Rightarrow> string \<Rightarrow> info option \<Rightarrow> string option" where
  "resolve_panel r name p =
    (case p of
       None \<Rightarrow> None
     | Some i \<Rightarrow>
         (let u = info_user i in
          if name = ''USERNAME'' then non_empty (username u)
          else if name = ''USER_STATUS'' then non_empty (user_status u)
          else if name = ''IS_ACTIVE'' then Some (if is_active u then ''true'' else ''false'')
          else if name = ''TRAFFIC_LIMIT_STRATEGY'' then non_empty (traffic_limit_strategy u)
          else if name = ''LIFETIME_TRAFFIC_USED''
            then bytes_value (res_traffic r) (lifetime_used_bytes u)
          else None))"

definition resolve_expiry :: "resolver \<Rightarrow> string \<Rightarrow> source \<Rightarrow> string option" where
  "resolve_expiry r name src =
    (let e = expiry r src;
         shown = (\<lambda>lay. case e of
            None \<Rightarrow> Some (never (res_datetime r)) | Some t \<Rightarrow> Some (format_time r t lay))
     in if name = ''DAYS_LEFT'' then
          (case src_panel src of
             Some p \<Rightarrow> Some (format_int (max 0 (days_left (info_user p))))
           | None \<Rightarrow>
               (case e of
                  None \<Rightarrow> None
                | Some t \<Rightarrow> Some (format_int (days_until (now (res_time r)) t))))
        else if name = ''EXPIRES_AT_UNIX'' then
          (case e of None \<Rightarrow> Some ''0'' | Some t \<Rightarrow> Some (format_int (unix_seconds t)))
        else if name = ''EXPIRES_AT'' then shown (full_layout r)
        else if name = ''EXPIRES_AT_DATE'' then shown (layout (res_datetime r))
        else if name = ''EXPIRES_AT_TIME'' then shown (time_layout (res_datetime r))
        else None)"

definition resolve_percent :: "resolver \<Rightarrow> string \<Rightarrow> int \<Rightarrow> int \<Rightarrow> string option" where
  "resolve_percent r name used limit =
    (case percent_used used limit of
       None \<Rightarrow> None
     | Some pct \<Rightarrow>
         if name = ''TRAFFIC_USED_PERCENT'' then Some (format_int pct)
         else if name = ''TRAFFIC_LEFT_PERCENT'' then Some (format_int (100 - pct))
         else Some (progress_bar (res_bar r) pct))"

definition resolve_traffic :: "resolver \<Rightarrow> string \<Rightarrow> source \<Rightarrow> string option" where
  "resolve_traffic r name src =
    (let (u, l, ok) = traffic_counters src;
         used = (if ok then u else -1); limit = (if ok then l else -1);
         f = res_traffic r; us = fst (units_of f); b = snd (units_of f)
     in if name = ''TRAFFIC_USED'' then bytes_value f used
        else if name = ''TRAFFIC_USED_BYTES'' then raw_bytes used
        else if name = ''TRAFFIC_LIMIT'' then
          (if limit = 0 then Some (unlimited f) else bytes_value f limit)
        else if name = ''TRAFFIC_LIMIT_BYTES'' then raw_bytes limit
        else if name = ''TRAFFIC_USED_IN_LIMIT'' then
          (if used < 0 then None
           else Some (format_scaled (nat used) (limit_scale f used limit) b (decimals f)))
        else if name = ''TRAFFIC_LIMIT_VALUE'' then
          (if limit < 0 then None
           else if limit = 0 then Some (unlimited f)
           else Some (format_scaled (nat limit) (limit_scale f used limit) b (decimals f)))
        else if name = ''TRAFFIC_UNIT'' then
          (if limit < 0 \<and> used < 0 then None else Some (us ! limit_scale f used limit))
        else if name = ''TRAFFIC_AVAILABLE'' then
          (if limit = 0 then Some (unlimited f) else bytes_value f (available used limit))
        else if name = ''TRAFFIC_AVAILABLE_BYTES'' then
          (if limit = 0 then Some ''0'' else raw_bytes (available used limit))
        else if name \<in> {''TRAFFIC_USED_PERCENT'', ''TRAFFIC_LEFT_PERCENT'', ''PROGRESS_BAR''} then
          resolve_percent r name used limit
        else if name \<in> {''TRAFFIC_UPLOAD'', ''TRAFFIC_DOWNLOAD''} then
          (case src_user_info src of
             None \<Rightarrow> None
           | Some ui \<Rightarrow> bytes_value f (if name = ''TRAFFIC_UPLOAD'' then upload ui else download ui))
        else resolve_expiry r name src)"

definition resolve :: "resolver \<Rightarrow> string \<Rightarrow> source \<Rightarrow> string option" where
  "resolve r name src =
    (case map_of catalog name of
       None \<Rightarrow> None
     | Some Origin_Panel \<Rightarrow> resolve_panel r name (src_panel src)
     | Some Origin_Traffic \<Rightarrow> resolve_traffic r name src
     | Some Origin_Local \<Rightarrow> resolve_local r name src)"

definition lookup :: "resolver \<Rightarrow> source \<Rightarrow> string \<Rightarrow> string option" where
  "lookup r src name =
    (case map_of (res_custom r) name of Some v \<Rightarrow> Some v | None \<Rightarrow> resolve r name src)"

section \<open>Percentages and the progress bar\<close>

lemma to_go_int_small: "n \<le> 2 ^ 62 \<Longrightarrow> to_go_int n = int n"
  by (simp add: to_go_int_def int64_max_def)

lemma f64_nearest_bounds:
  assumes "0 < snd x" "q * snd x \<le> fst x" "fst x \<le> r * snd x"
  shows "q \<le> f64_nearest x \<and> f64_nearest x \<le> r"
proof -
  have "q * (2 * snd x) \<le> 2 * fst x + snd x" using assms(2) by simp
  then have "q \<le> f64_nearest x"
    using assms(1) by (simp add: f64_nearest_def less_eq_div_iff_mult_less_eq)
  moreover have "2 * fst x + snd x < (r + 1) * (2 * snd x)" using assms(1,3) by simp
  then have "f64_nearest x < r + 1"
    using assms(1) unfolding f64_nearest_def by (subst div_less_iff_less_mult) simp_all
  ultimately show ?thesis by simp
qed

lemma f64_round_bounds:
  assumes "0 < d" "q < 2 ^ 53" "r < 2 ^ 53" "q * d \<le> p" "p \<le> r * d"
  shows "0 < snd (f64_round p d)" "q * snd (f64_round p d) \<le> fst (f64_round p d)"
    "fst (f64_round p d) \<le> r * snd (f64_round p d)"
  using assms by (auto simp: f64_round_den f64_round_ge f64_round_le)

lemma percent_range: "percent_used used limit = Some p \<Longrightarrow> 0 \<le> p \<and> p \<le> 100"
  by (auto simp: percent_used_def Let_def split: if_splits)

lemma percent_none: "percent_used used limit = None \<longleftrightarrow> used < 0 \<or> limit < 0"
  by (auto simp: percent_used_def Let_def)

lemma percent_used_up:
  assumes "0 < limit" "limit \<le> used" "used < 2 ^ 53" "used \<le> limit * 2 ^ 46"
  shows "percent_used used limit = Some 100"
proof -
  let ?x = "f64_of_nat (nat used)" and ?y = "f64_of_nat (nat limit)"
  define r where "r = f64_div ?x ?y"
  define m where "m = f64_mult r (f64_whole 100)"
  have x: "fst ?x = nat used * snd ?x" and y: "fst ?y = nat limit * snd ?y"
    using assms by (auto intro!: f64_of_nat_exact simp: nat_less_iff)
  have ul: "nat limit \<le> nat used" "nat used \<le> 2 ^ 46 * nat limit"
    using assms by (simp_all add: nat_le_iff)
  have den: "0 < snd ?x * fst ?y" using assms(1) y by simp
  have lo: "1 * (snd ?x * fst ?y) \<le> fst ?x * snd ?y"
    using mult_right_mono [OF ul(1), of "snd ?x * snd ?y"] x y by (simp add: ac_simps)
  have hi: "fst ?x * snd ?y \<le> 2 ^ 46 * (snd ?x * fst ?y)"
    using mult_right_mono [OF ul(2), of "snd ?x * snd ?y"] x y by (simp add: ac_simps)
  have small: "(1 :: nat) < 2 ^ 53" "(2 :: nat) ^ 46 < 2 ^ 53" "(100 :: nat) < 2 ^ 53"
    "(100 * 2 ^ 46 :: nat) < 2 ^ 53" by simp_all
  have r: "0 < snd r" "1 * snd r \<le> fst r" "fst r \<le> 2 ^ 46 * snd r"
    unfolding r_def f64_div_def by (rule f64_round_bounds [OF den small(1,2) lo hi])+
  have den': "0 < snd r * snd (f64_whole 100)"
    and lo': "100 * (snd r * snd (f64_whole 100)) \<le> fst r * fst (f64_whole 100)"
    and hi': "fst r * fst (f64_whole 100) \<le> 100 * 2 ^ 46 * (snd r * snd (f64_whole 100))"
    using r by simp_all
  have m: "0 < snd m" "100 * snd m \<le> fst m" "fst m \<le> (100 * 2 ^ 46) * snd m"
    unfolding m_def f64_mult_def by (rule f64_round_bounds [OF den' small(3,4) lo' hi'])+
  have "100 \<le> f64_nearest m \<and> f64_nearest m \<le> 100 * 2 ^ 46"
    by (rule f64_nearest_bounds [OF m])
  then show ?thesis
    using assms by (simp add: percent_used_def Let_def to_go_int_small flip: m_def r_def)
qed

lemma progress_bar_cells:
  assumes "0 \<le> p" "p \<le> 100"
  obtains k where "k \<le> nat (bar_width bar)"
    "progress_bar bar p = concat (replicate k (bar_filled bar))
       @ concat (replicate (nat (bar_width bar) - k) (bar_empty bar))"
proof (cases "bar_width bar \<le> 0")
  case True
  then show ?thesis by (intro that [of 0]) (simp_all add: progress_bar_def)
next
  case False
  let ?x = "f64_div (f64_mult (f64_of_nat (nat (bar_width bar))) (f64_of_nat (nat p))) (f64_whole 100)"
  let ?k = "nat (min (max (to_go_int (f64_nearest ?x)) 0) (bar_width bar))"
  have "?k \<le> nat (bar_width bar)" by simp
  with False show ?thesis
    by (intro that [of ?k]) (simp_all add: progress_bar_def Let_def)
qed

lemma progress_bar_full:
  assumes "0 < bar_width bar" "bar_width bar \<le> 100"
  shows "progress_bar bar 100 = concat (replicate (nat (bar_width bar)) (bar_filled bar))"
proof -
  let ?w = "nat (bar_width bar)"
  let ?x = "f64_of_nat ?w" and ?y = "f64_of_nat 100"
  define m where "m = f64_mult ?x ?y"
  define d where "d = f64_div m (f64_whole 100)"
  have w: "?w \<le> 100" using assms by simp
  have x: "fst ?x = ?w * snd ?x" and y: "fst ?y = 100 * snd ?y"
    using w by (auto intro!: f64_of_nat_exact)
  have "fst m = (?w * 100) * snd m"
    unfolding m_def f64_mult_def x y
    using f64_round_exact [of "snd ?x * snd ?y" "?w * 100"] w by (simp add: ac_simps)
  moreover have "0 < snd m" by (simp add: m_def f64_mult_def f64_round_den)
  ultimately have "fst d = ?w * snd d"
    unfolding d_def f64_div_def
    using f64_round_exact [of "snd m * 100" ?w] w by (simp add: ac_simps)
  moreover have "0 < snd d" by (simp add: d_def f64_div_def f64_round_den)
  ultimately have "f64_nearest d = ?w"
    using f64_nearest_bounds [of d ?w ?w] by simp
  with assms w show ?thesis
    by (simp add: progress_bar_def Let_def to_go_int_small flip: m_def d_def)
qed

section \<open>Days\<close>

lemma hours_of_bounds:
  assumes "0 \<le> d" "r < 2 ^ 53"
  shows "int q * hour \<le> d \<Longrightarrow> q \<le> r \<Longrightarrow> q * snd (hours_of d) \<le> fst (hours_of d)"
    and "d \<le> int r * hour \<Longrightarrow> fst (hours_of d) \<le> r * snd (hours_of d)"
proof -
  let ?h = "nat (d div hour)" and ?n = "nat (d mod hour)"
  define x where "x = f64_of_nat ?h"
  define y where "y = f64_div (f64_of_nat ?n) (f64_whole (nat hour))"
  have pos: "0 < hour" "nat hour < 2 ^ 53" by (simp_all add: hour_def second_def)
  have den: "0 < snd x" "0 < snd y" by (simp_all add: x_def y_def f64_div_def f64_round_den)
  have hrs: "hours_of d = f64_round (fst x * snd y + fst y * snd x) (snd x * snd y)"
    by (simp add: hours_of_def f64_add_def flip: x_def y_def)
  have split: "d = hour * int ?h + int ?n" "int ?n < hour"
    using assms(1) pos by (simp_all add: pos_imp_zdiv_nonneg_iff)
  {
    assume *: "int q * hour \<le> d" "q \<le> r"
    have "int q \<le> d div hour"
      using * pos by (simp add: zdiv_mono1 [of "int q * hour" d hour, simplified]
          pos_imp_zdiv_nonneg_iff zdiv_mono1)
    then have "q \<le> ?h" by linarith
    then have "q * snd x \<le> fst x"
      using f64_round_ge [of 1 q ?h] * assms(2) by (simp add: x_def f64_of_nat_def)
    then have "q * (snd x * snd y) \<le> fst x * snd y + fst y * snd x"
      using mult_right_mono [of "q * snd x" "fst x" "snd y"] by (simp add: ac_simps trans_le_add1)
    then show "q * snd (hours_of d) \<le> fst (hours_of d)"
      unfolding hrs using den * assms(2) by (intro f64_round_ge) simp_all
  next
    assume *: "d \<le> int r * hour"
    show "fst (hours_of d) \<le> r * snd (hours_of d)"
    proof (cases "?n = 0")
      case True
      with * split pos have "hour * int ?h \<le> hour * int r" by (simp add: ac_simps)
      then have "?h \<le> r" using pos(1) by (simp only: mult_le_cancel_left_pos of_nat_le_iff)
      then have "fst x \<le> r * snd x"
        using f64_round_le [of 1 r ?h] assms(2) by (simp add: x_def f64_of_nat_def)
      moreover from True have "fst y = 0" by (simp add: y_def f64_div_def f64_of_nat_def)
      ultimately have "fst x * snd y + fst y * snd x \<le> r * (snd x * snd y)" by simp
      then show ?thesis unfolding hrs using den assms(2) by (intro f64_round_le) simp_all
    next
      case False
      then have "hour * int ?h < d" using split(1) by linarith
      also have "d \<le> hour * int r" using * by (simp only: mult.commute)
      finally have "?h < r" using pos(1) by (simp only: mult_less_cancel_left_pos of_nat_less_iff)
      then have h: "?h + 1 \<le> r" by simp
      then have "fst x \<le> (r - 1) * snd x"
        using f64_round_le [of 1 "r - 1" ?h] assms(2) by (simp add: x_def f64_of_nat_def)
      moreover have "fst y \<le> 1 * snd y"
      proof -
        let ?z = "f64_of_nat ?n"
        have "?n \<le> nat hour" using split(2) by linarith
        then have "fst ?z \<le> nat hour * snd ?z"
          using f64_round_le [of 1 "nat hour" ?n] pos by (simp add: f64_of_nat_def)
        then show ?thesis unfolding y_def f64_div_def
          using pos by (intro f64_round_le) (simp_all add: ac_simps)
      qed
      ultimately have "fst x * snd y + fst y * snd x
          \<le> (r - 1) * snd x * snd y + 1 * snd y * snd x"
        by (intro add_mono mult_right_mono) simp_all
      also have "\<dots> = (r - 1 + 1) * (snd x * snd y)" by (simp only: algebra_simps)
      finally have "fst x * snd y + fst y * snd x \<le> r * (snd x * snd y)" using h by simp
      then show ?thesis unfolding hrs using den assms(2) by (intro f64_round_le) simp_all
    qed
  }
qed

lemma f64_ceil_bounds:
  assumes "0 < snd x"
  shows "q * snd x \<le> fst x \<Longrightarrow> q \<le> f64_ceil x"
    and "fst x \<le> r * snd x \<Longrightarrow> f64_ceil x \<le> r"
    and "0 < fst x \<Longrightarrow> 1 \<le> f64_ceil x"
proof -
  show "q * snd x \<le> fst x \<Longrightarrow> q \<le> f64_ceil x"
    using assms by (simp add: f64_ceil_def less_eq_div_iff_mult_less_eq)
  show "f64_ceil x \<le> r" if "fst x \<le> r * snd x"
  proof -
    have "fst x + snd x - 1 < (r + 1) * snd x" using that assms by simp
    then have "f64_ceil x < r + 1"
      using assms unfolding f64_ceil_def by (subst div_less_iff_less_mult) simp_all
    then show ?thesis by simp
  qed
  show "0 < fst x \<Longrightarrow> 1 \<le> f64_ceil x"
    using assms by (simp add: f64_ceil_def less_eq_div_iff_mult_less_eq)
qed

lemma hours_of_pos:
  assumes "0 < d" shows "0 < fst (hours_of d)"
proof -
  let ?x = "f64_of_nat (nat (d div hour))"
  let ?y = "f64_div (f64_of_nat (nat (d mod hour))) (f64_whole (nat hour))"
  have pos: "0 < hour" by (simp add: hour_def second_def)
  have den: "0 < snd ?x" "0 < snd ?y" by (simp_all add: f64_div_def f64_round_den)
  have "0 < fst ?x \<or> 0 < fst ?y"
  proof (cases "0 < d div hour")
    case True
    then show ?thesis by (simp add: f64_of_nat_def f64_round_pos)
  next
    case False
    then have "d div hour = 0" using assms pos by (simp add: pos_imp_zdiv_nonneg_iff order_antisym)
    then have "d mod hour = d" by (metis mod_div_mult_eq add.right_neutral mult_zero_left)
    with assms have "0 < fst (f64_of_nat (nat (d mod hour)))"
      by (simp add: f64_of_nat_def f64_round_pos)
    then have "0 < fst ?y" using pos by (simp add: f64_div_def f64_round_pos)
    then show ?thesis ..
  qed
  then have "0 < fst ?x * snd ?y + fst ?y * snd ?x" using den by auto
  then show ?thesis
    using den by (simp add: hours_of_def f64_add_def f64_round_pos)
qed

lemma days_until_bounds:
  assumes "k \<le> 106751"
  shows "days_until t e = 0 \<longleftrightarrow> e \<le> t"
    and "e \<le> t + int k * (24 * hour) \<Longrightarrow> days_until t e \<le> int k"
    and "t + int k * (24 * hour) \<le> e \<Longrightarrow> int k \<le> days_until t e"
proof -
  define d where "d = saturate (e - t)"
  define x where "x = f64_div (hours_of d) (f64_whole 24)"
  have dx: "days_until t e = (if t < e then int (f64_ceil x) else 0)"
    by (simp add: days_until_def x_def d_def)
  have hx: "0 < snd (hours_of d)" "0 < snd x"
    by (simp_all add: hours_of_def f64_add_def f64_div_def x_def f64_round_den)
  have d_pos: "t < e \<Longrightarrow> 0 < d"
    by (auto simp: d_def saturate_def int64_max_def int64_min_def)
  have "0 < fst x" if "t < e"
    using hours_of_pos [OF d_pos [OF that]] hx by (simp add: x_def f64_div_def f64_round_pos)
  then show "days_until t e = 0 \<longleftrightarrow> e \<le> t"
    using f64_ceil_bounds(3) [OF hx(2)] by (auto simp: dx not_less)
  show "days_until t e \<le> int k" if *: "e \<le> t + int k * (24 * hour)"
  proof (cases "t < e")
    case True
    have "d \<le> int (k * 24) * hour"
      using * by (simp add: d_def saturate_def hour_def second_def int64_min_def)
    then have "fst (hours_of d) \<le> (k * 24) * snd (hours_of d)"
      using d_pos [OF True] assms by (intro hours_of_bounds(2)) simp_all
    then have "fst x \<le> k * snd x"
      unfolding x_def f64_div_def using hx assms
      by (intro f64_round_le) (simp_all add: ac_simps)
    with f64_ceil_bounds(2) [OF hx(2)] show ?thesis by (simp add: dx)
  qed (simp add: dx)
  show "int k \<le> days_until t e" if *: "t + int k * (24 * hour) \<le> e"
  proof (cases "k = 0")
    case False
    with * have te: "t < e" by (simp add: hour_def second_def)
    have "int (k * 24) * hour \<le> d"
      using * assms by (simp add: d_def saturate_def hour_def second_def int64_max_def)
    then have "(k * 24) * snd (hours_of d) \<le> fst (hours_of d)"
      using d_pos [OF te] assms by (intro hours_of_bounds(1) [of d "k * 24"]) simp_all
    then have "k * snd x \<le> fst x"
      unfolding x_def f64_div_def using hx assms
      by (intro f64_round_ge) (simp_all add: ac_simps)
    with f64_ceil_bounds(1) [OF hx(2)] te show ?thesis by (simp add: dx)
  qed (simp add: dx)
qed

text \<open>C33: The days left are 0 exactly when the subscription has expired, and the count is right up
  to the float rounding: no more than \<open>k\<close> within \<open>k\<close> days, no less than \<open>k\<close> from then on.\<close>

theorem days_until_correct:
  "(days_until t e = 0 \<longleftrightarrow> e \<le> t)
   \<and> (k \<le> 106751 \<longrightarrow>
        (e \<le> t + int k * (24 * hour) \<longrightarrow> days_until t e \<le> int k)
        \<and> (t + int k * (24 * hour) \<le> e \<longrightarrow> int k \<le> days_until t e))"
  using days_until_bounds(1) [of 0 t e] days_until_bounds(2,3) [of k] by simp

theorem days_until_correct_witness:
  "days_until 7 (7 + 30 * (24 * hour)) = 30 \<and> days_until 7 7 = 0"
  using days_until_correct [of 7 "7 + 30 * (24 * hour)" 30] days_until_correct [of 7 7 0] by simp

section \<open>Units\<close>

lemma unit_steps_le: "unit_steps v b n \<le> n"
  by (induction n arbitrary: v) auto

lemma f64_of_nat_ge:
  assumes "b < 2 ^ 53" shows "f64_ge_nat (f64_of_nat n) b \<longleftrightarrow> b \<le> n"
proof (cases "b \<le> n")
  case True
  then show ?thesis using f64_round_ge [of 1 b n] assms by (simp add: f64_ge_nat_def f64_of_nat_def)
next
  case False
  then have "fst (f64_of_nat n) = n * snd (f64_of_nat n)"
    using assms by (intro f64_of_nat_exact) simp
  with False show ?thesis by (simp add: f64_ge_nat_def)
qed

lemma unit_index_zero:
  "b < 2 ^ 53 \<Longrightarrow> unit_index n b m = 0 \<longleftrightarrow> n < b \<or> m = 0"
  by (cases m) (simp_all add: unit_index_def f64_of_nat_ge not_le)

lemma units_nonempty [simp]: "fst (units_of f) \<noteq> []"
  by (simp add: units_of_def binary_unit_names_def decimal_units_def)

lemma units_base: "snd (units_of f) \<in> {1000, 1024}"
  by (simp add: units_of_def)

text \<open>A byte count is shown with a unit of the list in use, never past its end, and in whole
  bytes exactly below one kilobyte (or with a single unit).\<close>

theorem format_bytes_unit:
  "\<exists>i < length (fst (units_of f)).
     format_bytes n f
       = format_scaled n i (snd (units_of f)) (decimals f) @ '' '' @ fst (units_of f) ! i
     \<and> (i = 0 \<longleftrightarrow> n < snd (units_of f) \<or> length (fst (units_of f)) = 1)"
proof -
  let ?us = "fst (units_of f)" and ?b = "snd (units_of f)"
  let ?i = "unit_index n ?b (length ?us - 1)"
  have len: "0 < length ?us" by simp
  have "?i \<le> length ?us - 1" by (simp add: unit_index_def unit_steps_le)
  with len have "?i < length ?us" by linarith
  moreover have "?b < 2 ^ 53" using units_base [of f] by auto
  then have "?i = 0 \<longleftrightarrow> n < ?b \<or> length ?us = 1"
    using len by (auto simp: unit_index_zero le_Suc_eq)
  ultimately show ?thesis
    by (intro exI [of _ ?i]) (simp add: format_bytes_def Let_def split_beta)
qed

text \<open>The used percentage lies between 0 and 100 and is missing exactly when a counter is; the
  bar drawn for it is made of exactly as many cells as configured, filled ones first, and at or
  over the quota it reads 100 with every cell filled (counters below \<open>2 ^ 53\<close>, the quota not
  exceeded \<open>2 ^ 46\<close> times).\<close>

theorem percent_and_bar:
  "(percent_used used limit = None \<longleftrightarrow> used < 0 \<or> limit < 0)
   \<and> (\<forall>p. percent_used used limit = Some p \<longrightarrow>
        0 \<le> p \<and> p \<le> 100
        \<and> (\<exists>k \<le> nat (bar_width bar).
             progress_bar bar p = concat (replicate k (bar_filled bar))
               @ concat (replicate (nat (bar_width bar) - k) (bar_empty bar))))
   \<and> (0 < limit \<and> limit \<le> used \<and> used < 2 ^ 53 \<and> used \<le> limit * 2 ^ 46 \<longrightarrow>
        percent_used used limit = Some 100)
   \<and> (0 < bar_width bar \<and> bar_width bar \<le> 100 \<longrightarrow>
        progress_bar bar 100 = concat (replicate (nat (bar_width bar)) (bar_filled bar)))"
proof (intro conjI allI impI)
  fix p assume "percent_used used limit = Some p"
  then have p: "0 \<le> p" "p \<le> 100" using percent_range by blast+
  then show "0 \<le> p" "p \<le> 100" .
  from p obtain k where "k \<le> nat (bar_width bar)"
    "progress_bar bar p = concat (replicate k (bar_filled bar))
       @ concat (replicate (nat (bar_width bar) - k) (bar_empty bar))"
    by (rule progress_bar_cells)
  then show "\<exists>k \<le> nat (bar_width bar).
       progress_bar bar p = concat (replicate k (bar_filled bar))
         @ concat (replicate (nat (bar_width bar) - k) (bar_empty bar))" by blast
qed (auto simp: percent_none percent_used_up progress_bar_full)

theorem percent_and_bar_witness:
  "percent_used 7000000000 5000000000 = Some 100
   \<and> progress_bar (bar_opt default_file) 100 = concat (replicate 10 bar_full_sign)"
  using percent_and_bar [of 7000000000 5000000000 "bar_opt default_file"]
  by (simp add: default_file_def)

section \<open>When the panel is needed\<close>

text \<open>A header that leaves out none of the values a placeholder can ask for.\<close>

definition complete_user_info :: "user_info \<Rightarrow> bool" where
  "complete_user_info u \<longleftrightarrow> 0 \<le> used_of u \<and> 0 \<le> total u \<and> 0 < expire u"

lemma traffic_counters_complete:
  "src_user_info src = Some u \<Longrightarrow> complete_user_info u \<Longrightarrow>
    traffic_counters src = (used_of u, total u, True)"
  by (simp add: traffic_counters_def complete_user_info_def split: option.split)

lemma expiry_complete:
  "src_user_info src = Some u \<Longrightarrow> complete_user_info u \<Longrightarrow>
    expiry r src = Some (unix_time (expire u))"
  by (simp add: expiry_def complete_user_info_def)

lemma resolve_traffic_complete:
  assumes "src_user_info src = Some u" "complete_user_info u" "name \<noteq> ''DAYS_LEFT''"
  shows "resolve_traffic r name (src\<lparr>src_panel := None\<rparr>) = resolve_traffic r name src"
  using assms
  by (simp add: resolve_traffic_def traffic_counters_complete resolve_expiry_def expiry_complete
      Let_def)

lemma lookup_without_panel:
  assumes "\<not> needs_panel r names (src_user_info src \<noteq> None)"
    and "\<forall>u. src_user_info src = Some u \<longrightarrow> complete_user_info u"
    and "name \<in> set names" and "name \<noteq> ''DAYS_LEFT''"
  shows "lookup r (src\<lparr>src_panel := None\<rparr>) name = lookup r src name"
proof (cases "map_of (res_custom r) name")
  case None
  with assms(1,3) have "origin_of name = Origin_Local
      \<or> origin_of name = Origin_Traffic \<and> src_user_info src \<noteq> None"
    by (cases "origin_of name") (auto simp: needs_panel_def list_ex_iff)
  then show ?thesis
  proof
    assume "origin_of name = Origin_Local"
    with None show ?thesis
      by (auto simp: lookup_def resolve_def origin_of_def resolve_local_def
          split: option.splits origin.splits)
  next
    assume *: "origin_of name = Origin_Traffic \<and> src_user_info src \<noteq> None"
    then obtain u where "src_user_info src = Some u" by blast
    moreover from this assms(2) have "complete_user_info u" by blast
    moreover from * have "map_of catalog name = Some Origin_Traffic"
      by (auto simp: origin_of_def split: option.splits)
    ultimately show ?thesis
      using None assms(4) by (simp add: lookup_def resolve_def resolve_traffic_complete)
  qed
qed (simp add: lookup_def)

text \<open>When the engine decides that a set of names does not need the panel, leaving the panel out
  changes no answer, provided the header carries usage, quota and expiry; only \<open>DAYS_LEFT\<close>, which
  the panel counts by itself, may differ.\<close>

theorem needs_panel_sound:
  assumes "\<not> needs_panel r names (src_user_info src \<noteq> None)"
    and "\<forall>u. src_user_info src = Some u \<longrightarrow> complete_user_info u"
    and "name \<in> set names" and "name \<noteq> ''DAYS_LEFT''"
  shows "lookup r (src\<lparr>src_panel := None\<rparr>) name = lookup r src name"
  using assms by (rule lookup_without_panel)

definition sample_time_lib :: time_lib where
  "sample_time_lib = \<lparr>parse_rfc3339 = (\<lambda>_. Some (5 * second)), format_in = (\<lambda>t l f. f), now = 0\<rparr>"

definition sample_source :: "user_info \<Rightarrow> source" where
  "sample_source u =
    \<lparr>src_short_uuid = ''abc'', src_client_type = '''', src_user_agent = ''Happ'',
     src_client_ip = '''', src_subscription_url = '''', src_user_info = Some u,
     src_panel = Some \<lparr>is_found = True, info_user = sample_user, info_subscription_url = ''''\<rparr>\<rparr>"

theorem needs_panel_sound_witness:
  "lookup (new_resolver default_file sample_time_lib)
     ((sample_source \<lparr>upload = 1, download = 2, total = 4, expire = 9\<rparr>)\<lparr>src_panel := None\<rparr>)
     ''EXPIRES_AT_UNIX'' =
   lookup (new_resolver default_file sample_time_lib)
     (sample_source \<lparr>upload = 1, download = 2, total = 4, expire = 9\<rparr>) ''EXPIRES_AT_UNIX''"
proof (rule needs_panel_sound)
  show "\<not> needs_panel (new_resolver default_file sample_time_lib) [''EXPIRES_AT_UNIX'']
      (src_user_info (sample_source \<lparr>upload = 1, download = 2, total = 4, expire = 9\<rparr>) \<noteq> None)"
    by (simp add: needs_panel_def origin_of_def catalog_def sample_source_def)
qed (simp_all add: sample_source_def complete_user_info_def used_of_def wrap64_def)

text \<open>
  Without that proviso the answer can change: a header that names the quota only is enough for
  \<open>needs_panel\<close> to skip the panel, and the expiry date the panel knows is then shown as the text
  for a subscription that never ends.
\<close>

lemma expiry_hidden_by_partial_header:
  "\<not> needs_panel (new_resolver default_file sample_time_lib) [''EXPIRES_AT_DATE''] True"
  "lookup (new_resolver default_file sample_time_lib)
     ((sample_source (no_user_info\<lparr>total := 4\<rparr>))\<lparr>src_panel := None\<rparr>) ''EXPIRES_AT_DATE''
     = Some infinity_sign"
  "lookup (new_resolver default_file sample_time_lib)
     (sample_source (no_user_info\<lparr>total := 4\<rparr>)) ''EXPIRES_AT_DATE'' = Some ''02.01.2006''"
  by (simp_all add: needs_panel_def origin_of_def catalog_def lookup_def resolve_def
      resolve_traffic_def resolve_expiry_def traffic_counters_def expiry_def expiry_of_def
      new_resolver_def default_file_def sample_source_def sample_time_lib_def no_user_info_def
      sample_user_def format_time_def Let_def used_of_def)

end
