(* ===== verification/Engine.thy ===== *)
theory Engine
  imports Codec Tmpl Vars
begin

text \<open>
  File \<open>internal/rewrite/engine.go\<close>: the header rewriting engine.  \<open>collect\<close> gathers the headers to
  rewrite, rules first and then scanned headers; \<open>apply\<close> asks the panel when one of them needs it
  and writes, for each header, what the first rule whose conditions hold says.  Header maps are
  updated by passing them along, the lookup of the panel is a function argument and the call made,
  if any, is part of the result.  \<open>Request_Log\<close> has what it logs.
\<close>

record request =
  rq_short_uuid :: string
  rq_client_type :: string
  rq_user_agent :: string
  rq_client_ip :: string
  rq_subscription_url :: string

type_synonym fetcher = "string \<Rightarrow> string \<Rightarrow> panel_error + info"

record engine =
  eng_rules :: "header_rule list"
  eng_opts :: template_opts
  eng_resolver :: resolver
  eng_force_unlimited :: bool
  eng_fetcher :: "fetcher option"
  eng_always_fetch :: bool
  eng_forward_real_ip :: bool
  eng_unknown :: unknown

record engine_options =
  eo_file :: config_file
  eo_fetcher :: "fetcher option"
  eo_always_fetch :: bool
  eo_forward_real_ip :: bool

definition new_engine :: "engine_options \<Rightarrow> time_lib \<Rightarrow> engine" where
  "new_engine opts t =
    (let f = eo_file opts
     in \<lparr>eng_rules = headers_opt f, eng_opts = template_opt f, eng_resolver = new_resolver f t,
         eng_force_unlimited = force_unlimited (traffic_opt f), eng_fetcher = eo_fetcher opts,
         eng_always_fetch = eo_always_fetch opts, eng_forward_real_ip = eo_forward_real_ip opts,
         eng_unknown = (if unknown_opt (template_opt f) = Unknown_Blank then Blank else Keep)\<rparr>)"

definition engine_enabled :: "engine \<Rightarrow> bool" where
  "engine_enabled e \<longleftrightarrow>
    eng_rules e \<noteq> [] \<or> scan_all_headers (eng_opts e) \<or> eng_force_unlimited e"

record candidate =
  cand_name :: string
  cand_source :: string
  cand_form :: form
  cand_remove :: bool
  cand_rule :: "header_rule option"
  cand_present :: bool
  cand_original :: "string option"

definition original_value_name :: string where
  "original_value_name = ''ORIGINAL_VALUE''"

definition user_info_from :: "header \<Rightarrow> user_info option" where
  "user_info_from h =
    (case parse_user_info (header_get h user_info_header) of (u, ok) \<Rightarrow> if ok then Some u else None)"

definition source_for :: "request \<Rightarrow> user_info option \<Rightarrow> info option \<Rightarrow> source" where
  "source_for rq ui i =
    \<lparr>src_short_uuid = rq_short_uuid rq, src_client_type = rq_client_type rq,
     src_user_agent = rq_user_agent rq, src_client_ip = rq_client_ip rq,
     src_subscription_url = rq_subscription_url rq, src_user_info = ui, src_panel = i\<rparr>"

text \<open>\<open>fetchInfo\<close>: the call to the panel, if one is made, and what came of it.\<close>

definition fetch_info :: "engine \<Rightarrow> request \<Rightarrow> bool \<Rightarrow> (string \<times> string) option \<times> info option" where
  "fetch_info e rq needed =
    (case eng_fetcher e of
       None \<Rightarrow> (None, None)
     | Some fetch \<Rightarrow>
         if rq_short_uuid rq = [] \<or> \<not> (needed \<or> eng_always_fetch e) then (None, None)
         else
           (let ip = (if eng_forward_real_ip e then rq_client_ip rq else [])
            in (Some (rq_short_uuid rq, ip),
                case fetch (rq_short_uuid rq) ip of Inr i \<Rightarrow> Some i | Inl _ \<Rightarrow> None)))"

section \<open>Conditions\<close>

definition matches_request :: "condition \<Rightarrow> request \<Rightarrow> bool \<Rightarrow> bool" where
  "matches_request cond rq present =
    (if (case exists_opt cond of Some b \<Rightarrow> b \<noteq> present | None \<Rightarrow> False) then False
     else if client_types cond \<noteq> [] \<and> to_lower (rq_client_type rq) \<notin> set (client_types cond)
       then False
     else if (case user_agent_re cond of Some re \<Rightarrow> \<not> re (rq_user_agent rq) | None \<Rightarrow> False)
       then False
     else True)"

definition matches_status :: "header_rule option \<Rightarrow> info option \<Rightarrow> bool" where
  "matches_status rule i =
    (case rule of
       None \<Rightarrow> True
     | Some r \<Rightarrow>
         if user_statuses (rule_when r) = [] then True
         else
           (case i of
              None \<Rightarrow> False
            | Some i \<Rightarrow> to_upper (user_status (info_user i)) \<in> set (user_statuses (rule_when r))))"

definition matches_traffic_limit :: "header_rule option \<Rightarrow> int \<Rightarrow> bool \<Rightarrow> bool" where
  "matches_traffic_limit rule limit known =
    (case rule of
       None \<Rightarrow> True
     | Some r \<Rightarrow>
         (case has_traffic_limit (rule_when r) of
            None \<Rightarrow> True
          | Some b \<Rightarrow> if \<not> known then False else (limit > 0) = b))"

definition first_value :: "header \<Rightarrow> string \<Rightarrow> string option" where
  "first_value h name =
    (case map_of h (canonical_header_key name) of Some (v # _) \<Rightarrow> Some v | _ \<Rightarrow> None)"

section \<open>Candidates\<close>

definition override_form :: "form \<Rightarrow> encoding_mode \<Rightarrow> form" where
  "override_form detected enc =
    (case enc of
       Encode_None \<Rightarrow> FormPlain
     | Encode_Base64 \<Rightarrow> FormBase64
     | Encode_Base64_Prefixed \<Rightarrow> FormBase64Prefixed
     | Encode_Auto \<Rightarrow> detected)"

text \<open>The value as placeholders see it, the form it came in, and whether it was unwrapped.\<close>

definition read_value :: "engine \<Rightarrow> string option \<Rightarrow> string \<times> form \<times> bool" where
  "read_value e current =
    (case current of
       None \<Rightarrow> ([], FormPlain, False)
     | Some v \<Rightarrow>
         (case decode_base64 v of
            None \<Rightarrow> (v, FormPlain, False)
          | Some (decoded, detected) \<Rightarrow>
              if decode_base64_opt (eng_opts e) then (decoded, detected, True)
              else (v, detected, False)))"

definition candidate_for ::
    "engine \<Rightarrow> string \<Rightarrow> string option \<Rightarrow> header_rule option \<Rightarrow> candidate option" where
  "candidate_for e name current rule =
    (let enc = (case rule of Some r \<Rightarrow> rule_encode r | None \<Rightarrow> Encode_Auto);
         (text, form, unwrapped) = read_value e current;
         c = (\<lambda>src f. \<lparr>cand_name = name, cand_source = src, cand_form = override_form f enc,
               cand_remove = False, cand_rule = rule, cand_present = (current \<noteq> None),
               cand_original = map_option (\<lambda>_. text) current\<rparr>)
     in case rule of
          Some r \<Rightarrow>
            (case rule_template r of
               Some t \<Rightarrow> Some (c t form)
             | None \<Rightarrow>
                 if current \<noteq> None \<and> contains_placeholder text
                 then Some (c text (if unwrapped then form else FormPlain)) else None)
        | None \<Rightarrow>
            if current \<noteq> None \<and> contains_placeholder text
            then Some (c text (if unwrapped then form else FormPlain)) else None)"

definition rule_candidate :: "engine \<Rightarrow> header \<Rightarrow> request \<Rightarrow> header_rule \<Rightarrow> candidate option" where
  "rule_candidate e h rq rule =
    (let current = first_value h (rule_name rule) in
     if \<not> matches_request (rule_when rule) rq (current \<noteq> None) then None
     else if rule_remove rule then
       (if current \<noteq> None
        then Some \<lparr>cand_name = rule_name rule, cand_source = [], cand_form = FormPlain,
                   cand_remove = True, cand_rule = Some rule, cand_present = True,
                   cand_original = None\<rparr>
        else None)
     else candidate_for e (rule_name rule) current (Some rule))"

definition scan_candidate :: "engine \<Rightarrow> string \<times> string list \<Rightarrow> candidate option" where
  "scan_candidate e entry =
    (case entry of
       (key, v # _) \<Rightarrow>
         if key \<in> (canonical_header_key \<circ> rule_name) ` set (eng_rules e) then None
         else candidate_for e key (Some v) None
     | (_, []) \<Rightarrow> None)"

definition collect ::
    "(string, string list) iter_order \<Rightarrow> engine \<Rightarrow> header \<Rightarrow> request \<Rightarrow> candidate list" where
  "collect ord e h rq =
    List.map_filter (rule_candidate e h rq) (eng_rules e)
    @ (if scan_all_headers (eng_opts e) then List.map_filter (scan_candidate e) (ord h) else [])"

section \<open>Apply and Render\<close>

text \<open>Placeholders inside the original value are resolved with the base lookup, one level deep.\<close>

definition with_original :: "engine \<Rightarrow> (string \<Rightarrow> string option) \<Rightarrow> candidate \<Rightarrow> string \<Rightarrow> string option" where
  "with_original e look c name =
    (if name \<noteq> original_value_name then look name
     else
       (case cand_original c of
          None \<Rightarrow> None
        | Some original \<Rightarrow> Some (render original look (eng_unknown e))))"

definition candidate_names :: "candidate \<Rightarrow> string list" where
  "candidate_names c =
    (if cand_remove c then []
     else
       (let used = names (cand_source c)
        in used @ (case cand_original c of
             Some original \<Rightarrow> if original_value_name \<in> set used then names original else []
           | None \<Rightarrow> [])))"

definition needs_status :: "candidate list \<Rightarrow> bool" where
  "needs_status cs \<longleftrightarrow>
    list_ex (\<lambda>c. case cand_rule c of Some r \<Rightarrow> user_statuses (rule_when r) \<noteq> [] | None \<Rightarrow> False) cs"

definition needs_limit :: "candidate list \<Rightarrow> bool" where
  "needs_limit cs \<longleftrightarrow>
    list_ex (\<lambda>c. case cand_rule c of
      Some r \<Rightarrow> has_traffic_limit (rule_when r) \<noteq> None | None \<Rightarrow> False) cs"

definition apply_needs_panel :: "engine \<Rightarrow> user_info option \<Rightarrow> candidate list \<Rightarrow> bool" where
  "apply_needs_panel e ui cs \<longleftrightarrow>
    needs_status cs
    \<or> (needs_limit cs \<and> \<not> (case ui of Some u \<Rightarrow> total u \<ge> 0 | None \<Rightarrow> False))
    \<or> needs_panel (eng_resolver e) (concat (map candidate_names cs)) (ui \<noteq> None)"

definition candidate_matches :: "source \<Rightarrow> candidate \<Rightarrow> bool" where
  "candidate_matches src c \<longleftrightarrow>
    matches_status (cand_rule c) (src_panel src)
    \<and> (case limit_of src of (limit, known) \<Rightarrow> matches_traffic_limit (cand_rule c) limit known)"

definition rendered :: "engine \<Rightarrow> source \<Rightarrow> candidate \<Rightarrow> string" where
  "rendered e src c =
    (let s = render (cand_source c) (with_original e (lookup (eng_resolver e) src) c) (eng_unknown e)
     in case cand_rule c of
          Some r \<Rightarrow> if rule_max_length r > 0 then Tmpl.truncate s (rule_max_length r) else s
        | None \<Rightarrow> s)"

text \<open>One round of the final loop; the state is the set of keys written so far and the header.\<close>

definition write_candidate ::
    "engine \<Rightarrow> source \<Rightarrow> candidate \<Rightarrow> string set \<times> header \<Rightarrow> string set \<times> header" where
  "write_candidate e src c st =
    (let key = canonical_header_key (cand_name c); (written, h) = st in
     if key \<in> written then st
     else if \<not> candidate_matches src c then st
     else if cand_remove c then (insert key written, header_del h (cand_name c))
     else (insert key written, header_set h (cand_name c) (encode_form (rendered e src c) (cand_form c))))"

definition apply_candidates :: "engine \<Rightarrow> source \<Rightarrow> candidate list \<Rightarrow> header \<Rightarrow> header" where
  "apply_candidates e src cs h = snd (fold (write_candidate e src) cs ({}, h))"

definition hide_quota :: "engine \<Rightarrow> header \<Rightarrow> header" where
  "hide_quota e h =
    (if eng_force_unlimited e \<and> user_info_from h \<noteq> None
     then header_set h user_info_header (force_unlimited_total (header_get h user_info_header))
     else h)"

definition apply_engine ::
    "(string, string list) iter_order \<Rightarrow> engine \<Rightarrow> header \<Rightarrow> request
      \<Rightarrow> (string \<times> string) option \<times> header" where
  "apply_engine ord e h rq =
    (let ui = user_info_from h in
     if rq_short_uuid rq = [] \<and> ui = None then (None, h)
     else
       (let h' = hide_quota e h; cs = collect ord e h' rq in
        if cs = [] then (None, h')
        else
          (let (call, i) = fetch_info e rq (apply_needs_panel e ui cs)
           in (call, apply_candidates e (source_for rq ui i) cs h'))))"

definition render_engine :: "engine \<Rightarrow> header \<Rightarrow> request \<Rightarrow> string \<Rightarrow> (string \<times> string) option \<times> string" where
  "render_engine e h rq template =
    (let ui = user_info_from h;
         (call, i) = fetch_info e rq (needs_panel (eng_resolver e) (names template) (ui \<noteq> None))
     in (call, render template (lookup (eng_resolver e) (source_for rq ui i)) (eng_unknown e)))"

section \<open>The final loop\<close>

lemma header_set_edit: "header_set h k v = headers.edit (canonical_header_key k, Some [v]) h"
  by (simp add: headers.edit_def header_set_def header_put_def)

lemma header_del_edit: "header_del h k = headers.edit (canonical_header_key k, None) h"
  by (simp add: headers.edit_def header_del_def header_erase_def)

text \<open>What a candidate leaves in its header.\<close>

definition outcome :: "engine \<Rightarrow> source \<Rightarrow> candidate \<Rightarrow> string list option" where
  "outcome e src c =
    (if cand_remove c then None else Some [encode_form (rendered e src c) (cand_form c)])"

lemma write_candidate_edit:
  "write_candidate e src c (W, h) =
    (if canonical_header_key (cand_name c) \<in> W \<or> \<not> candidate_matches src c then (W, h)
     else (insert (canonical_header_key (cand_name c)) W,
           headers.edit (canonical_header_key (cand_name c), outcome e src c) h))"
  by (simp add: write_candidate_def outcome_def header_set_edit header_del_edit Let_def)

lemma apply_candidates_at:
  "map_of (apply_candidates e src cs h) k =
    (case find (\<lambda>c. canonical_header_key (cand_name c) = k \<and> candidate_matches src c) cs of
       None \<Rightarrow> map_of h k | Some c \<Rightarrow> outcome e src c)"
  using headers.look_first_match [where step = "write_candidate e src" and cs = cs and W = "{}"
      and s = h and j = k, OF write_candidate_edit]
  by (simp add: apply_candidates_def header_lookup_def split: option.split)


section \<open>The iteration order of a header map\<close>

lemma hide_quota_ok [inv_intros]: "header_ok h \<Longrightarrow> header_ok (hide_quota e h)"
  by (simp add: hide_quota_def header_ok_set)

lemma candidate_for_name: "candidate_for e name v rule = Some c \<Longrightarrow> cand_name c = name"
  by (auto simp: candidate_for_def Let_def split_beta split: option.splits if_splits)

lemma scan_candidate_name:
  "scan_candidate e (key, vs) = Some c \<Longrightarrow> cand_name c = key
     \<and> key \<notin> (canonical_header_key \<circ> rule_name) ` set (eng_rules e)"
  by (auto simp: scan_candidate_def dest: candidate_for_name split: list.splits if_splits)

lemma scan_names_distinct:
  "distinct (map_keys m) \<Longrightarrow> distinct (map cand_name (List.map_filter (scan_candidate e) m))"
proof (induction m)
  case (Cons p m)
  have "cand_name ` set (List.map_filter (scan_candidate e) m) \<subseteq> fst ` set m"
    by (force simp: set_map_filter dest: scan_candidate_name)
  with Cons show ?case
    by (cases p) (auto simp: List.map_filter_simps dest: scan_candidate_name split: option.splits)
qed (simp add: List.map_filter_simps)

lemma collect_set: "is_order ord \<Longrightarrow> set (collect ord e h rq) = set (collect id e h rq)"
  by (simp add: collect_def set_map_filter order_set)

lemma apply_needs_panel_set:
  "set cs = set cs' \<Longrightarrow> apply_needs_panel e ui cs = apply_needs_panel e ui cs'"
  by (simp add: apply_needs_panel_def needs_status_def needs_limit_def needs_panel_def list_ex_iff)

lemma collect_find:
  assumes "header_ok h" "is_order ord"
  shows "find (\<lambda>c. canonical_header_key (cand_name c) = k \<and> P c) (collect ord e h rq)
       = find (\<lambda>c. canonical_header_key (cand_name c) = k \<and> P c) (collect id e h rq)"
    (is "find ?P _ = find ?P _")
proof -
  let ?scan = "List.map_filter (scan_candidate e)"
  have ok: "gomap_ok h" "\<forall>k \<in> set (map_keys h). canonical_header_key k = k"
    using assms(1) by (auto simp: header_ok_def)
  have set: "set (?scan (ord h)) = set (?scan h)"
    using assms(2) by (simp add: set_map_filter order_set)
  have names: "canonical_header_key (cand_name c) = cand_name c" if "c \<in> set (?scan h)" for c
    using that ok(2) by (auto simp: set_map_filter dest!: scan_candidate_name)
  have canon: "map (\<lambda>c. canonical_header_key (cand_name c)) xs = map cand_name xs"
    if "set xs = set (?scan h)" for xs
    using names that by (intro map_cong) auto
  have "find ?P (?scan (ord h)) = find ?P (?scan h)"
    by (rule find_keyed_order [where f = "\<lambda>c. canonical_header_key (cand_name c)" and k = k])
      (use ok(1) order_distinct [OF assms(2) ok(1)] set in
        \<open>simp_all add: canon scan_names_distinct gomap_ok_def\<close>)
  then show ?thesis by (simp add: collect_def find_append split: option.split)
qed

lemma collect_Nil: "is_order ord \<Longrightarrow> collect ord e h rq = [] \<longleftrightarrow> collect id e h rq = []"
  by (metis collect_set set_empty)

text \<open>C14: Go visits a header map in an open order, yet the rewriting has one result: the order in
  which scanned headers are visited changes neither any header nor the call to the panel.\<close>

theorem apply_order_irrelevant:
  assumes "header_ok h" and "is_order ord" and "is_order ord'"
  shows "fst (apply_engine ord e h rq) = fst (apply_engine ord' e h rq)
    \<and> map_of (snd (apply_engine ord e h rq)) = map_of (snd (apply_engine ord' e h rq))"
proof -
  have "fst (apply_engine o1 e h rq) = fst (apply_engine id e h rq)
    \<and> map_of (snd (apply_engine o1 e h rq)) = map_of (snd (apply_engine id e h rq))"
    if o1: "is_order o1" for o1
  proof -
    let ?h = "hide_quota e h"
    have ok: "header_ok ?h" by (rule hide_quota_ok [OF assms(1)])
    have np: "apply_needs_panel e ui (collect o1 e ?h rq) = apply_needs_panel e ui (collect id e ?h rq)"
      for ui by (rule apply_needs_panel_set [OF collect_set [OF o1]])
    show ?thesis
      by (auto simp: apply_engine_def Let_def split_beta apply_candidates_at np
          collect_Nil [OF o1] collect_find [OF ok o1] intro!: ext)
  qed
  from this [OF assms(2)] this [OF assms(3)] show ?thesis by simp
qed
section \<open>Headers nobody asked to change\<close>

lemma rule_candidate_name: "rule_candidate e h rq r = Some c \<Longrightarrow> cand_name c = rule_name r"
  by (auto simp: rule_candidate_def Let_def dest: candidate_for_name split: if_splits)

lemma scan_candidate_placeholder:
  "scan_candidate e (key, vs) = Some c \<Longrightarrow>
    \<exists>v ws. vs = v # ws \<and> contains_placeholder (fst (read_value e (Some v)))"
  by (auto simp: scan_candidate_def candidate_for_def Let_def split_beta split: list.splits if_splits)

lemma collect_name:
  assumes "c \<in> set (collect ord e h rq)" and "is_order ord"
  shows "canonical_header_key (cand_name c) \<in> (canonical_header_key \<circ> rule_name) ` set (eng_rules e)
    \<or> (\<exists>v ws. (cand_name c, v # ws) \<in> set h \<and> contains_placeholder (fst (read_value e (Some v))))"
proof -
  consider r where "r \<in> set (eng_rules e)" "rule_candidate e h rq r = Some c"
    | key vs where "(key, vs) \<in> set h" "scan_candidate e (key, vs) = Some c"
    using assms by (auto simp: collect_def set_map_filter order_set split: if_splits)
  then show ?thesis
  proof cases
    case 1
    then show ?thesis by (auto dest!: rule_candidate_name)
  next
    case 2
    from scan_candidate_placeholder [OF 2(2)] obtain v ws where
      "vs = v # ws" "contains_placeholder (fst (read_value e (Some v)))" by blast
    with 2(1) scan_candidate_name [OF 2(2)] show ?thesis by blast
  qed
qed

text \<open>A header that no rule names and whose value holds no placeholder, neither as it is nor
  inside its base64, goes out as it came in, values after the first one included.\<close>

theorem other_headers_untouched:
  assumes "header_ok h" and "is_order ord"
    and "k \<notin> (canonical_header_key \<circ> rule_name) ` set (eng_rules e)"
    and "\<not> eng_force_unlimited e \<or> k \<noteq> canonical_header_key user_info_header"
    and "\<And>v ws. map_of h k = Some (v # ws) \<Longrightarrow> \<not> contains_placeholder (fst (read_value e (Some v)))"
  shows "map_of (snd (apply_engine ord e h rq)) k = map_of h k"
proof -
  let ?h = "hide_quota e h"
  have same: "map_of ?h k = map_of h k" using assms(4) by (auto simp: hide_quota_def)
  have ok: "header_ok ?h" by (rule hide_quota_ok [OF assms(1)])
  have "canonical_header_key (cand_name c) \<noteq> k" if "c \<in> set (collect ord e ?h rq)" for c
  proof
    assume k: "canonical_header_key (cand_name c) = k"
    with collect_name [OF that assms(2)] assms(3) obtain v ws where
      c: "(cand_name c, v # ws) \<in> set ?h" "contains_placeholder (fst (read_value e (Some v)))"
      by auto
    with ok k have "cand_name c = k" by (force simp: header_ok_def)
    with c ok have "map_of ?h k = Some (v # ws)" by (auto simp: header_ok_def gomap_ok_map_of)
    with same have "map_of h k = Some (v # ws)" by simp
    from assms(5) [OF this] c(2) show False by simp
  qed
  then have "find (\<lambda>c. canonical_header_key (cand_name c) = k \<and> P c) (collect ord e ?h rq) = None" for P
    by (auto simp: find_None_iff)
  with same show ?thesis
    by (simp add: apply_engine_def Let_def split_beta apply_candidates_at)
qed

definition sample_engine :: engine where
  "sample_engine = new_engine
    \<lparr>eo_file = default_file, eo_fetcher = None, eo_always_fetch = False, eo_forward_real_ip = True\<rparr> sample_time_lib"

definition sample_request :: request where
  "sample_request =
    \<lparr>rq_short_uuid = ''abc'', rq_client_type = '''', rq_user_agent = ''Happ'', rq_client_ip = '''',
     rq_subscription_url = ''''\<rparr>"

definition sample_header :: header where
  "sample_header = [(''Announce'', [''hi {SHORT_UUID}'']), (''Etag'', [''x'', ''y'']),
     (''Profile-Title'', [''{USER_AGENT}''])]"

lemma sample_header_ok: "header_ok sample_header"
  by code_simp

theorem other_headers_untouched_witness:
  "map_of (snd (apply_engine rev sample_engine sample_header sample_request)) ''Etag''
    = Some [''x'', ''y'']"
proof -
  have "map_of (snd (apply_engine rev sample_engine sample_header sample_request)) ''Etag''
    = map_of sample_header ''Etag''"
  proof (rule other_headers_untouched)
    have "\<not> contains_placeholder (fst (read_value sample_engine (Some ''x'')))" by code_simp
    then show "\<not> contains_placeholder (fst (read_value sample_engine (Some v)))"
      if "map_of sample_header ''Etag'' = Some (v # ws)" for v ws
      using that by (simp add: sample_header_def)
  qed (simp_all add: sample_header_ok sample_engine_def new_engine_def default_file_def)
  then show ?thesis by (simp add: sample_header_def)
qed

theorem apply_order_irrelevant_witness:
  "map_of (snd (apply_engine rev sample_engine sample_header sample_request))
     = map_of (snd (apply_engine (\<lambda>m. m) sample_engine sample_header sample_request))"
  using apply_order_irrelevant [OF sample_header_ok is_order_rev is_order_id, of sample_engine sample_request]
  by blast

section \<open>The call to the panel\<close>

lemma collect_fetcher [simp]: "collect ord (e\<lparr>eng_fetcher := f\<rparr>) h rq = collect ord e h rq"
proof -
  have read: "read_value (e\<lparr>eng_fetcher := f\<rparr>) = read_value e"
    by (simp add: read_value_def fun_eq_iff split: option.split)
  have cand: "candidate_for (e\<lparr>eng_fetcher := f\<rparr>) = candidate_for e"
    by (simp add: candidate_for_def fun_eq_iff read)
  have "rule_candidate (e\<lparr>eng_fetcher := f\<rparr>) h rq = rule_candidate e h rq"
    by (simp add: rule_candidate_def fun_eq_iff cand Let_def)
  moreover have "scan_candidate (e\<lparr>eng_fetcher := f\<rparr>) = scan_candidate e"
    by (simp add: scan_candidate_def fun_eq_iff cand split: prod.split list.split)
  ultimately show ?thesis by (simp add: collect_def)
qed

lemma apply_candidates_fetcher [simp]:
  "apply_candidates (e\<lparr>eng_fetcher := f\<rparr>) src cs h = apply_candidates e src cs h"
proof -
  have orig: "with_original (e\<lparr>eng_fetcher := f\<rparr>) = with_original e"
    by (intro ext) (simp add: with_original_def split: option.split)
  have "rendered (e\<lparr>eng_fetcher := f\<rparr>) src = rendered e src"
    by (intro ext) (simp add: rendered_def orig)
  then have "write_candidate (e\<lparr>eng_fetcher := f\<rparr>) src = write_candidate e src"
    by (intro ext) (simp add: write_candidate_def Let_def split_beta)
  then show ?thesis by (simp add: apply_candidates_def)
qed

lemma needs_panel_fetcher [simp]:
  "hide_quota (e\<lparr>eng_fetcher := f\<rparr>) h = hide_quota e h"
  "apply_needs_panel (e\<lparr>eng_fetcher := f\<rparr>) ui cs = apply_needs_panel e ui cs"
  by (simp_all add: hide_quota_def apply_needs_panel_def)

text \<open>The engine asks the panel at most once, only for the short UUID of the request, and tells it
  the client's address only where the operator allows it; when it does not ask, what the panel
  would have answered makes no difference.\<close>

theorem panel_call:
  "(case fst (apply_engine ord e h rq) of
      Some (u, ip) \<Rightarrow> u = rq_short_uuid rq \<and> u \<noteq> [] \<and> eng_fetcher e \<noteq> None
        \<and> ip = (if eng_forward_real_ip e then rq_client_ip rq else [])
    | None \<Rightarrow> \<forall>f. eng_fetcher e = None
        \<or> apply_engine ord (e\<lparr>eng_fetcher := Some f\<rparr>) h rq = apply_engine ord e h rq)"
proof (cases "fst (apply_engine ord e h rq)")
  case None
  then have "apply_engine ord (e\<lparr>eng_fetcher := Some f\<rparr>) h rq = apply_engine ord e h rq"
    if "eng_fetcher e \<noteq> None" for f
    using that
    by (auto simp: apply_engine_def Let_def split_beta fetch_info_def split: if_splits option.splits)
  with None show ?thesis by auto
next
  case (Some call)
  then show ?thesis
    by (cases call) (auto simp: apply_engine_def Let_def split_beta fetch_info_def
        split: if_splits option.splits)
qed

lemma rendered_without_panel:
  assumes "\<And>n. n \<in> set (candidate_names c) \<Longrightarrow>
      lookup (eng_resolver e) src n = lookup (eng_resolver e) src' n"
    and "\<not> cand_remove c"
  shows "rendered e src c = rendered e src' c"
proof -
  have "render (cand_source c) (with_original e (lookup (eng_resolver e) src) c) (eng_unknown e)
      = render (cand_source c) (with_original e (lookup (eng_resolver e) src') c) (eng_unknown e)"
  proof (rule render_cong)
    fix n assume n: "n \<in> set (names (cand_source c))"
    show "with_original e (lookup (eng_resolver e) src) c n
        = with_original e (lookup (eng_resolver e) src') c n"
    proof (cases "n = original_value_name")
      case True
      with n assms have "render original (lookup (eng_resolver e) src) (eng_unknown e)
          = render original (lookup (eng_resolver e) src') (eng_unknown e)"
        if "cand_original c = Some original" for original
        using that by (intro render_cong) (simp add: candidate_names_def Let_def)
      with True show ?thesis by (simp add: with_original_def split: option.split)
    next
      case False
      with n assms show ?thesis by (simp add: with_original_def candidate_names_def Let_def)
    qed
  qed
  then show ?thesis by (simp add: rendered_def)
qed

text \<open>C15: Leaving the panel out is safe, with two exceptions.  Where the engine finds that the panel is not
  needed, the headers come out as they would with the panel's answer, whatever it is, provided that
  the answer of the upstream has no quota header or a complete one, and that no placeholder in use
  is \<open>DAYS_LEFT\<close>.  (In the excluded cases the panel may know what the header does not say.)\<close>

theorem panel_left_out_safely:
  assumes "\<not> apply_needs_panel e ui cs"
    and "\<forall>u. ui = Some u \<longrightarrow> complete_user_info u"
    and "\<forall>c \<in> set cs. ''DAYS_LEFT'' \<notin> set (candidate_names c)"
  shows "apply_candidates e (source_for rq ui None) cs h = apply_candidates e (source_for rq ui (Some i)) cs h"
proof -
  let ?src = "source_for rq ui (Some i)" and ?bare = "source_for rq ui None"
  have bare: "?bare = ?src\<lparr>src_panel := None\<rparr>" by (simp add: source_for_def)
  have ui: "src_user_info ?src = ui" by (simp add: source_for_def)
  have "write_candidate e ?bare c = write_candidate e ?src c" if c: "c \<in> set cs" for c
  proof -
    have "lookup (eng_resolver e) ?bare n = lookup (eng_resolver e) ?src n"
      if "n \<in> set (candidate_names c)" for n
      unfolding bare using assms c that ui
      by (intro lookup_without_panel [where names = "concat (map candidate_names cs)"])
        (auto simp: apply_needs_panel_def)
    then have "\<not> cand_remove c \<Longrightarrow> rendered e ?bare c = rendered e ?src c"
      by (rule rendered_without_panel)
    moreover have "matches_status (cand_rule c) j = matches_status (cand_rule c) None" for j
      using assms(1) c
      by (auto simp: apply_needs_panel_def needs_status_def list_ex_iff matches_status_def
          split: option.splits)
    moreover have "(case limit_of ?bare of (l, k) \<Rightarrow> matches_traffic_limit (cand_rule c) l k)
        = (case limit_of ?src of (l, k) \<Rightarrow> matches_traffic_limit (cand_rule c) l k)"
    proof (cases ui)
      case None
      with assms(1) c show ?thesis
        by (auto simp: apply_needs_panel_def needs_limit_def list_ex_iff matches_traffic_limit_def
            split_beta split: option.splits)
    next
      case (Some u)
      with assms(2) have "complete_user_info u" by simp
      with Some show ?thesis
        by (simp add: limit_of_def traffic_counters_complete source_for_def)
    qed
    ultimately show ?thesis
      by (auto simp: write_candidate_def candidate_matches_def Let_def source_for_def fun_eq_iff)
  qed
  then have "fold (write_candidate e ?bare) cs ({}, h) = fold (write_candidate e ?src) cs ({}, h)"
    by (intro fold_cong) simp_all
  then show ?thesis by (simp add: apply_candidates_def)
qed
definition sample_candidate :: candidate where
  "sample_candidate =
    \<lparr>cand_name = ''Announce'', cand_source = ''{EXPIRES_AT_UNIX}'', cand_form = FormPlain,
     cand_remove = False, cand_rule = None, cand_present = True, cand_original = None\<rparr>"

theorem panel_left_out_safely_witness:
  "apply_candidates sample_engine
     (source_for sample_request (Some \<lparr>upload = 1, download = 2, total = 4, expire = 9\<rparr>) None)
     [sample_candidate] sample_header
   = apply_candidates sample_engine
     (source_for sample_request (Some \<lparr>upload = 1, download = 2, total = 4, expire = 9\<rparr>)
       (Some \<lparr>is_found = True, info_user = sample_user, info_subscription_url = ''''\<rparr>))
     [sample_candidate] sample_header"
proof (rule panel_left_out_safely)
  have names: "candidate_names sample_candidate = [''EXPIRES_AT_UNIX'']" by code_simp
  then show "\<forall>c \<in> set [sample_candidate]. ''DAYS_LEFT'' \<notin> set (candidate_names c)" by simp
  from names show "\<not> apply_needs_panel sample_engine
      (Some \<lparr>upload = 1, download = 2, total = 4, expire = 9\<rparr>) [sample_candidate]"
    by (simp add: apply_needs_panel_def needs_status_def needs_limit_def needs_panel_def
        sample_candidate_def origin_of_def catalog_def)
qed (simp add: complete_user_info_def used_of_def wrap64_def)

end
