(* ===== verification/Cache_Laws.thy ===== *)
theory Cache_Laws
  imports Config_Types
begin

text \<open>
  What a client may rely on of a cache with expiring entries: nothing is found in an empty one,
  a look-up changes nothing that can be found, and storing adds at most the value stored, for as long
  as it is fresh.  The cache is free to forget, and to refuse a value; the answers it gives are then
  still fresh ones and those of the last value it accepted under the key.
\<close>

lemma set_delete_subset: "set (AList.delete k m) \<subseteq> set m"
  by (auto simp: AList.delete_eq)

text \<open>
  A history of a cache: a look-up is \<open>None\<close>, a store the value stored; each event has the order in
  which it visits the entries, and its time.
\<close>

type_synonym ('o, 'k, 'v) cache_event = "'o \<times> time \<times> 'k \<times> 'v option"

definition run_event ::
    "('s \<Rightarrow> time \<Rightarrow> 'k \<Rightarrow> 's) \<Rightarrow> ('o \<Rightarrow> 's \<Rightarrow> time \<Rightarrow> 'k \<Rightarrow> 'v \<Rightarrow> 's) \<Rightarrow> ('o, 'k, 'v) cache_event
      \<Rightarrow> 's \<Rightarrow> 's" where
  "run_event touch put ev s =
    (case ev of (ord, t, k, None) \<Rightarrow> touch s t k | (ord, t, k, Some v) \<Rightarrow> put ord s t k v)"

lemma run_event_simps [simp]:
  "run_event touch put (ord, t, k, None) s = touch s t k"
  "run_event touch put (ord, t, k, Some v) s = put ord s t k v"
  by (simp_all add: run_event_def)

text \<open>The last value stored under a key that the cache accepts, with the time at which it was.\<close>

definition last_kept ::
    "('v \<Rightarrow> bool) \<Rightarrow> ('o, 'k, 'v) cache_event list \<Rightarrow> 'k \<Rightarrow> (time \<times> 'v) option" where
  "last_kept keeps evs k =
    map_option (\<lambda>(_, t, _, v). (t, the v))
      (find (\<lambda>(_, _, k', v). k' = k \<and> v \<noteq> None \<and> keeps (the v)) (rev evs))"

locale expiring_cache =
  fixes empty :: "'s"
    and look :: "'s \<Rightarrow> time \<Rightarrow> 'k \<Rightarrow> 'v option"
    and touch :: "'s \<Rightarrow> time \<Rightarrow> 'k \<Rightarrow> 's"
    and put :: "'o \<Rightarrow> 's \<Rightarrow> time \<Rightarrow> 'k \<Rightarrow> 'v \<Rightarrow> 's"
    and keeps :: "'v \<Rightarrow> bool"
    and fresh :: "'v \<Rightarrow> time \<Rightarrow> time \<Rightarrow> bool"
    and cfg :: "'s \<Rightarrow> bool"
  assumes look_empty: "look empty t k = None"
    and look_touch: "look (touch s t k) t' k' = Some w \<Longrightarrow> look s t' k' = Some w"
    and look_put: "cfg s \<Longrightarrow> look (put ord s t k v) t' k' = Some w \<Longrightarrow>
        (if k' = k \<and> keeps v then w = v \<and> fresh v t t' else look s t' k' = Some w)"
    and cfg_empty: "cfg empty"
    and cfg_touch: "cfg s \<Longrightarrow> cfg (touch s t k)"
    and cfg_put: "cfg s \<Longrightarrow> cfg (put ord s t k v)"
begin

lemma cfg_history: "cfg (fold (run_event touch put) evs empty)"
  by (induction evs rule: rev_induct)
    (auto simp: run_event_def cfg_empty cfg_touch cfg_put split: prod.split option.split)

lemma look_history:
  "look (fold (run_event touch put) evs empty) t k = Some w \<Longrightarrow>
    \<exists>t0. last_kept keeps evs k = Some (t0, w) \<and> fresh w t0 t"
proof (induction evs rule: rev_induct)
  case Nil
  then show ?case by (simp add: look_empty)
next
  case (snoc ev evs)
  let ?s = "fold (run_event touch put) evs empty"
  obtain ord t' k' v where ev: "ev = (ord, t', k', v)" by (cases ev)
  show ?case
  proof (cases v)
    case None
    with snoc.prems ev have "look ?s t k = Some w"
      by (auto dest: look_touch)
    with snoc.IH None ev show ?thesis by (simp add: last_kept_def)
  next
    case (Some x)
    with snoc.prems ev have "if k = k' \<and> keeps x then w = x \<and> fresh x t' t else look ?s t k = Some w"
      by (auto dest!: look_put [OF cfg_history])
    with snoc.IH Some ev show ?thesis by (auto simp: last_kept_def split: if_splits)
  qed
qed

end

end
