(* ===== verification/Panel_Cache.thy ===== *)
theory Panel_Cache
  imports Panel_Client Cache_Laws
begin

text \<open>
  File \<open>internal/panel/cache.go\<close>: the cache of panel answers that collapses concurrent look-ups.
  The parts that run under the mutex are functions; \<open>SubscriptionInfo\<close> is a step relation over any
  number of callers, whose steps are the stretches of code between the points where another caller
  may run: the critical sections, the fetch, the closing of the channel and the wait on it.  The
  clock, the outcome of a fetch and the orders of iteration are whatever they may be.
\<close>

type_synonym answer = "panel_error + info"

record panel_entry =
  pe_answer :: answer
  pe_expires :: time

record panel_cache =
  pc_ttl :: duration
  pc_negative_ttl :: duration
  pc_max_entries :: int
  pc_entries :: "(string, panel_entry) gomap"
  pc_in_flight :: "(string, nat) gomap"

definition new_panel_cache :: "duration \<Rightarrow> duration \<Rightarrow> int \<Rightarrow> panel_cache" where
  "new_panel_cache ttl neg m =
    \<lparr>pc_ttl = ttl, pc_negative_ttl = neg, pc_max_entries = m, pc_entries = [], pc_in_flight = []\<rparr>"

section \<open>Under the mutex\<close>

definition pc_lookup :: "panel_cache \<Rightarrow> time \<Rightarrow> string \<Rightarrow> answer option" where
  "pc_lookup c t k =
    (case map_of (pc_entries c) k of
       None \<Rightarrow> None
     | Some e \<Rightarrow> if \<not> t < pe_expires e then None else Some (pe_answer e))"

definition drop_expired :: "time \<Rightarrow> (string, panel_entry) gomap \<Rightarrow> (string, panel_entry) gomap" where
  "drop_expired t es = filter (\<lambda>(_, e). t < pe_expires e) es"

fun drop_live :: "int \<Rightarrow> string list \<Rightarrow> (string, panel_entry) gomap \<Rightarrow> (string, panel_entry) gomap" where
  "drop_live m [] es = es"
| "drop_live m (k # ks) es =
    (if int (length es) < m then es else drop_live m ks (AList.delete k es))"

definition pc_evict ::
    "(string, panel_entry) iter_order \<Rightarrow> time \<Rightarrow> panel_cache \<Rightarrow> panel_cache" where
  "pc_evict ord t c =
    (if pc_max_entries c \<le> 0 \<or> int (length (pc_entries c)) < pc_max_entries c then c
     else
       (let es = drop_expired t (pc_entries c)
        in c\<lparr>pc_entries := drop_live (pc_max_entries c) (map_keys (ord es)) es\<rparr>))"

text \<open>How long an answer is kept; \<open>None\<close> for the failures that are not cached.\<close>

definition answer_ttl :: "panel_cache \<Rightarrow> answer \<Rightarrow> duration option" where
  "answer_ttl c r =
    (case r of
       Inr _ \<Rightarrow> Some (pc_ttl c)
     | Inl Not_Found \<Rightarrow> Some (pc_negative_ttl c)
     | Inl _ \<Rightarrow> None)"

definition pc_store ::
    "(string, panel_entry) iter_order \<Rightarrow> panel_cache \<Rightarrow> time \<Rightarrow> string \<Rightarrow> answer \<Rightarrow> panel_cache" where
  "pc_store ord c t k r =
    (case answer_ttl c r of
       None \<Rightarrow> c
     | Some ttl \<Rightarrow>
         if ttl \<le> 0 then c
         else
           (let c = pc_evict ord t c
            in c\<lparr>pc_entries := AList.update k \<lparr>pe_answer = r, pe_expires = t + ttl\<rparr> (pc_entries c)\<rparr>))"

definition pc_len :: "panel_cache \<Rightarrow> nat" where
  "pc_len c = length (pc_entries c)"

section \<open>Callers\<close>

datatype caller_result = Answer answer | Cancelled

text \<open>
  Where a caller is: outside, at the first look-up, past it, waiting for another caller's call,
  fetching, back with the answer, done with the bookkeeping, or finished.
\<close>

datatype caller =
    Idle
  | Start string
  | Missed string
  | Waiting string nat
  | Fetching string nat
  | Fetched string nat answer
  | Closing string nat answer
  | Finished string caller_result

text \<open>
  \<open>st_closed\<close> holds the answer of each call whose channel is closed, \<open>st_next\<close> is the next fresh
  call, and \<open>st_log\<close> records every fetch for the statements below.
\<close>

record cache_state =
  st_cache :: panel_cache
  st_closed :: "nat \<Rightarrow> answer option"
  st_next :: nat
  st_callers :: "nat \<Rightarrow> caller"
  st_log :: "(string \<times> answer) list"

definition initial_state :: "panel_cache \<Rightarrow> cache_state" where
  "initial_state c =
    \<lparr>st_cache = c, st_closed = (\<lambda>_. None), st_next = 0, st_callers = (\<lambda>_. Idle), st_log = []\<rparr>"

abbreviation move :: "nat \<Rightarrow> caller \<Rightarrow> cache_state \<Rightarrow> cache_state" where
  "move i p s \<equiv> s\<lparr>st_callers := (st_callers s)(i := p)\<rparr>"

inductive cache_step :: "cache_state \<Rightarrow> cache_state \<Rightarrow> bool" where
  arrive: "st_callers s i = Idle \<Longrightarrow> cache_step s (move i (Start k) s)"
| hit: "st_callers s i = Start k \<Longrightarrow> pc_lookup (st_cache s) t k = Some r
    \<Longrightarrow> cache_step s (move i (Finished k (Answer r)) s)"
| miss: "st_callers s i = Start k \<Longrightarrow> pc_lookup (st_cache s) t k = None
    \<Longrightarrow> cache_step s (move i (Missed k) s)"
| late_hit: "st_callers s i = Missed k \<Longrightarrow> pc_lookup (st_cache s) t k = Some r
    \<Longrightarrow> cache_step s (move i (Finished k (Answer r)) s)"
| join_call: "st_callers s i = Missed k \<Longrightarrow> pc_lookup (st_cache s) t k = None
    \<Longrightarrow> map_of (pc_in_flight (st_cache s)) k = Some c
    \<Longrightarrow> cache_step s (move i (Waiting k c) s)"
| new_call: "st_callers s i = Missed k \<Longrightarrow> pc_lookup (st_cache s) t k = None
    \<Longrightarrow> map_of (pc_in_flight (st_cache s)) k = None
    \<Longrightarrow> cache_step s (move i (Fetching k (st_next s))
          (s\<lparr>st_cache := (st_cache s)
               \<lparr>pc_in_flight := AList.update k (st_next s) (pc_in_flight (st_cache s))\<rparr>,
             st_next := Suc (st_next s)\<rparr>))"
| fetched: "st_callers s i = Fetching k c
    \<Longrightarrow> cache_step s (move i (Fetched k c r) (s\<lparr>st_log := (k, r) # st_log s\<rparr>))"
| settle: "st_callers s i = Fetched k c r \<Longrightarrow> is_order ord
    \<Longrightarrow> cache_step s (move i (Closing k c r)
          (s\<lparr>st_cache := pc_store ord
               ((st_cache s)\<lparr>pc_in_flight := AList.delete k (pc_in_flight (st_cache s))\<rparr>) t k r\<rparr>))"
| close: "st_callers s i = Closing k c r
    \<Longrightarrow> cache_step s (move i (Finished k (Answer r)) (s\<lparr>st_closed := (st_closed s)(c \<mapsto> r)\<rparr>))"
| woken: "st_callers s i = Waiting k c \<Longrightarrow> st_closed s c = Some r
    \<Longrightarrow> cache_step s (move i (Finished k (Answer r)) s)"
| gone: "st_callers s i = Waiting k c \<Longrightarrow> cache_step s (move i (Finished k Cancelled) s)"

inductive_cases cache_stepE: "cache_step s s'"

inductive reachable :: "panel_cache \<Rightarrow> cache_state \<Rightarrow> bool" for c where
  start: "reachable c (initial_state c)"
| step: "reachable c s \<Longrightarrow> cache_step s s' \<Longrightarrow> reachable c s'"

section \<open>Storing and evicting\<close>

lemma drop_live_length:
  assumes "gomap_ok es" "0 < m" "set (map_keys es) \<subseteq> set ks"
  shows "int (length (drop_live m ks es)) < m"
  using assms
proof (induction m ks es rule: drop_live.induct)
  case (2 m k ks es)
  show ?case
  proof (cases "int (length es) < m")
    case False
    have "set (map_keys (AList.delete k es)) \<subseteq> set ks"
      using "2.prems"(3) by (auto simp: map_keys_delete)
    with False 2 show ?thesis by simp
  qed simp
qed simp

lemma drop_live_sub: "set (drop_live m ks es) \<subseteq> set es"
proof (induction m ks es rule: drop_live.induct)
  case (2 m k ks es)
  then show ?case using set_delete_subset [of k es] by (cases "int (length es) < m") auto
qed simp

lemma drop_live_ok: "gomap_ok es \<Longrightarrow> gomap_ok (drop_live m ks es)"
  by (induction m ks es rule: drop_live.induct) auto

lemma drop_expired_ok: "gomap_ok es \<Longrightarrow> gomap_ok (drop_expired t es)"
  by (simp add: gomap_ok_def drop_expired_def distinct_map_filter)

lemma evict_sub: "set (pc_entries (pc_evict ord t c)) \<subseteq> set (pc_entries c)"
proof -
  have "set (drop_live m ks (drop_expired t (pc_entries c))) \<subseteq> set (pc_entries c)" for m ks
    using drop_live_sub [of m ks "drop_expired t (pc_entries c)"] by (auto simp: drop_expired_def)
  then show ?thesis by (simp add: pc_evict_def Let_def)
qed

lemma evict_facts:
  assumes "gomap_ok (pc_entries c)" "is_order ord"
  shows "gomap_ok (pc_entries (pc_evict ord t c))"
    and "0 < pc_max_entries c \<Longrightarrow> int (length (pc_entries (pc_evict ord t c))) < pc_max_entries c"
proof -
  let ?es = "drop_expired t (pc_entries c)"
  have ok: "gomap_ok ?es" by (rule drop_expired_ok [OF assms(1)])
  then show "gomap_ok (pc_entries (pc_evict ord t c))"
    using assms(1) by (simp add: pc_evict_def Let_def drop_live_ok)
  show "int (length (pc_entries (pc_evict ord t c))) < pc_max_entries c" if "0 < pc_max_entries c"
    using that drop_live_length [OF ok that, of "map_keys (ord ?es)"] order_keys [OF assms(2), of ?es]
    by (auto simp: pc_evict_def Let_def)
qed

lemma evict_config [simp]:
  "pc_ttl (pc_evict ord t c) = pc_ttl c" "pc_negative_ttl (pc_evict ord t c) = pc_negative_ttl c"
  "pc_max_entries (pc_evict ord t c) = pc_max_entries c"
  "pc_in_flight (pc_evict ord t c) = pc_in_flight c"
  by (simp_all add: pc_evict_def Let_def)

lemma store_config [simp]:
  "pc_ttl (pc_store ord c t k r) = pc_ttl c"
  "pc_negative_ttl (pc_store ord c t k r) = pc_negative_ttl c"
  "pc_max_entries (pc_store ord c t k r) = pc_max_entries c"
  "pc_in_flight (pc_store ord c t k r) = pc_in_flight c"
  by (simp_all add: pc_store_def Let_def split: option.split)

definition entries_ok :: "panel_cache \<Rightarrow> bool" where
  "entries_ok c \<longleftrightarrow>
    gomap_ok (pc_entries c)
    \<and> (0 < pc_max_entries c \<longrightarrow> int (length (pc_entries c)) \<le> pc_max_entries c)"

lemma length_update_le: "length (AList.update k v m) \<le> Suc (length m)"
  by (induction m) auto

lemma store_ok:
  assumes "entries_ok c" "is_order ord"
  shows "entries_ok (pc_store ord c t k r)"
proof -
  have ok: "gomap_ok (pc_entries c)" using assms(1) by (simp add: entries_ok_def)
  note ev = evict_facts [OF ok assms(2), of t]
  have "int (length (AList.update k v (pc_entries (pc_evict ord t c)))) \<le> pc_max_entries c"
    if "0 < pc_max_entries c" for v
    using ev(2) [OF that] length_update_le [of k v "pc_entries (pc_evict ord t c)"] by linarith
  with assms(1) ev(1) show ?thesis
    by (auto simp: pc_store_def entries_ok_def Let_def split: option.split)
qed

lemma set_update_subset: "set (AList.update k v m) \<subseteq> insert (k, v) (set m)"
  by (induction m) auto

lemma store_sub:
  assumes "gomap_ok (pc_entries c)" "is_order ord"
    and "(k', e) \<in> set (pc_entries (pc_store ord c t k r))"
  shows "(k', e) \<in> set (pc_entries c)
    \<or> k' = k \<and> pe_answer e = r \<and> (\<exists>ttl > 0. answer_ttl c r = Some ttl)"
proof (cases "\<exists>ttl > 0. answer_ttl c r = Some ttl")
  case True
  then obtain ttl where "0 < ttl" "answer_ttl c r = Some ttl" by blast
  with assms(3) have "(k', e) \<in> set (AList.update k \<lparr>pe_answer = r, pe_expires = t + ttl\<rparr>
      (pc_entries (pc_evict ord t c)))"
    by (simp add: pc_store_def Let_def)
  with set_update_subset evict_sub [of ord t c] True show ?thesis by fastforce
next
  case False
  then have "pc_store ord c t k r = c"
    by (auto simp: pc_store_def not_le split: option.split)
  with assms(3) show ?thesis by simp
qed

section \<open>The invariant of the callers\<close>

fun owner :: "caller \<Rightarrow> (string \<times> nat) option" where
  "owner (Fetching k c) = Some (k, c)"
| "owner (Fetched k c r) = Some (k, c)"
| "owner _ = None"

fun runner :: "caller \<Rightarrow> (string \<times> nat) option" where
  "runner (Closing k c r) = Some (k, c)"
| "runner p = owner p"

text \<open>The answer a caller holds, for the key it asked about.\<close>

fun holds :: "caller \<Rightarrow> (string \<times> answer) option" where
  "holds (Fetched k c r) = Some (k, r)"
| "holds (Closing k c r) = Some (k, r)"
| "holds (Finished k (Answer r)) = Some (k, r)"
| "holds _ = None"

text \<open>The map of calls in flight is exactly what the fetching callers own, one per key.\<close>

definition flight_inv :: "cache_state \<Rightarrow> bool" where
  "flight_inv s \<longleftrightarrow>
    (\<forall>i k c. owner (st_callers s i) = Some (k, c) \<longrightarrow> map_of (pc_in_flight (st_cache s)) k = Some c)
    \<and> (\<forall>k c. map_of (pc_in_flight (st_cache s)) k = Some c
        \<longrightarrow> (\<exists>i. owner (st_callers s i) = Some (k, c)))
    \<and> (\<forall>i j k c d. owner (st_callers s i) = Some (k, c) \<longrightarrow> owner (st_callers s j) = Some (k, d)
        \<longrightarrow> i = j)"

text \<open>A call is closed once, after its runner is through.\<close>

definition call_inv :: "cache_state \<Rightarrow> bool" where
  "call_inv s \<longleftrightarrow>
    (\<forall>i k c. runner (st_callers s i) = Some (k, c) \<longrightarrow> c < st_next s \<and> st_closed s c = None)
    \<and> (\<forall>i j k l c. runner (st_callers s i) = Some (k, c) \<longrightarrow> runner (st_callers s j) = Some (l, c)
        \<longrightarrow> i = j)
    \<and> (\<forall>c. st_next s \<le> c \<longrightarrow> st_closed s c = None)"

text \<open>Every answer anywhere is one that was fetched for the key.\<close>

definition answer_inv :: "cache_state \<Rightarrow> bool" where
  "answer_inv s \<longleftrightarrow>
    (\<forall>i k r. holds (st_callers s i) = Some (k, r) \<longrightarrow> (k, r) \<in> set (st_log s))
    \<and> (\<forall>(k, e) \<in> set (pc_entries (st_cache s)).
        (k, pe_answer e) \<in> set (st_log s) \<and> answer_ttl (st_cache s) (pe_answer e) \<noteq> None)"

text \<open>Someone is still working for every waiting caller, or its answer is there.\<close>

definition wait_inv :: "cache_state \<Rightarrow> bool" where
  "wait_inv s \<longleftrightarrow>
    (\<forall>i k c. st_callers s i = Waiting k c \<longrightarrow>
      c < st_next s
      \<and> ((\<exists>r. st_closed s c = Some r \<and> (k, r) \<in> set (st_log s))
         \<or> (\<exists>j. runner (st_callers s j) = Some (k, c))))"

lemma runner_owner: "owner p = Some kc \<Longrightarrow> runner p = Some kc"
  by (cases p) auto

lemma flightD:
  assumes "flight_inv s"
  shows "owner (st_callers s i) = Some (k, c) \<Longrightarrow> map_of (pc_in_flight (st_cache s)) k = Some c"
    and "map_of (pc_in_flight (st_cache s)) k = Some c \<Longrightarrow> \<exists>i. owner (st_callers s i) = Some (k, c)"
    and "owner (st_callers s i) = Some (k, c) \<Longrightarrow> owner (st_callers s j) = Some (k, d) \<Longrightarrow> i = j"
  using assms unfolding flight_inv_def by blast+

lemma flight_same:
  assumes "flight_inv s" "\<And>j. owner (st_callers s' j) = owner (st_callers s j)"
    and "pc_in_flight (st_cache s') = pc_in_flight (st_cache s)"
  shows "flight_inv s'"
  using assms by (simp add: flight_inv_def)

lemma flight_step:
  assumes inv: "flight_inv s" and "cache_step s s'"
  shows "flight_inv s'"
  using assms(2)
proof cases
  case (new_call i k t)
  have free: "owner (st_callers s j) \<noteq> Some (k, c)" for j c
    using flightD(1) [OF inv, of j k c] new_call(4) by auto
  let ?o = "\<lambda>j. if j = i then Some (k, st_next s) else owner (st_callers s j)"
  have o: "owner (st_callers s' j) = ?o j" for j by (simp add: new_call(1))
  have m: "map_of (pc_in_flight (st_cache s')) = (map_of (pc_in_flight (st_cache s)))(k \<mapsto> st_next s)"
    by (simp add: new_call(1))
  have self: "owner (st_callers s i) = None" by (simp add: new_call(2))
  show ?thesis unfolding flight_inv_def o m
  proof (intro conjI allI impI)
    fix j l c assume "?o j = Some (l, c)"
    then show "((map_of (pc_in_flight (st_cache s)))(k \<mapsto> st_next s)) l = Some c"
      using free [of j c] flightD(1) [OF inv, of j l c] by (auto split: if_splits)
  next
    fix l c assume *: "((map_of (pc_in_flight (st_cache s)))(k \<mapsto> st_next s)) l = Some c"
    show "\<exists>j. ?o j = Some (l, c)"
    proof (cases "l = k")
      case False
      with * flightD(2) [OF inv, of l c] obtain j where "owner (st_callers s j) = Some (l, c)" by auto
      with self show ?thesis by (intro exI [of _ j]) auto
    qed (use * in auto)
  next
    fix j j' l c d assume "?o j = Some (l, c)" "?o j' = Some (l, d)"
    then show "j = j'" using free flightD(3) [OF inv, of j l c j' d] by (auto split: if_splits)
  qed
next
  case (settle i k c r ord t)
  let ?o = "\<lambda>j. if j = i then None else owner (st_callers s j)"
  have o: "owner (st_callers s' j) = ?o j" for j by (simp add: settle(1))
  have m: "map_of (pc_in_flight (st_cache s')) = (map_of (pc_in_flight (st_cache s)))(k := None)"
    by (simp add: settle(1))
  have self: "owner (st_callers s i) = Some (k, c)" by (simp add: settle(2))
  have only: "owner (st_callers s j) = Some (k, d) \<Longrightarrow> j = i" for j d
    using flightD(3) [OF inv self] by metis
  show ?thesis unfolding flight_inv_def o m
  proof (intro conjI allI impI)
    fix j l d assume "?o j = Some (l, d)"
    then show "((map_of (pc_in_flight (st_cache s)))(k := None)) l = Some d"
      using only [of j d] flightD(1) [OF inv, of j l d] by (auto split: if_splits)
  next
    fix l d assume *: "((map_of (pc_in_flight (st_cache s)))(k := None)) l = Some d"
    then have l: "l \<noteq> k" by auto
    with * flightD(2) [OF inv, of l d] obtain j where "owner (st_callers s j) = Some (l, d)" by auto
    with self l show "\<exists>j. ?o j = Some (l, d)" by (intro exI [of _ j]) auto
  next
    fix j j' l c d assume "?o j = Some (l, c)" "?o j' = Some (l, d)"
    then show "j = j'" using flightD(3) [OF inv, of j l c j' d] by (auto split: if_splits)
  qed
qed (auto intro: flight_same [OF inv] split: if_splits)

lemma callD:
  assumes "call_inv s"
  shows "runner (st_callers s i) = Some (k, c) \<Longrightarrow> c < st_next s \<and> st_closed s c = None"
    and "runner (st_callers s i) = Some (k, c) \<Longrightarrow> runner (st_callers s j) = Some (l, c) \<Longrightarrow> i = j"
    and "st_next s \<le> c \<Longrightarrow> st_closed s c = None"
  using assms unfolding call_inv_def by blast+

lemma call_same:
  assumes "call_inv s" "\<And>j. runner (st_callers s' j) = runner (st_callers s j)"
    and "st_closed s' = st_closed s" "st_next s' = st_next s"
  shows "call_inv s'"
  using assms by (simp add: call_inv_def)

lemma call_step:
  assumes inv: "call_inv s" and "cache_step s s'"
  shows "call_inv s'"
  using assms(2)
proof cases
  case (new_call i k t)
  have fresh: "runner (st_callers s j) \<noteq> Some (l, st_next s)" for j l
    using callD(1) [OF inv, of j l "st_next s"] by auto
  let ?o = "\<lambda>j. if j = i then Some (k, st_next s) else runner (st_callers s j)"
  have o: "runner (st_callers s' j) = ?o j" for j by (simp add: new_call(1))
  have n: "st_next s' = Suc (st_next s)" "st_closed s' = st_closed s" by (simp_all add: new_call(1))
  show ?thesis unfolding call_inv_def o n
  proof (intro conjI allI impI)
    fix j l c assume *: "?o j = Some (l, c)"
    show "c < Suc (st_next s)"
      using * callD(1) [OF inv, of j l c] by (auto split: if_splits)
    show "st_closed s c = None"
      using * callD(1) [OF inv, of j l c] callD(3) [OF inv, of c] by (auto split: if_splits)
  next
    fix j j' l l' c assume "?o j = Some (l, c)" "?o j' = Some (l', c)"
    then show "j = j'" using fresh callD(2) [OF inv, of j l c j' l'] by (auto split: if_splits)
  next
    fix c assume "Suc (st_next s) \<le> c"
    then show "st_closed s c = None" using callD(3) [OF inv, of c] by simp
  qed
next
  case (close i k c r)
  have self: "runner (st_callers s i) = Some (k, c)" by (simp add: close(2))
  have only: "runner (st_callers s j) = Some (l, c) \<Longrightarrow> j = i" for j l
    using callD(2) [OF inv self] by metis
  show ?thesis
    unfolding call_inv_def close(1)
    using only callD(1,2) [OF inv] callD(3) [OF inv] callD(1) [OF inv self]
    by (auto split: if_splits)
qed (auto intro: call_same [OF inv] split: if_splits)

lemma answerD:
  assumes "answer_inv s"
  shows "holds (st_callers s i) = Some (k, r) \<Longrightarrow> (k, r) \<in> set (st_log s)"
    and "(k, e) \<in> set (pc_entries (st_cache s)) \<Longrightarrow>
      (k, pe_answer e) \<in> set (st_log s) \<and> answer_ttl (st_cache s) (pe_answer e) \<noteq> None"
  using assms unfolding answer_inv_def by blast+

lemma lookup_entry: "pc_lookup c t k = Some r \<Longrightarrow> \<exists>e. (k, e) \<in> set (pc_entries c) \<and> pe_answer e = r"
  by (auto simp: pc_lookup_def dest: map_of_SomeD split: option.splits if_splits)

lemma answer_ttl_same [simp]:
  "answer_ttl (c\<lparr>pc_in_flight := m\<rparr>) = answer_ttl c"
  "answer_ttl (pc_store ord c t k r) = answer_ttl c"
  by (simp_all add: answer_ttl_def fun_eq_iff split: sum.split panel_error.split)

lemma answer_move:
  assumes "answer_inv s" "\<And>k r. holds p = Some (k, r) \<Longrightarrow> (k, r) \<in> set (st_log s)"
  shows "answer_inv (move i p s)"
  using assms by (auto simp: answer_inv_def split: if_splits)

lemma answer_step:
  assumes inv: "answer_inv s" and wait: "wait_inv s" and calls: "call_inv s"
    and ok: "entries_ok (st_cache s)" and "cache_step s s'"
  shows "answer_inv s'"
  using assms(5)
proof cases
  case (hit i k t r)
  from lookup_entry [OF hit(3)] answerD(2) [OF inv] have "(k, r) \<in> set (st_log s)" by blast
  then show ?thesis unfolding hit(1) by (intro answer_move [OF inv]) simp
next
  case (late_hit i k t r)
  from lookup_entry [OF late_hit(3)] answerD(2) [OF inv] have "(k, r) \<in> set (st_log s)" by blast
  then show ?thesis unfolding late_hit(1) by (intro answer_move [OF inv]) simp
next
  case (new_call i k t)
  then show ?thesis
    using inv by (auto simp: answer_inv_def split: if_splits)
next
  case (fetched i k c r)
  then show ?thesis using inv by (auto simp: answer_inv_def split: if_splits)
next
  case (settle i k c r ord t)
  let ?d = "(st_cache s)\<lparr>pc_in_flight := AList.delete k (pc_in_flight (st_cache s))\<rparr>"
  have kr: "(k, r) \<in> set (st_log s)" by (rule answerD(1) [OF inv, of i]) (simp add: settle(2))
  have "(l, pe_answer e) \<in> set (st_log s) \<and> answer_ttl ?d (pe_answer e) \<noteq> None"
    if "(l, e) \<in> set (pc_entries (pc_store ord ?d t k r))" for l e
  proof -
    have "gomap_ok (pc_entries ?d)" using ok by (simp add: entries_ok_def)
    from store_sub [OF this settle(3) that] kr answerD(2) [OF inv, of l e] show ?thesis by auto
  qed
  then have "\<forall>(l, e) \<in> set (pc_entries (st_cache s')).
      (l, pe_answer e) \<in> set (st_log s') \<and> answer_ttl (st_cache s') (pe_answer e) \<noteq> None"
    by (auto simp: settle(1))
  moreover have "\<forall>j l x. holds (st_callers s' j) = Some (l, x) \<longrightarrow> (l, x) \<in> set (st_log s')"
    using kr answerD(1) [OF inv] by (simp add: settle(1))
  ultimately show ?thesis by (simp add: answer_inv_def)
next
  case (close i k c r)
  have "(k, r) \<in> set (st_log s)" by (rule answerD(1) [OF inv, of i]) (simp add: close(2))
  then show ?thesis using inv by (auto simp: close(1) answer_inv_def split: if_splits)
next
  case (woken i k c r)
  have "runner (st_callers s j) \<noteq> Some (k, c)" for j
    using callD(1) [OF calls, of j k c] woken(3) by auto
  moreover have "(\<exists>x. st_closed s c = Some x \<and> (k, x) \<in> set (st_log s))
      \<or> (\<exists>j. runner (st_callers s j) = Some (k, c))"
    using wait woken(2) unfolding wait_inv_def by blast
  ultimately have "(k, r) \<in> set (st_log s)" using woken(3) by auto
  then show ?thesis unfolding woken(1) by (intro answer_move [OF inv]) simp
qed (auto intro!: answer_move [OF inv])

lemma waitD:
  assumes "wait_inv s" "st_callers s i = Waiting k c"
  shows "c < st_next s"
    and "(\<exists>r. st_closed s c = Some r \<and> (k, r) \<in> set (st_log s))
      \<or> (\<exists>j. runner (st_callers s j) = Some (k, c))"
  using assms unfolding wait_inv_def by blast+

lemma wait_same:
  assumes "wait_inv s" "\<And>j. runner (st_callers s' j) = runner (st_callers s j)"
    and "\<And>j k c. st_callers s' j = Waiting k c \<Longrightarrow> st_callers s j = Waiting k c"
    and "st_closed s' = st_closed s" "st_next s' = st_next s" "set (st_log s) \<subseteq> set (st_log s')"
  shows "wait_inv s'"
  unfolding wait_inv_def assms(2,4,5)
  using waitD [OF assms(1) assms(3)] assms(6) by blast

lemma wait_step:
  assumes inv: "wait_inv s" and flight: "flight_inv s" and calls: "call_inv s"
    and ans: "answer_inv s" and "cache_step s s'"
  shows "wait_inv s'"
  using assms(5)
proof cases
  case (join_call i k t c)
  obtain j where j: "owner (st_callers s j) = Some (k, c)"
    using flightD(2) [OF flight join_call(4)] by blast
  have r: "runner (st_callers s' l) = runner (st_callers s l)" for l
    using join_call(2) by (simp add: join_call(1))
  have n: "st_closed s' = st_closed s" "st_next s' = st_next s" "st_log s' = st_log s"
    by (simp_all add: join_call(1))
  show ?thesis unfolding wait_inv_def r n
  proof (intro allI impI)
    fix l k' c' assume w: "st_callers s' l = Waiting k' c'"
    show "c' < st_next s \<and> ((\<exists>r. st_closed s c' = Some r \<and> (k', r) \<in> set (st_log s))
        \<or> (\<exists>j. runner (st_callers s j) = Some (k', c')))"
    proof (cases "l = i")
      case True
      with w have "k' = k" "c' = c" by (simp_all add: join_call(1))
      with runner_owner [OF j] callD(1) [OF calls] show ?thesis by blast
    next
      case False
      with w have "st_callers s l = Waiting k' c'" by (simp add: join_call(1))
      from waitD [OF inv this] show ?thesis by blast
    qed
  qed
next
  case (new_call i k t)
  have keep: "runner (st_callers s j) = Some x \<Longrightarrow> runner (st_callers s' j) = Some x" for j x
    using new_call(2) by (auto simp: new_call(1))
  have w: "st_callers s' j = Waiting l c \<Longrightarrow> st_callers s j = Waiting l c" for j l c
    by (auto simp: new_call(1) split: if_splits)
  have n: "st_closed s' = st_closed s" "st_next s' = Suc (st_next s)" "st_log s' = st_log s"
    by (simp_all add: new_call(1))
  show ?thesis unfolding wait_inv_def n
    using waitD [OF inv w] keep less_SucI by blast
next
  case (close i k c r)
  have kr: "(k, r) \<in> set (st_log s)" by (rule answerD(1) [OF ans, of i]) (simp add: close(2))
  have w: "st_callers s' j = Waiting l d \<Longrightarrow> st_callers s j = Waiting l d" for j l d
    by (auto simp: close(1) split: if_splits)
  have n: "st_closed s' = (st_closed s)(c \<mapsto> r)" "st_next s' = st_next s" "st_log s' = st_log s"
    by (simp_all add: close(1))
  show ?thesis unfolding wait_inv_def n
  proof (intro allI impI)
    fix j l d assume "st_callers s' j = Waiting l d"
    note old = waitD [OF inv w [OF this]]
    show "d < st_next s \<and> ((\<exists>x. ((st_closed s)(c \<mapsto> r)) d = Some x \<and> (l, x) \<in> set (st_log s))
        \<or> (\<exists>j. runner (st_callers s' j) = Some (l, d)))"
    proof (cases "\<exists>m. runner (st_callers s m) = Some (l, d)")
      case True
      then obtain m where m: "runner (st_callers s m) = Some (l, d)" by blast
      show ?thesis
      proof (cases "m = i")
        case True
        with m have "l = k" "d = c" by (simp_all add: close(2))
        with old(1) kr show ?thesis by auto
      next
        case False
        with m have "runner (st_callers s' m) = Some (l, d)" by (simp add: close(1))
        with old(1) show ?thesis by blast
      qed
    next
      case False
      with old(2) obtain x where x: "st_closed s d = Some x" "(l, x) \<in> set (st_log s)" by blast
      have "d \<noteq> c" using x(1) callD(1) [OF calls, of i k c] close(2) by auto
      with x old(1) show ?thesis by auto
    qed
  qed
qed (auto intro!: wait_same [OF inv] split: if_splits)

lemma entries_step:
  assumes "entries_ok (st_cache s)" "cache_step s s'"
  shows "entries_ok (st_cache s') \<and> pc_max_entries (st_cache s') = pc_max_entries (st_cache s)"
  using assms(2)
proof cases
  case (settle i k c r ord t)
  have "entries_ok ((st_cache s)\<lparr>pc_in_flight := AList.delete k (pc_in_flight (st_cache s))\<rparr>)"
    using assms(1) by (simp add: entries_ok_def)
  from store_ok [OF this settle(3)] show ?thesis by (simp add: settle(1))
qed (use assms(1) in \<open>simp_all add: entries_ok_def\<close>)

definition cache_inv :: "cache_state \<Rightarrow> bool" where
  "cache_inv s \<longleftrightarrow>
    entries_ok (st_cache s) \<and> flight_inv s \<and> call_inv s \<and> answer_inv s \<and> wait_inv s"

lemma cache_inv_step: "cache_inv s \<Longrightarrow> cache_step s s' \<Longrightarrow> cache_inv s'"
  unfolding cache_inv_def
  using entries_step flight_step call_step answer_step wait_step by blast

lemma cache_inv_initial: "cache_inv (initial_state (new_panel_cache ttl neg m))"
  by (simp add: cache_inv_def initial_state_def new_panel_cache_def entries_ok_def flight_inv_def
      call_inv_def answer_inv_def wait_inv_def)

lemma reachable_inv: "reachable (new_panel_cache ttl neg m) s \<Longrightarrow> cache_inv s"
  by (induction rule: reachable.induct) (auto intro: cache_inv_initial cache_inv_step)

lemma reachable_config:
  "reachable c s \<Longrightarrow> pc_max_entries (st_cache s) = pc_max_entries c
     \<and> answer_ttl (st_cache s) = answer_ttl c"
proof (induction rule: reachable.induct)
  case start
  then show ?case by (simp add: initial_state_def)
next
  case (step s s')
  from step(2) have "pc_max_entries (st_cache s') = pc_max_entries (st_cache s)
      \<and> answer_ttl (st_cache s') = answer_ttl (st_cache s)"
    by cases simp_all
  with step.IH show ?case by simp
qed

section \<open>Properties\<close>

text \<open>C16: However the callers interleave, at most one of them is fetching a given key at any moment.\<close>

theorem one_fetch_per_key:
  assumes "reachable (new_panel_cache ttl neg m) s"
    and "owner (st_callers s i) = Some (k, c)" and "owner (st_callers s j) = Some (k, d)"
  shows "i = j \<and> c = d"
  using reachable_inv [OF assms(1)] flightD(3) [of s i k c j d] assms(2,3)
  by (auto simp: cache_inv_def)

text \<open>C17: Every answer a caller gets is one that was fetched for the key it asked about, and the cache
  never holds a failure other than "not found", nor more entries than it may.\<close>

theorem answers_are_genuine:
  assumes "reachable (new_panel_cache ttl neg m) s"
  shows "(st_callers s i = Finished k (Answer r) \<longrightarrow> (k, r) \<in> set (st_log s))
    \<and> (\<forall>(l, e) \<in> set (pc_entries (st_cache s)).
        (l, pe_answer e) \<in> set (st_log s) \<and> pe_answer e \<in> insert (Inl Not_Found) (range Inr))
    \<and> (0 < m \<longrightarrow> int (length (pc_entries (st_cache s))) \<le> m)"
proof -
  have inv: "answer_inv s" "entries_ok (st_cache s)"
    using reachable_inv [OF assms] by (simp_all add: cache_inv_def)
  have m: "pc_max_entries (st_cache s) = m"
    using reachable_config [OF assms] by (simp add: new_panel_cache_def)
  have "x \<in> insert (Inl Not_Found) (range Inr)" if "answer_ttl d x \<noteq> None" for d x
    using that by (auto simp: answer_ttl_def split: sum.splits panel_error.splits)
  with answerD [OF inv(1)] have "\<forall>(l, e) \<in> set (pc_entries (st_cache s)).
      (l, pe_answer e) \<in> set (st_log s) \<and> pe_answer e \<in> insert (Inl Not_Found) (range Inr)"
    by blast
  with answerD(1) [OF inv(1), of i k r] inv(2) m show ?thesis by (auto simp: entries_ok_def)
qed

text \<open>C18: No caller waits in vain: as long as one waits, either its answer is published and it can take
  it, or the caller that fetches for it is still at work and can take its next step (the fetch
  itself ends, as it runs under a time limit).\<close>

theorem no_lost_waiter:
  assumes "reachable (new_panel_cache ttl neg m) s" and "st_callers s i = Waiting k c"
  shows "(\<exists>r. cache_step s (move i (Finished k (Answer r)) s))
    \<or> (\<exists>j s'. runner (st_callers s j) = Some (k, c) \<and> cache_step s s'
         \<and> st_callers s' j \<noteq> st_callers s j)"
proof -
  have "wait_inv s" using reachable_inv [OF assms(1)] by (simp add: cache_inv_def)
  from waitD(2) [OF this assms(2)] show ?thesis
  proof
    assume "\<exists>r. st_closed s c = Some r \<and> (k, r) \<in> set (st_log s)"
    with assms(2) show ?thesis by (blast intro: cache_step.woken)
  next
    assume "\<exists>j. runner (st_callers s j) = Some (k, c)"
    then obtain j where j: "runner (st_callers s j) = Some (k, c)" by blast
    have "\<exists>s'. cache_step s s' \<and> st_callers s' j \<noteq> st_callers s j"
    proof (cases "st_callers s j")
      case (Fetching l d)
      from cache_step.fetched [OF this, of undefined] Fetching show ?thesis by (intro exI conjI) auto
    next
      case (Fetched l d r)
      from cache_step.settle [OF this is_order_id, of 0] Fetched show ?thesis by (intro exI conjI) auto
    next
      case (Closing l d r)
      from cache_step.close [OF this] Closing show ?thesis by (intro exI conjI) auto
    qed (use j in auto)
    with j show ?thesis by blast
  qed
qed

text \<open>An answer is reused for exactly as long as its kind allows, found ones and "not found" each
  for their own time; any other failure leaves the cache as it was.\<close>

theorem answer_reused:
  "pc_lookup (pc_store ord c t k r) t' k =
    (case answer_ttl c r of
       Some ttl \<Rightarrow> if ttl \<le> 0 then pc_lookup c t' k else if t' < t + ttl then Some r else None
     | None \<Rightarrow> pc_lookup c t' k)"
  by (simp add: pc_store_def pc_lookup_def Let_def split: option.split)

section \<open>A run with two callers\<close>

text \<open>The first caller fetches, the second one waits for it.\<close>

definition two_callers :: cache_state where
  "two_callers =
    (initial_state (new_panel_cache 30 10 5))
      \<lparr>st_cache := (new_panel_cache 30 10 5)\<lparr>pc_in_flight := [(''a'', 0)]\<rparr>, st_next := 1,
       st_callers := (\<lambda>_. Idle)(0 := Fetching ''a'' 0, 1 := Waiting ''a'' 0)\<rparr>"

lemma lookup_empty: "pc_entries c = [] \<Longrightarrow> pc_lookup c t k = None"
  by (simp add: pc_lookup_def)

lemma two_callers_reachable: "reachable (new_panel_cache 30 10 5) two_callers"
proof -
  let ?c = "new_panel_cache 30 10 5"
  let ?s0 = "initial_state ?c"
  let ?s1 = "move 0 (Start ''a'') ?s0"
  let ?s2 = "move 0 (Missed ''a'') ?s1"
  let ?s3 = "move 0 (Fetching ''a'' (st_next ?s2)) (?s2\<lparr>st_cache := (st_cache ?s2)
      \<lparr>pc_in_flight := AList.update ''a'' (st_next ?s2) (pc_in_flight (st_cache ?s2))\<rparr>,
      st_next := Suc (st_next ?s2)\<rparr>)"
  let ?s4 = "move 1 (Start ''a'') ?s3"
  let ?s5 = "move 1 (Missed ''a'') ?s4"
  let ?s6 = "move 1 (Waiting ''a'' 0) ?s5"
  have e: "pc_entries ?c = []" by (simp add: new_panel_cache_def)
  have look: "pc_lookup (st_cache s) 0 k = None" if "pc_entries (st_cache s) = []" for s k
    using that by (rule lookup_empty)
  have "reachable ?c ?s0" by (rule start)
  then have "reachable ?c ?s1" by (rule step) (rule arrive, simp add: initial_state_def)
  then have "reachable ?c ?s2"
    by (rule step) (rule miss [where t = 0], simp, rule look, simp add: initial_state_def e)
  then have "reachable ?c ?s3"
    by (rule step) (rule new_call [where t = 0], simp, rule look, simp add: initial_state_def e,
        simp add: initial_state_def new_panel_cache_def)
  then have "reachable ?c ?s4" by (rule step) (rule arrive, simp add: initial_state_def)
  then have "reachable ?c ?s5"
    by (rule step) (rule miss [where t = 0], simp, rule look, simp add: initial_state_def e)
  then have "reachable ?c ?s6"
    by (rule step) (rule join_call [where t = 0], simp, rule look, simp add: initial_state_def e,
        simp add: initial_state_def new_panel_cache_def)
  moreover have "?s6 = two_callers"
    by (auto simp: two_callers_def initial_state_def new_panel_cache_def)
  ultimately show ?thesis by simp
qed

theorem one_fetch_per_key_witness:
  "owner (st_callers two_callers 0) = Some (''a'', 0) \<and> (0 :: nat) = 0 \<and> (0 :: nat) = 0"
proof -
  have "owner (st_callers two_callers 0) = Some (''a'', 0)" by (simp add: two_callers_def)
  with one_fetch_per_key [OF two_callers_reachable this this] show ?thesis by blast
qed

theorem no_lost_waiter_witness:
  "\<exists>j s'. runner (st_callers two_callers j) = Some (''a'', 0) \<and> cache_step two_callers s'
     \<and> st_callers s' j \<noteq> st_callers two_callers j"
proof -
  have w: "st_callers two_callers 1 = Waiting ''a'' 0" by (simp add: two_callers_def)
  have "\<not> cache_step two_callers (move 1 (Finished ''a'' (Answer r)) two_callers)" for r
  proof
    assume "cache_step two_callers (move 1 (Finished ''a'' (Answer r)) two_callers)"
    then have "st_callers two_callers 1 \<noteq> Waiting ''a'' 0 \<or> st_closed two_callers 0 = Some r"
      by cases (auto simp: two_callers_def initial_state_def fun_eq_iff split: if_splits)
    with w show False by (simp add: two_callers_def initial_state_def)
  qed
  with no_lost_waiter [OF two_callers_reachable w] show ?thesis by blast
qed

text \<open>The first caller comes back with "not found", settles and publishes it.\<close>

lemma finished_reachable:
  "\<exists>s. reachable (new_panel_cache 30 10 5) s
     \<and> st_callers s 0 = Finished ''a'' (Answer (Inl Not_Found))"
proof -
  let ?r = "Inl Not_Found :: answer"
  have "st_callers two_callers 0 = Fetching ''a'' 0" by (simp add: two_callers_def)
  note s1 = step [OF two_callers_reachable fetched [OF this, of ?r]]
  note s2 = step [OF s1 settle [of _ 0 "''a''" 0 ?r rev 0]]
  note s3 = step [OF s2 close [of _ 0 "''a''" 0 ?r]]
  show ?thesis by (rule exI, rule conjI, rule s3) simp_all
qed

theorem answers_are_genuine_witness:
  "\<exists>s. reachable (new_panel_cache 30 10 5) s
     \<and> st_callers s 0 = Finished ''a'' (Answer (Inl Not_Found))
     \<and> (''a'', Inl Not_Found) \<in> set (st_log s) \<and> length (pc_entries (st_cache s)) \<le> 5"
proof -
  from finished_reachable obtain s where s: "reachable (new_panel_cache 30 10 5) s"
    "st_callers s 0 = Finished ''a'' (Answer (Inl Not_Found))" by blast
  from answers_are_genuine [OF s(1), of 0 "''a''" "Inl Not_Found"] s show ?thesis by auto
qed

section \<open>The cache as its clients see it\<close>

definition pc_touch :: "panel_cache \<Rightarrow> time \<Rightarrow> string \<Rightarrow> panel_cache" where
  "pc_touch c t k = c"

definition pc_keeps :: "duration \<Rightarrow> duration \<Rightarrow> answer \<Rightarrow> bool" where
  "pc_keeps ttl neg r \<longleftrightarrow>
    (case answer_ttl (new_panel_cache ttl neg 0) r of None \<Rightarrow> False | Some d \<Rightarrow> 0 < d)"

definition pc_cfg :: "duration \<Rightarrow> duration \<Rightarrow> panel_cache \<Rightarrow> bool" where
  "pc_cfg ttl neg c \<longleftrightarrow> pc_ttl c = ttl \<and> pc_negative_ttl c = neg \<and> gomap_ok (pc_entries c)"

lemma pc_keeps_cfg:
  "pc_cfg ttl neg c \<Longrightarrow>
    pc_keeps ttl neg r \<longleftrightarrow> (case answer_ttl c r of None \<Rightarrow> False | Some d \<Rightarrow> 0 < d)"
  by (auto simp: pc_keeps_def pc_cfg_def answer_ttl_def new_panel_cache_def
      split: sum.split panel_error.split)

lemma gomap_ok_evict: "gomap_ok (pc_entries c) \<Longrightarrow> gomap_ok (pc_entries (pc_evict ord t c))"
  by (simp add: pc_evict_def Let_def drop_live_ok drop_expired_ok)

lemma evict_map_of:
  assumes "gomap_ok (pc_entries c)" "map_of (pc_entries (pc_evict ord t c)) k = Some e"
  shows "map_of (pc_entries c) k = Some e"
  using assms gomap_ok_evict [OF assms(1), of ord t] evict_sub [of ord t c]
  by (metis gomap_ok_map_of subsetD)

text \<open>An answer is fresh until the time to live for its kind has passed.\<close>

definition pc_fresh :: "duration \<Rightarrow> duration \<Rightarrow> answer \<Rightarrow> time \<Rightarrow> time \<Rightarrow> bool" where
  "pc_fresh ttl neg r t t' \<longleftrightarrow> t' < t + (case r of Inr _ \<Rightarrow> ttl | Inl _ \<Rightarrow> neg)"

lemma pc_fresh_ttl:
  "pc_cfg ttl neg c \<Longrightarrow> answer_ttl c r = Some d \<Longrightarrow> pc_fresh ttl neg r t t' \<longleftrightarrow> t' < t + d"
  by (auto simp: pc_fresh_def pc_cfg_def answer_ttl_def split: sum.splits panel_error.splits)

interpretation panel: expiring_cache "new_panel_cache ttl neg m" pc_lookup pc_touch pc_store
  "pc_keeps ttl neg" "pc_fresh ttl neg" "pc_cfg ttl neg"
  for ttl neg m
proof unfold_locales
  show "pc_lookup (new_panel_cache ttl neg m) t k = None" for t k
    by (simp add: new_panel_cache_def lookup_empty)
  show "pc_cfg ttl neg (new_panel_cache ttl neg m)"
    by (simp add: pc_cfg_def new_panel_cache_def)
  show "pc_cfg ttl neg (pc_store ord s t k v)" if "pc_cfg ttl neg s" for ord s t k v
    using that by (auto simp: pc_cfg_def pc_store_def Let_def gomap_ok_evict split: option.split)
  show "if k' = k \<and> pc_keeps ttl neg v then w = v \<and> pc_fresh ttl neg v t t' else pc_lookup s t' k' = Some w"
    if cfg: "pc_cfg ttl neg s" and found: "pc_lookup (pc_store ord s t k v) t' k' = Some w"
    for ord s t k v t' k' w
  proof (cases "pc_keeps ttl neg v")
    case True
    then obtain d where d: "answer_ttl s v = Some d" "0 < d"
      using pc_keeps_cfg [OF cfg] by (auto split: option.splits)
    show ?thesis
    proof (cases "k' = k")
      case True
      with found d \<open>pc_keeps ttl neg v\<close> show ?thesis
        by (simp add: pc_store_def pc_lookup_def Let_def pc_fresh_ttl [OF cfg] split: if_splits)
    next
      case False
      with found d have "pc_lookup (pc_evict ord t s) t' k' = Some w"
        by (simp add: pc_store_def pc_lookup_def Let_def)
      with False evict_map_of [of s ord t k'] cfg show ?thesis
        by (auto simp: pc_lookup_def pc_cfg_def split: option.splits if_splits)
    qed
  next
    case False
    then have "pc_store ord s t k v = s"
      using pc_keeps_cfg [OF cfg] by (auto simp: pc_store_def split: option.splits)
    with found False show ?thesis by simp
  qed
qed (simp_all add: pc_touch_def)

text \<open>Whatever was looked up, stored and evicted before, a cached answer is the last cacheable one
  stored for its key, and it has not outlived the time to live for its kind.\<close>

theorem cached_answer_is_last:
  "pc_lookup (fold (run_event pc_touch pc_store) evs (new_panel_cache ttl neg m)) t k = Some r
   \<Longrightarrow> \<exists>t0. last_kept (pc_keeps ttl neg) evs k = Some (t0, r)
     \<and> t < t0 + (case r of Inr _ \<Rightarrow> ttl | Inl _ \<Rightarrow> neg)"
  by (drule panel.look_history) (simp add: pc_fresh_def)

theorem cached_answer_is_last_witness:
  "\<exists>t0. last_kept (pc_keeps 30 10) [(rev :: (string, panel_entry) iter_order, 0, ''a'', Some (Inl Not_Found)),
      (id, 1, ''a'', Some (Inl Bad_Answer))] ''a''
    = Some (t0, Inl Not_Found) \<and> 2 < t0 + 10"
  using cached_answer_is_last [where t = 2 and m = 5 and k = "''a''" and ttl = 30 and neg = 10 and r = "Inl Not_Found"
      and evs = "[(rev :: (string, panel_entry) iter_order, 0, ''a'', Some (Inl Not_Found)),
        (id, 1, ''a'', Some (Inl Bad_Answer))]"]
  by (simp add: pc_store_def pc_lookup_def answer_ttl_def pc_evict_def new_panel_cache_def)

end
