(* ===== verification/Subcache.thy ===== *)
theory Subcache
  imports Go_Http Cache_Laws
begin

text \<open>
  File \<open>internal/subcache/subcache.go\<close>: the fallback cache of whole subscription responses.  The
  clock is read once per operation.  Ranging over the entries happens in an order given as an
  argument; the mutex makes each operation one step.  Sizes are those of data in memory, far
  below the range of an int64.
\<close>

record entry =
  ent_status :: nat
  ent_header :: header
  ent_body :: string
  stored_at :: time

definition entry_size :: "entry \<Rightarrow> int" where
  "entry_size e =
    int (length (ent_body e))
    + sum_list (map (\<lambda>(k, vs). int (length k) + sum_list (map (\<lambda>v. int (length v)) vs)) (ent_header e))"

record sub_cache =
  sub_ttl :: duration
  max_bytes :: int
  max_body :: int
  sub_entries :: "(string, entry) gomap"
  sub_bytes :: int

definition new_sub_cache :: "duration \<Rightarrow> int \<Rightarrow> int \<Rightarrow> sub_cache" where
  "new_sub_cache t mb mbody =
    \<lparr>sub_ttl = t, max_bytes = mb, max_body = mbody, sub_entries = [], sub_bytes = 0\<rparr>"

definition cache_key :: "string \<Rightarrow> string \<Rightarrow> string \<Rightarrow> string \<Rightarrow> string" where
  "cache_key short_uuid client_type user_agent accept_encoding =
    short_uuid @ CHR 0x00 # client_type @ CHR 0x00 # user_agent @ CHR 0x00 # accept_encoding"

definition remove_locked :: "string \<Rightarrow> sub_cache \<Rightarrow> sub_cache" where
  "remove_locked key c =
    (case map_of (sub_entries c) key of
       None \<Rightarrow> c
     | Some e \<Rightarrow> c\<lparr>sub_bytes := sub_bytes c - entry_size e,
                   sub_entries := AList.delete key (sub_entries c)\<rparr>)"

definition sub_expired :: "sub_cache \<Rightarrow> time \<Rightarrow> entry \<Rightarrow> bool" where
  "sub_expired c t e \<longleftrightarrow> max int64_min (min int64_max (t - stored_at e)) > sub_ttl c"

definition sub_get :: "sub_cache \<Rightarrow> time \<Rightarrow> string \<Rightarrow> entry option \<times> sub_cache" where
  "sub_get c t key =
    (case map_of (sub_entries c) key of
       None \<Rightarrow> (None, c)
     | Some e \<Rightarrow> if sub_expired c t e then (None, remove_locked key c) else (Some e, c))"

text \<open>The first loop of \<open>evictLocked\<close>; the flag says whether it returned early.\<close>

fun evict_expired :: "time \<Rightarrow> (string \<times> entry) list \<Rightarrow> sub_cache \<Rightarrow> bool \<times> sub_cache" where
  "evict_expired t [] c = (False, c)"
| "evict_expired t ((key, e) # rest) c =
    (if sub_bytes c \<le> max_bytes c then (True, c)
     else evict_expired t rest (if sub_expired c t e then remove_locked key c else c))"

definition pick_oldest :: "(string \<times> entry) list \<Rightarrow> string \<times> time" where
  "pick_oldest es =
    fold (\<lambda>(key, e) (old_key, oldest).
      if old_key = [] \<or> stored_at e < oldest then (key, stored_at e) else (old_key, oldest))
      es ([], 0)"

text \<open>The second loop; each round removes an entry, so as many rounds as there are entries do.\<close>

fun evict_oldest :: "(string, entry) iter_order \<Rightarrow> nat \<Rightarrow> sub_cache \<Rightarrow> sub_cache" where
  "evict_oldest ord 0 c = c"
| "evict_oldest ord (Suc n) c =
    (if sub_bytes c > max_bytes c \<and> sub_entries c \<noteq> []
     then evict_oldest ord n (remove_locked (fst (pick_oldest (ord (sub_entries c)))) c)
     else c)"

definition evict_locked :: "(string, entry) iter_order \<Rightarrow> time \<Rightarrow> sub_cache \<Rightarrow> sub_cache" where
  "evict_locked ord t c =
    (if max_bytes c \<le> 0 then c
     else
       (case evict_expired t (ord (sub_entries c)) c of
          (True, c') \<Rightarrow> c'
        | (False, c') \<Rightarrow> evict_oldest ord (length (sub_entries c')) c'))"

definition sub_put ::
    "(string, entry) iter_order \<Rightarrow> sub_cache \<Rightarrow> time \<Rightarrow> string \<Rightarrow> entry \<Rightarrow> sub_cache" where
  "sub_put ord c t key e =
    (if int (length (ent_body e)) > max_body c then c
     else
       (let e = e\<lparr>stored_at := t\<rparr>;
            c = remove_locked key c;
            c = c\<lparr>sub_entries := AList.update key e (sub_entries c),
                  sub_bytes := sub_bytes c + entry_size e\<rparr>
        in evict_locked ord t c))"

definition sub_stats :: "sub_cache \<Rightarrow> nat \<times> int" where
  "sub_stats c = (length (sub_entries c), sub_bytes c)"

section \<open>The invariant\<close>

text \<open>Keys are distinct, the byte count is that of the entries, and no body is over the limit.\<close>

definition sub_ok :: "sub_cache \<Rightarrow> bool" where
  "sub_ok c \<longleftrightarrow>
    gomap_ok (sub_entries c)
    \<and> sub_bytes c = sum_list (map (entry_size \<circ> snd) (sub_entries c))
    \<and> (\<forall>(_, e) \<in> set (sub_entries c). int (length (ent_body e)) \<le> max_body c)"

lemma entry_size_nonneg: "0 \<le> entry_size e"
  by (auto simp: entry_size_def intro!: add_nonneg_nonneg sum_list_nonneg)

lemma remove_config [simp]:
  "sub_ttl (remove_locked k c) = sub_ttl c" "max_bytes (remove_locked k c) = max_bytes c"
  "max_body (remove_locked k c) = max_body c"
  by (simp_all add: remove_locked_def split: option.split)

lemma remove_entries: "sub_entries (remove_locked k c) = AList.delete k (sub_entries c)"
  by (auto simp: remove_locked_def delete_notin map_of_eq_None_iff split: option.split)

lemma remove_ok [inv_intros]:
  assumes "sub_ok c" shows "sub_ok (remove_locked k c)"
proof (cases "map_of (sub_entries c) k")
  case (Some e)
  with assms sum_list_delete [of "sub_entries c" k e "entry_size \<circ> snd"] show ?thesis
    by (auto simp: sub_ok_def remove_locked_def dest: subsetD [OF set_delete_subset])
qed (use assms in \<open>simp add: remove_locked_def\<close>)

lemma evict_expired_ok [inv_intros]:
  "sub_ok c \<Longrightarrow> sub_ok (snd (evict_expired t es c))"
  by (induction t es c rule: evict_expired.induct) (simp_all add: remove_ok)

lemma evict_oldest_ok [inv_intros]: "sub_ok c \<Longrightarrow> sub_ok (evict_oldest ord n c)"
  by (induction ord n c rule: evict_oldest.induct) (auto intro: inv_intros)

lemma evict_expired_config [simp]:
  "sub_ttl (snd (evict_expired t es c)) = sub_ttl c"
  "max_bytes (snd (evict_expired t es c)) = max_bytes c"
  "max_body (snd (evict_expired t es c)) = max_body c"
  by (induction t es c rule: evict_expired.induct) auto

lemma evict_oldest_config [simp]:
  "sub_ttl (evict_oldest ord n c) = sub_ttl c" "max_bytes (evict_oldest ord n c) = max_bytes c"
  "max_body (evict_oldest ord n c) = max_body c"
  by (induction ord n c rule: evict_oldest.induct) auto

lemma evict_locked_cases:
  obtains (off) "max_bytes c \<le> 0" "evict_locked ord t c = c"
    | (early) "0 < max_bytes c" "fst (evict_expired t (ord (sub_entries c)) c)"
      "evict_locked ord t c = snd (evict_expired t (ord (sub_entries c)) c)"
    | (late) c' where "0 < max_bytes c" "c' = snd (evict_expired t (ord (sub_entries c)) c)"
      "evict_locked ord t c = evict_oldest ord (length (sub_entries c')) c'"
proof (cases "max_bytes c \<le> 0")
  case False
  obtain early c' where *: "evict_expired t (ord (sub_entries c)) c = (early, c')" by fastforce
  with False show ?thesis
    by (cases early) (auto simp: evict_locked_def intro: that(2,3))
qed (auto simp: evict_locked_def intro: that(1))

lemma evict_locked_ok [inv_intros]: "sub_ok c \<Longrightarrow> sub_ok (evict_locked ord t c)"
  by (rule evict_locked_cases [of c ord t]) (auto intro: inv_intros)

lemma evict_locked_config [simp]:
  "sub_ttl (evict_locked ord t c) = sub_ttl c" "max_bytes (evict_locked ord t c) = max_bytes c"
  "max_body (evict_locked ord t c) = max_body c"
  by (rule evict_locked_cases [of c ord t]; simp)+

lemma put_config [simp]:
  "sub_ttl (sub_put ord c t k e) = sub_ttl c" "max_bytes (sub_put ord c t k e) = max_bytes c"
  "max_body (sub_put ord c t k e) = max_body c"
  by (simp_all add: sub_put_def Let_def)

lemma sub_get_ok [inv_intros]: "sub_ok c \<Longrightarrow> sub_ok (snd (sub_get c t k))"
  by (auto simp: sub_get_def intro: inv_intros split: option.split)

lemma insert_ok:
  assumes "sub_ok c" "map_of (sub_entries c) k = None" "int (length (ent_body e)) \<le> max_body c"
  shows "sub_ok (c\<lparr>sub_entries := AList.update k e (sub_entries c),
                   sub_bytes := sub_bytes c + entry_size e\<rparr>)"
proof -
  have "k \<notin> set (map_keys (sub_entries c))" using assms(2) by (simp add: map_of_eq_None_iff)
  then show ?thesis using assms by (auto simp: sub_ok_def update_notin gomap_ok_def)
qed

lemma sub_put_ok [inv_intros]:
  assumes "sub_ok c" shows "sub_ok (sub_put ord c t k e)"
proof -
  have "map_of (sub_entries (remove_locked k c)) k = None" by (simp add: remove_entries)
  from insert_ok [OF remove_ok [OF assms] this, of "e\<lparr>stored_at := t\<rparr>"] assms show ?thesis
    by (simp add: sub_put_def Let_def evict_locked_ok)
qed

section \<open>The budget\<close>

lemma pick_oldest_in:
  assumes "es \<noteq> []"
  shows "fst (pick_oldest es) \<in> fst ` set es"
proof -
  have "fst (pick_oldest es) \<in> fst ` set es \<and> es \<noteq> []" using assms
    unfolding pick_oldest_def
    by (induction es rule: rev_nonempty_induct) (auto simp: split_beta)
  then show ?thesis ..
qed

lemma pick_oldest_least:
  assumes "es \<noteq> []" and "[] \<notin> fst ` set es"
  shows "\<exists>e. (fst (pick_oldest es), e) \<in> set es \<and> snd (pick_oldest es) = stored_at e
    \<and> (\<forall>(_, e') \<in> set es. stored_at e \<le> stored_at e')"
  using assms
proof (induction es rule: rev_nonempty_induct)
  case (single x)
  then show ?case by (cases x) (simp add: pick_oldest_def)
next
  case (snoc x xs)
  obtain k e where x: "x = (k, e)" by (cases x)
  from snoc obtain e0 where e0: "(fst (pick_oldest xs), e0) \<in> set xs"
    "snd (pick_oldest xs) = stored_at e0" "\<forall>(_, e') \<in> set xs. stored_at e0 \<le> stored_at e'"
    by auto
  from e0(1) snoc.prems have "fst (pick_oldest xs) \<noteq> []" by force
  then have step: "pick_oldest (xs @ [x]) = (if stored_at e < stored_at e0 then (k, stored_at e)
      else pick_oldest xs)"
    using e0(2) by (simp add: pick_oldest_def x split_beta prod_eq_iff)
  show ?case
  proof (cases "stored_at e < stored_at e0")
    case True
    with e0(3) show ?thesis by (intro exI [of _ e]) (auto simp: step [unfolded x] x)
  next
    case False
    with e0 show ?thesis by (intro exI [of _ e0]) (auto simp: step [unfolded x] x)
  qed
qed

lemma remove_shorter:
  "k \<in> fst ` set (sub_entries c) \<Longrightarrow> length (sub_entries (remove_locked k c)) < length (sub_entries c)"
  by (simp add: remove_entries length_delete_less)

lemma evict_oldest_budget:
  assumes "is_order ord" "length (sub_entries c) \<le> n"
  shows "sub_bytes (evict_oldest ord n c) \<le> max_bytes c \<or> sub_entries (evict_oldest ord n c) = []"
  using assms(2)
proof (induction n arbitrary: c)
  case (Suc n)
  let ?k = "fst (pick_oldest (ord (sub_entries c)))"
  show ?case
  proof (cases "sub_bytes c > max_bytes c \<and> sub_entries c \<noteq> []")
    case True
    then have "?k \<in> fst ` set (sub_entries c)"
      using pick_oldest_in [of "ord (sub_entries c)"] assms(1) by (simp add: order_Nil order_set)
    from remove_shorter [OF this] Suc.prems have "length (sub_entries (remove_locked ?k c)) \<le> n"
      by simp
    from Suc.IH [OF this] True show ?thesis by simp
  qed (auto simp: not_less)
qed simp

lemma evict_oldest_add: "evict_oldest ord (n + k) c = evict_oldest ord k (evict_oldest ord n c)"
proof (induction ord n c rule: evict_oldest.induct)
  case (2 ord n c)
  then show ?case by (cases k) auto
qed simp

text \<open>C21: The second loop of \<open>evictLocked\<close> ends: after as many rounds as there are entries, or fewer, its
  condition is false, and more rounds would change nothing.\<close>

theorem eviction_ends:
  assumes "is_order ord"
  shows "\<exists>n \<le> length (sub_entries c). \<forall>m \<ge> n.
    evict_oldest ord m c = evict_oldest ord n c
    \<and> (sub_bytes (evict_oldest ord m c) \<le> max_bytes c \<or> sub_entries (evict_oldest ord m c) = [])"
proof (intro exI [of _ "length (sub_entries c)"] conjI allI impI)
  fix m assume m: "length (sub_entries c) \<le> m"
  let ?rest = "evict_oldest ord (length (sub_entries c)) c"
  obtain k where k: "m = length (sub_entries c) + k" using le_Suc_ex [OF m] by blast
  have ended: "sub_bytes ?rest \<le> max_bytes ?rest \<or> sub_entries ?rest = []"
    using evict_oldest_budget [OF assms order_refl, of c] by simp
  then have "evict_oldest ord k ?rest = ?rest" by (cases k) auto
  with k show same: "evict_oldest ord m c = ?rest" by (simp add: evict_oldest_add)
  with ended show "sub_bytes (evict_oldest ord m c) \<le> max_bytes c \<or> sub_entries (evict_oldest ord m c) = []" by simp
qed simp

lemma evict_expired_early:
  "fst (evict_expired t es c) \<Longrightarrow> sub_bytes (snd (evict_expired t es c)) \<le> max_bytes c"
  by (induction t es c rule: evict_expired.induct) (auto split: if_splits)

lemma evict_locked_budget:
  assumes "sub_ok c" "is_order ord" "0 < max_bytes c"
  shows "sub_bytes (evict_locked ord t c) \<le> max_bytes c"
proof (rule evict_locked_cases [of c ord t])
  fix c' assume c': "c' = snd (evict_expired t (ord (sub_entries c)) c)"
    and "evict_locked ord t c = evict_oldest ord (length (sub_entries c')) c'"
  moreover have "sub_ok (evict_oldest ord (length (sub_entries c')) c')"
    using assms(1) c' by (simp add: evict_oldest_ok evict_expired_ok)
  moreover note evict_oldest_budget [OF assms(2), of c' "length (sub_entries c')"]
  ultimately show ?thesis using assms(3) by (auto simp: sub_ok_def)
qed (use assms in \<open>auto dest: evict_expired_early\<close>)

lemma sub_put_budget:
  assumes "sub_ok c" "is_order ord" "0 < max_bytes c" "sub_bytes c \<le> max_bytes c"
  shows "sub_bytes (sub_put ord c t k e) \<le> max_bytes c"
proof (cases "int (length (ent_body e)) > max_body c")
  case False
  have "map_of (sub_entries (remove_locked k c)) k = None" by (simp add: remove_entries)
  with False assms show ?thesis
    using evict_locked_budget [OF insert_ok [where c = "remove_locked k c" and k = k
        and e = "e\<lparr>stored_at := t\<rparr>"], of ord t]
    by (simp add: sub_put_def Let_def remove_ok)
qed (use assms in \<open>simp add: sub_put_def\<close>)

lemma new_cache_ok: "sub_ok (new_sub_cache ttl mb mbody)"
  by (simp add: new_sub_cache_def sub_ok_def)

text \<open>The cache keeps its books and its budget: look-ups and stores leave the byte count equal to
  the size of what is held, a store ends within the budget (when there is one), in whatever order
  the entries are visited, and no body over the limit is ever held.\<close>

theorem sub_cache_budget:
  "sub_ok (new_sub_cache ttl mb mbody)
   \<and> (sub_ok c \<longrightarrow> sub_ok (snd (sub_get c t k)) \<and> sub_ok (sub_put ord c t k e))
   \<and> (sub_ok c \<and> is_order ord \<and> 0 < max_bytes c \<and> sub_bytes c \<le> max_bytes c \<longrightarrow>
        sub_bytes (sub_put ord c t k e) \<le> max_bytes c)"
  using new_cache_ok sub_get_ok sub_put_ok sub_put_budget by blast

section \<open>What a look-up finds\<close>

lemma evict_keeps:
  "map_of (sub_entries (evict_locked ord t c)) k = Some e \<Longrightarrow> map_of (sub_entries c) k = Some e"
proof -
  have 1: "map_of (sub_entries (snd (evict_expired t es c))) k = Some e \<Longrightarrow> map_of (sub_entries c) k = Some e"
    for es c
    by (induction t es c rule: evict_expired.induct) (auto simp: remove_entries split: if_splits)
  have 2: "map_of (sub_entries (evict_oldest ord n c)) k = Some e \<Longrightarrow> map_of (sub_entries c) k = Some e"
    for n c
    by (induction ord n c rule: evict_oldest.induct) (auto simp: remove_entries split: if_splits)
  assume "map_of (sub_entries (evict_locked ord t c)) k = Some e"
  then show ?thesis by (rule_tac evict_locked_cases [of c ord t]) (auto dest: 1 2)
qed

text \<open>
  How long an entry stays: the oldest go first, so an entry is safe from eviction while what is as
  young as it, together with the \<open>n\<close> bytes still to be stored, fits the budget.
\<close>

definition young :: "time \<Rightarrow> sub_cache \<Rightarrow> int" where
  "young t c = sum_list (map (\<lambda>(_, e). if t \<le> stored_at e then entry_size e else 0) (sub_entries c))"

definition lasts :: "sub_cache \<Rightarrow> string \<Rightarrow> entry \<Rightarrow> int \<Rightarrow> bool" where
  "lasts c k e n \<longleftrightarrow>
    sub_ok c \<and> [] \<notin> fst ` set (sub_entries c) \<and> map_of (sub_entries c) k = Some e
    \<and> (max_bytes c \<le> 0 \<or> young (stored_at e) c + n \<le> max_bytes c)"

lemma sum_delete_le:
  fixes f :: "'k \<times> 'v \<Rightarrow> int"
  shows "(\<And>x. 0 \<le> f x) \<Longrightarrow> sum_list (map f (AList.delete k m)) \<le> sum_list (map f m)"
  by (induction m) (auto simp: AList.delete_eq add_increasing)

lemma young_remove: "young t (remove_locked k c) \<le> young t c"
  unfolding young_def remove_entries by (rule sum_delete_le) (simp add: entry_size_nonneg split: prod.split)

lemma young_all:
  assumes "sub_ok c" "\<forall>(_, e) \<in> set (sub_entries c). t \<le> stored_at e"
  shows "young t c = sub_bytes c"
proof -
  have "map (\<lambda>(_, e). if t \<le> stored_at e then entry_size e else 0) (sub_entries c)
      = map (entry_size \<circ> snd) (sub_entries c)"
    using assms(2) by (intro map_cong) auto
  with assms(1) show ?thesis unfolding young_def sub_ok_def by (simp only: )
qed

lemma lasts_remove:
  assumes "lasts c k e n" "k' \<noteq> k" shows "lasts (remove_locked k' c) k e n"
  using assms young_remove [of "stored_at e" k' c] set_delete_subset [of k' "sub_entries c"]
  by (auto simp: lasts_def remove_entries remove_ok)

lemma lasts_evict_expired:
  assumes "lasts c k e n" "\<not> sub_expired c t e" "\<forall>(k', e') \<in> set es. k' = k \<longrightarrow> e' = e"
  shows "lasts (snd (evict_expired t es c)) k e n"
  using assms
proof (induction t es c rule: evict_expired.induct)
  case (2 t key x rest c)
  then show ?case
    by (cases "key = k") (auto simp: lasts_remove sub_expired_def)
qed simp

lemma lasts_evict_oldest:
  assumes "is_order ord" "0 \<le> n" "0 < max_bytes c" "lasts c k e n"
  shows "lasts (evict_oldest ord m c) k e n"
  using assms(3,4)
proof (induction m arbitrary: c)
  case (Suc m)
  let ?es = "ord (sub_entries c)"
  show ?case
  proof (cases "sub_bytes c > max_bytes c \<and> sub_entries c \<noteq> []")
    case True
    have ok: "sub_ok c" "gomap_ok (sub_entries c)" using Suc.prems by (auto simp: lasts_def sub_ok_def)
    have "fst (pick_oldest ?es) \<noteq> k"
    proof
      assume k: "fst (pick_oldest ?es) = k"
      have "?es \<noteq> []" "[] \<notin> fst ` set ?es"
        using True Suc.prems assms(1) by (auto simp: lasts_def order_Nil order_set)
      from pick_oldest_least [OF this] k assms(1) obtain e0 where
        "(k, e0) \<in> set (sub_entries c)" "\<forall>(_, e') \<in> set (sub_entries c). stored_at e0 \<le> stored_at e'"
        by (auto simp: order_set)
      moreover from this(1) Suc.prems ok(2) have "e0 = e" by (simp add: lasts_def gomap_ok_map_of)
      ultimately have "young (stored_at e) c = sub_bytes c" using ok(1) by (simp add: young_all)
      with Suc.prems True assms(2) show False by (simp add: lasts_def)
    qed
    from Suc.IH [OF _ lasts_remove [OF Suc.prems(2) this]] Suc.prems(1) True show ?thesis by simp
  qed (use Suc.prems in \<open>auto simp: not_less\<close>)
qed simp

lemma lasts_evict:
  assumes "lasts c k e n" "0 \<le> n" "is_order ord" "\<not> sub_expired c t e"
  shows "lasts (evict_locked ord t c) k e n"
proof -
  define c' where "c' = snd (evict_expired t (ord (sub_entries c)) c)"
  have "\<forall>(k', e') \<in> set (ord (sub_entries c)). k' = k \<longrightarrow> e' = e"
    using assms(1,3) by (auto simp: order_set lasts_def sub_ok_def gomap_ok_map_of)
  with assms have c': "lasts c' k e n" unfolding c'_def by (intro lasts_evict_expired)
  have "max_bytes c' = max_bytes c" by (simp add: c'_def)
  with lasts_evict_oldest [OF assms(3,2) _ c'] assms(1) c' show ?thesis
    by (cases ord t c rule: evict_locked_cases) (simp_all add: c'_def)
qed

text \<open>What \<open>sub_put\<close> does before it evicts.\<close>

definition inserted :: "string \<Rightarrow> entry \<Rightarrow> sub_cache \<Rightarrow> sub_cache" where
  "inserted k e c =
    (let c = remove_locked k c
     in c\<lparr>sub_entries := AList.update k e (sub_entries c), sub_bytes := sub_bytes c + entry_size e\<rparr>)"

lemma sub_put_inserted:
  "sub_put ord c t k e =
    (if int (length (ent_body e)) > max_body c then c
     else evict_locked ord t (inserted k (e\<lparr>stored_at := t\<rparr>) c))"
  by (simp add: sub_put_def inserted_def Let_def)

lemma inserted_entries: "sub_entries (inserted k e c) = sub_entries (remove_locked k c) @ [(k, e)]"
proof -
  have "k \<notin> set (map_keys (sub_entries (remove_locked k c)))"
    by (simp add: remove_entries flip: map_of_eq_None_iff)
  then show ?thesis by (simp add: inserted_def Let_def update_notin)
qed

lemma inserted_config [simp]:
  "sub_ttl (inserted k e c) = sub_ttl c" "max_bytes (inserted k e c) = max_bytes c"
  "max_body (inserted k e c) = max_body c"
  by (simp_all add: inserted_def Let_def)

lemma inserted_lookup:
  "map_of (sub_entries (inserted k e c)) k' = (if k' = k then Some e else map_of (sub_entries c) k')"
  by (simp add: inserted_def Let_def remove_entries)

lemma inserted_ok:
  "sub_ok c \<Longrightarrow> int (length (ent_body e)) \<le> max_body c \<Longrightarrow> sub_ok (inserted k e c)"
  unfolding inserted_def Let_def by (intro insert_ok) (simp_all add: remove_ok remove_entries)

lemma inserted_keys:
  "k \<noteq> [] \<Longrightarrow> [] \<notin> fst ` set (sub_entries c) \<Longrightarrow> [] \<notin> fst ` set (sub_entries (inserted k e c))"
  using set_delete_subset [of k "sub_entries c"] by (auto simp: inserted_entries remove_entries)

lemma young_inserted:
  "young t (inserted k e c) = young t (remove_locked k c) + (if t \<le> stored_at e then entry_size e else 0)"
  by (simp add: young_def inserted_entries)

lemma expired_ttl: "sub_ttl c = sub_ttl c' \<Longrightarrow> sub_expired c t e = sub_expired c' t e"
  by (simp add: sub_expired_def)

lemma stamped_size [simp]: "entry_size (e\<lparr>stored_at := t\<rparr>) = entry_size e"
  by (simp add: entry_size_def)

text \<open>A store under another key uses up its own size, no more.\<close>

lemma lasts_put_other:
  assumes "lasts c k e (n + entry_size x)" "k' \<noteq> k" "k' \<noteq> []" "0 \<le> n" "is_order ord"
    and "\<not> sub_expired c t e"
  shows "lasts (sub_put ord c t k' x) k e n"
proof (cases "int (length (ent_body x)) > max_body c")
  case True
  with assms(1) entry_size_nonneg [of x] show ?thesis by (auto simp: sub_put_inserted lasts_def)
next
  case False
  let ?d = "inserted k' (x\<lparr>stored_at := t\<rparr>) c"
  have "young (stored_at e) ?d \<le> young (stored_at e) c + entry_size x"
    using young_remove [of "stored_at e" k' c] entry_size_nonneg [of x] by (simp add: young_inserted)
  with assms(1-3) False have "lasts ?d k e n"
    by (auto simp: lasts_def inserted_lookup inserted_ok inserted_keys)
  with assms(4-6) False show ?thesis
    by (simp add: sub_put_inserted lasts_evict expired_ttl [of ?d c])
qed

text \<open>An entry just stored, with every other one strictly older, has the whole budget for itself.\<close>

lemma lasts_put:
  assumes "sub_ok c" and "is_order ord" and "k \<noteq> []" and "[] \<notin> fst ` set (sub_entries c)"
    and "\<forall>(_, e') \<in> set (sub_entries c). stored_at e' < t"
    and "int (length (ent_body e)) \<le> max_body c"
    and "max_bytes c \<le> 0 \<or> entry_size e + n \<le> max_bytes c" and "0 \<le> n" and "0 \<le> sub_ttl c"
  shows "lasts (sub_put ord c t k e) k (e\<lparr>stored_at := t\<rparr>) n"
proof -
  let ?e = "e\<lparr>stored_at := t\<rparr>" and ?d = "inserted k (e\<lparr>stored_at := t\<rparr>) c"
  have "set (sub_entries (remove_locked k c)) \<subseteq> set (sub_entries c)"
    by (simp add: remove_entries set_delete_subset)
  with assms(5) have "\<forall>(_, e') \<in> set (sub_entries (remove_locked k c)). stored_at e' < t" by blast
  then have "map (\<lambda>(_, e). if t \<le> stored_at e then entry_size e else 0) (sub_entries (remove_locked k c))
      = map (\<lambda>_. 0) (sub_entries (remove_locked k c))"
    by (intro map_cong) auto
  then have "young t (remove_locked k c) = 0" by (simp add: young_def del: map_eq_conv)
  with assms have "lasts ?d k ?e n"
    by (simp add: lasts_def inserted_lookup inserted_ok inserted_keys young_inserted)
  moreover have "\<not> sub_expired ?d t ?e" using assms(9) by (simp add: sub_expired_def int64_min_def)
  ultimately show ?thesis using assms(2,6,8) by (simp add: sub_put_inserted lasts_evict)
qed

lemma lasts_found: "lasts c k e n \<Longrightarrow> \<not> sub_expired c t e \<Longrightarrow> fst (sub_get c t k) = Some e"
  by (simp add: lasts_def sub_get_def)

lemma in_time: "0 \<le> sub_ttl c \<Longrightarrow> t - stored_at e \<le> sub_ttl c \<Longrightarrow> \<not> sub_expired c t e"
  by (auto simp: sub_expired_def int64_min_def)

text \<open>A response just stored can be replayed until it expires: with every older entry strictly
  older, no eviction touches it as long as it fits the limits by itself.\<close>

theorem put_then_get:
  assumes "sub_ok c" and "is_order ord" and "k \<noteq> []" and "[] \<notin> fst ` set (sub_entries c)"
    and "\<forall>(_, e') \<in> set (sub_entries c). stored_at e' < t"
    and "int (length (ent_body e)) \<le> max_body c"
    and "max_bytes c \<le> 0 \<or> entry_size e \<le> max_bytes c"
    and "0 \<le> sub_ttl c" and "t' - t \<le> sub_ttl c"
  shows "fst (sub_get (sub_put ord c t k e) t' k) = Some (e\<lparr>stored_at := t\<rparr>)"
proof -
  have "lasts (sub_put ord c t k e) k (e\<lparr>stored_at := t\<rparr>) 0"
    using assms(1-8) by (intro lasts_put) simp_all
  then show ?thesis by (rule lasts_found) (use assms(8,9) in \<open>simp add: in_time\<close>)
qed

definition sample_entry :: entry where
  "sample_entry = \<lparr>ent_status = 200, ent_header = [(''Etag'', [''x''])], ent_body = ''body'', stored_at = 0\<rparr>"

theorem eviction_ends_witness:
  "\<exists>n \<le> 1. \<forall>m \<ge> n. evict_oldest rev m \<lparr>sub_ttl = 9, max_bytes = 2, max_body = 9,
      sub_entries = [(''k'', sample_entry)], sub_bytes = 4\<rparr>
    = evict_oldest rev n \<lparr>sub_ttl = 9, max_bytes = 2, max_body = 9, sub_entries = [(''k'', sample_entry)], sub_bytes = 4\<rparr>"
  using eviction_ends [of rev "\<lparr>sub_ttl = 9, max_bytes = 2, max_body = 9, sub_entries = [(''k'', sample_entry)],
      sub_bytes = 4\<rparr>"] by auto

theorem put_then_get_witness:
  "fst (sub_get (sub_put rev (new_sub_cache 100 50 10) 3 ''k'' sample_entry) 80 ''k'')
    = Some (sample_entry\<lparr>stored_at := 3\<rparr>)"
  by (rule put_then_get)
    (simp_all add: new_sub_cache_def sub_ok_def sample_entry_def entry_size_def)

theorem sub_cache_budget_witness:
  "sub_bytes (sub_put rev (new_sub_cache 100 50 10) 3 ''k'' sample_entry) \<le> 50"
  using sub_cache_budget [where ttl = 100 and mb = 50 and mbody = 10 and ord = rev
      and c = "new_sub_cache 100 50 10" and k = "''k''" and t = 3 and e = sample_entry]
  by (simp add: new_sub_cache_def)

section \<open>Keys\<close>

lemma first_separator:
  "x \<notin> set b \<Longrightarrow> x \<notin> set b' \<Longrightarrow> b @ x # a = b' @ x # a' \<longleftrightarrow> b = b' \<and> a = a'"
proof (induction b arbitrary: b')
  case Nil
  then show ?case by (cases b') auto
next
  case (Cons y b)
  then show ?case by (cases b') auto
qed

lemma last_separator:
  assumes "x \<notin> set b" "x \<notin> set b'" "a @ x # b = a' @ x # b'"
  shows "a = a' \<and> b = b'"
proof -
  have "rev b @ x # rev a = rev b' @ x # rev a'" using arg_cong [OF assms(3), of rev] by simp
  then have "rev b = rev b' \<and> rev a = rev a'"
    using assms(1,2) by (subst (asm) first_separator) simp_all
  then show ?thesis by simp
qed

lemma cache_key_parts:
  assumes "CHR 0x00 \<notin> set ct" "CHR 0x00 \<notin> set ua" "CHR 0x00 \<notin> set ae"
    and "CHR 0x00 \<notin> set ct'" "CHR 0x00 \<notin> set ua'" "CHR 0x00 \<notin> set ae'"
  shows "cache_key u ct ua ae = cache_key u' ct' ua' ae' \<longleftrightarrow>
    u = u' \<and> ct = ct' \<and> ua = ua' \<and> ae = ae'"
proof
  assume "cache_key u ct ua ae = cache_key u' ct' ua' ae'"
  then have 1: "(u @ CHR 0x00 # ct @ CHR 0x00 # ua) @ CHR 0x00 # ae
      = (u' @ CHR 0x00 # ct' @ CHR 0x00 # ua') @ CHR 0x00 # ae'" by (simp add: cache_key_def)
  from last_separator [OF assms(3,6) 1] have ae: "ae = ae'"
    and 2: "(u @ CHR 0x00 # ct) @ CHR 0x00 # ua = (u' @ CHR 0x00 # ct') @ CHR 0x00 # ua'" by auto
  from last_separator [OF assms(2,5) 2] last_separator [OF assms(1,4), of u u'] ae
  show "u = u' \<and> ct = ct' \<and> ua = ua' \<and> ae = ae'" by auto
qed simp

text \<open>Two requests share an entry only if they agree in all four parts of the key: no short UUID,
  not even one with a NUL byte in it, can reach another request's entry.\<close>

theorem cache_key_injective:
  assumes "CHR 0x00 \<notin> set ct" "CHR 0x00 \<notin> set ua" "CHR 0x00 \<notin> set ae"
    and "CHR 0x00 \<notin> set ct'" "CHR 0x00 \<notin> set ua'" "CHR 0x00 \<notin> set ae'"
  shows "cache_key u ct ua ae = cache_key u' ct' ua' ae' \<longleftrightarrow>
    u = u' \<and> ct = ct' \<and> ua = ua' \<and> ae = ae'"
  using assms by (rule cache_key_parts)

theorem cache_key_injective_witness:
  "cache_key ''a'' [] ''Happ'' ''gzip'' \<noteq> cache_key ''a'' ''json'' ''Happ'' ''gzip''"
  using cache_key_injective [of "''''" "''Happ''" "''gzip''" "''json''" "''Happ''" "''gzip''" "''a''" "''a''"]
  by simp

section \<open>The cache as its clients see it\<close>

type_synonym response_parts = "nat \<times> header \<times> string"

definition payload :: "entry \<Rightarrow> response_parts" where
  "payload e = (ent_status e, ent_header e, ent_body e)"

definition sub_look :: "sub_cache \<Rightarrow> time \<Rightarrow> string \<Rightarrow> response_parts option" where
  "sub_look c t k = map_option payload (fst (sub_get c t k))"

definition sub_touch :: "sub_cache \<Rightarrow> time \<Rightarrow> string \<Rightarrow> sub_cache" where
  "sub_touch c t k = snd (sub_get c t k)"

definition sub_store ::
    "(string, entry) iter_order \<Rightarrow> sub_cache \<Rightarrow> time \<Rightarrow> string \<Rightarrow> response_parts \<Rightarrow> sub_cache" where
  "sub_store ord c t k p =
    sub_put ord c t k
      \<lparr>ent_status = fst p, ent_header = fst (snd p), ent_body = snd (snd p), stored_at = 0\<rparr>"

lemma sub_get_Some:
  "fst (sub_get c t k) = Some e \<longleftrightarrow> map_of (sub_entries c) k = Some e \<and> \<not> sub_expired c t e"
  by (auto simp: sub_get_def split: option.split)

lemma sub_expired_ttl: "sub_ttl c = sub_ttl c' \<Longrightarrow> sub_expired c = sub_expired c'"
  by (simp add: sub_expired_def fun_eq_iff)

lemma sub_look_touch: "sub_look (sub_touch c t k) t' k' = Some w \<Longrightarrow> sub_look c t' k' = Some w"
  by (auto simp: sub_look_def sub_touch_def sub_get_def remove_entries sub_expired_def
      split: option.splits if_splits)

text \<open>
  An entry over a history: as long as nothing is stored under its key, the events come within its
  time to live and what they store fits the budget beside it, it stays.
\<close>

definition parts_size :: "response_parts \<Rightarrow> int" where
  "parts_size p =
    entry_size \<lparr>ent_status = fst p, ent_header = fst (snd p), ent_body = snd (snd p), stored_at = 0\<rparr>"

definition bytes_stored :: "('o, 'k, response_parts) cache_event list \<Rightarrow> int" where
  "bytes_stored evs = sum_list (map (\<lambda>(_, _, _, v). case v of None \<Rightarrow> 0 | Some p \<Rightarrow> parts_size p) evs)"

definition stored_keys :: "('o, 'k, 'v) cache_event list \<Rightarrow> 'k list" where
  "stored_keys evs = map (\<lambda>(_, _, k, _). k) (filter (\<lambda>(_, _, _, v). v \<noteq> None) evs)"

lemma parts_size_nonneg [simp]: "0 \<le> parts_size p"
  by (simp add: parts_size_def entry_size_nonneg)

lemma bytes_stored_simps [simp]:
  "bytes_stored [] = 0" "bytes_stored ((ord, t, k, None) # evs) = bytes_stored evs"
  "bytes_stored ((ord, t, k, Some p) # evs) = parts_size p + bytes_stored evs"
  by (simp_all add: bytes_stored_def)

lemma stored_keys_simps [simp]:
  "stored_keys [] = []" "stored_keys ((ord, t, k, None) # evs) = stored_keys evs"
  "stored_keys ((ord, t, k, Some v) # evs) = k # stored_keys evs"
  by (simp_all add: stored_keys_def)

lemma bytes_stored_nonneg [simp]: "0 \<le> bytes_stored evs"
  unfolding bytes_stored_def by (rule sum_list_nonneg) (auto split: option.split)

lemma lasts_touch:
  assumes "lasts c k e n" "\<not> sub_expired c t e"
  shows "lasts (sub_touch c t k') k e n"
proof (cases "k' = k")
  case True
  with assms show ?thesis by (simp add: sub_touch_def sub_get_def lasts_def)
next
  case False
  with assms lasts_remove show ?thesis by (simp add: sub_touch_def sub_get_def split: option.split)
qed

lemma lasts_event:
  assumes "lasts c k e (n + bytes_stored [ev])" "0 \<le> n" "k \<notin> set (stored_keys [ev])"
    and "is_order (fst ev)" "fst (snd (snd ev)) \<noteq> []" "\<not> sub_expired c (fst (snd ev)) e"
  shows "lasts (run_event sub_touch sub_store ev c) k e n"
proof -
  obtain ord t k' v where ev: "ev = (ord, t, k', v)" by (cases ev)
  show ?thesis
  proof (cases v)
    case None
    with assms ev show ?thesis by (simp add: lasts_touch)
  next
    case (Some p)
    with assms ev show ?thesis
      by (auto simp: sub_store_def parts_size_def intro!: lasts_put_other)
  qed
qed

lemma lasts_events:
  assumes "lasts c k e (n + bytes_stored evs)" "0 \<le> n" "0 \<le> sub_ttl c" "k \<notin> set (stored_keys evs)"
    and "\<forall>ev \<in> set evs. is_order (fst ev) \<and> fst (snd (snd ev)) \<noteq> [] \<and> fst (snd ev) - stored_at e \<le> sub_ttl c"
  shows "lasts (fold (run_event sub_touch sub_store) evs c) k e n"
  using assms
proof (induction evs arbitrary: c)
  case (Cons ev evs)
  obtain ord t k' v where ev: "ev = (ord, t, k', v)" by (cases ev)
  have split: "bytes_stored (ev # evs) = bytes_stored [ev] + bytes_stored evs"
    "set (stored_keys (ev # evs)) = set (stored_keys [ev]) \<union> set (stored_keys evs)"
    by (cases v; simp add: ev)+
  have ttl: "sub_ttl (run_event sub_touch sub_store ev c) = sub_ttl c"
    by (cases v) (simp_all add: ev sub_store_def sub_touch_def sub_get_def split: option.split)
  have "lasts (run_event sub_touch sub_store ev c) k e (n + bytes_stored evs)"
    using Cons.prems split by (intro lasts_event) (simp_all add: add_ac in_time)
  with Cons.prems split ttl show ?case by (auto intro!: Cons.IH)
qed simp

text \<open>The age of an entry as \<open>time.Sub\<close> gives it is within the time to live.\<close>

definition sub_fresh :: "duration \<Rightarrow> response_parts \<Rightarrow> time \<Rightarrow> time \<Rightarrow> bool" where
  "sub_fresh ttl p t t' \<longleftrightarrow> max int64_min (min int64_max (t' - t)) \<le> ttl"

lemma sub_look_put:
  assumes "sub_look (sub_store ord c t k p) t' k' = Some w"
  shows "if k' = k \<and> int (length (snd (snd p))) \<le> max_body c then w = p \<and> sub_fresh (sub_ttl c) p t t'
    else sub_look c t' k' = Some w"
proof (cases "int (length (snd (snd p))) \<le> max_body c")
  case True
  let ?e = "\<lparr>ent_status = fst p, ent_header = fst (snd p), ent_body = snd (snd p), stored_at = t\<rparr>"
  from assms obtain e where e: "w = payload e" "\<not> sub_expired c t' e"
    "map_of (sub_entries (sub_store ord c t k p)) k' = Some e"
    by (auto simp: sub_look_def sub_get_Some sub_store_def sub_expired_def)
  from e(3) True have "map_of ((sub_entries (remove_locked k c))) k' = Some e \<and> k' \<noteq> k \<or> k' = k \<and> e = ?e"
    by (auto simp: sub_store_def sub_put_def Let_def dest!: evict_keeps split: if_splits)
  with e(1,2) True show ?thesis
    by (auto simp: remove_entries sub_look_def sub_get_Some payload_def sub_fresh_def sub_expired_def split: if_splits)
next
  case False
  with assms show ?thesis by (simp add: sub_store_def sub_put_def)
qed

interpretation sub: expiring_cache "new_sub_cache ttl mb mbody" sub_look sub_touch sub_store
  "\<lambda>p. int (length (snd (snd p))) \<le> mbody" "sub_fresh ttl" "\<lambda>c. max_body c = mbody \<and> sub_ttl c = ttl"
  for ttl mb mbody
proof unfold_locales
  show "sub_look (new_sub_cache ttl mb mbody) t k = None" for t k
    by (simp add: sub_look_def sub_get_def new_sub_cache_def)
  show "max_body (new_sub_cache ttl mb mbody) = mbody \<and> sub_ttl (new_sub_cache ttl mb mbody) = ttl"
    by (simp add: new_sub_cache_def)
  show "max_body (sub_touch s t k) = mbody \<and> sub_ttl (sub_touch s t k) = ttl"
    if "max_body s = mbody \<and> sub_ttl s = ttl" for s t k
    using that by (simp add: sub_touch_def sub_get_def split: option.split)
  show "max_body (sub_store ord s t k v) = mbody \<and> sub_ttl (sub_store ord s t k v) = ttl"
    if "max_body s = mbody \<and> sub_ttl s = ttl" for ord s t k v
    using that by (simp add: sub_store_def)
  show "if k' = k \<and> int (length (snd (snd v))) \<le> mbody then w = v \<and> sub_fresh ttl v t t' else sub_look s t' k' = Some w"
    if "max_body s = mbody \<and> sub_ttl s = ttl" "sub_look (sub_store ord s t k v) t' k' = Some w" for ord s t k v t' k' w
    using sub_look_put [OF that(2)] that(1) by (auto split: if_splits)
qed (rule sub_look_touch)

text \<open>C22: A replayed response is the last one stored under its key that was small enough to keep, and
  it is not older than the time to live: no history of look-ups, stores and evictions makes the
  cache answer with anything else.\<close>

theorem replayed_response_is_last:
  "sub_look (fold (run_event sub_touch sub_store) evs (new_sub_cache ttl mb mbody)) t k = Some w
   \<Longrightarrow> \<exists>t0. last_kept (\<lambda>p. int (length (snd (snd p))) \<le> mbody) evs k = Some (t0, w)
     \<and> max int64_min (min int64_max (t - t0)) \<le> ttl"
  by (drule sub.look_history) (simp add: sub_fresh_def)

theorem replayed_response_is_last_witness:
  "\<exists>t0. last_kept (\<lambda>p. int (length (snd (snd p))) \<le> 3)
     [(rev :: (string, entry) iter_order, 0, ''k'', Some (200 :: nat, [] :: header, ''abc'')),
      (id, 1, ''k'', Some (200, [], ''long'')), (rev, 2, ''k'', None)] ''k''
    = Some (t0, 200, [], ''abc'') \<and> max int64_min (min int64_max (4 - t0)) \<le> 9"
  by (rule replayed_response_is_last [where mb = 0])
    code_simp

end
