(* ===== verification/Shuffle.thy ===== *)
theory Shuffle
  imports Config_Types
begin

text \<open>
  File \<open>internal/hosts/shuffle.go\<close>: which host goes where.  \<open>rand.Shuffle\<close> is written out; the random
  numbers it draws are a function of the group and of the step, and any numbers will do.
\<close>

record shuffler =
  sh_groups :: "regex list"
  sh_draw :: "nat \<Rightarrow> nat \<Rightarrow> nat"

definition shuffler_enabled :: "shuffler option \<Rightarrow> bool" where
  "shuffler_enabled s = (case s of None \<Rightarrow> False | Some s \<Rightarrow> sh_groups s \<noteq> [])"

datatype format = Format_Unknown | Format_Links | Format_Xray | Format_Singbox | Format_Clash

definition looks_like_clash :: "string \<Rightarrow> bool" where
  "looks_like_clash body \<longleftrightarrow>
    has_prefix body ''proxies:'' \<or> contains body (CHR 0x0A # ''proxies:'')"

definition sniff :: "string \<Rightarrow> format" where
  "sniff body =
    (case trim_space body of
       [] \<Rightarrow> Format_Unknown
     | c # _ \<Rightarrow>
         if c = CHR ''['' then Format_Xray
         else if c = CHR ''{'' then Format_Singbox
         else if looks_like_clash (trim_space body) then Format_Clash
         else Format_Links)"

definition format_for_client_type :: "string \<Rightarrow> format" where
  "format_for_client_type ct =
    (if ct \<in> {''json'', ''v2ray-json''} then Format_Xray
     else if ct = ''singbox'' then Format_Singbox
     else if ct \<in> {''clash'', ''mihomo'', ''stash''} then Format_Clash
     else Format_Links)"

section \<open>Assigning values to slots\<close>

text \<open>The loops \<open>for k, slot := range slots { xs[slot] = values[k] }\<close>.\<close>

fun assign :: "nat list \<Rightarrow> 'a list \<Rightarrow> 'a list \<Rightarrow> 'a list" where
  "assign (i # is) (v # vs) xs = assign is vs (xs[i := v])"
| "assign _ _ xs = xs"

lemma length_assign [simp]: "length (assign is vs xs) = length xs"
  by (induction "is" vs xs rule: assign.induct) auto

lemma nth_assign_other: "i \<notin> set is \<Longrightarrow> assign is vs xs ! i = xs ! i"
  by (induction "is" vs xs rule: assign.induct) auto

lemma nth_assign:
  "distinct is \<Longrightarrow> length is = length vs \<Longrightarrow> \<forall>i \<in> set is. i < length xs \<Longrightarrow> k < length is
    \<Longrightarrow> assign is vs xs ! (is ! k) = vs ! k"
proof (induction "is" vs xs arbitrary: k rule: assign.induct)
  case (1 i "is" v vs xs)
  then show ?case by (cases k) (auto simp: nth_assign_other)
qed auto

lemma mset_assign:
  "distinct is \<Longrightarrow> length is = length vs \<Longrightarrow> \<forall>i \<in> set is. i < length xs \<Longrightarrow>
    mset (assign is vs xs) + mset (map ((!) xs) is) = mset xs + mset vs"
proof (induction "is" vs xs rule: assign.induct)
  case (1 i "is" v vs xs)
  have same: "map ((!) (xs[i := v])) is = map ((!) xs) is"
    using "1.prems"(1) by (intro map_cong) (auto intro: nth_list_update_neq)
  have "mset (assign is vs (xs[i := v])) + mset (map ((!) xs) is) = mset (xs[i := v]) + mset vs"
    using 1 same by simp
  moreover have "mset (xs[i := v]) + {#xs ! i#} = mset xs + {#v#}"
    using "1.prems"(3) by (simp add: mset_update)
  ultimately have "mset (assign is vs (xs[i := v])) + mset (map ((!) xs) is) + {#xs ! i#}
      = mset xs + {#v#} + mset vs" by (simp add: ac_simps)
  then show ?case by (simp add: ac_simps)
qed auto

lemma mset_assign_perm:
  assumes "distinct is" "length is = length vs" "\<forall>i \<in> set is. i < length xs"
    and "mset vs = mset (map ((!) xs) is)"
  shows "mset (assign is vs xs) = mset xs"
  using mset_assign [OF assms(1-3)] assms(4) by simp

section \<open>Groups and permutations\<close>

definition swap :: "'a list \<Rightarrow> nat \<times> nat \<Rightarrow> 'a list" where
  "swap xs ij = (case ij of (i, j) \<Rightarrow> xs[i := xs ! j, j := xs ! i])"

text \<open>\<open>rand.Shuffle\<close>: for \<open>i\<close> from the last index down to 1, swap it with one at or below it.\<close>

definition rand_shuffle :: "(nat \<Rightarrow> nat) \<Rightarrow> 'a list \<Rightarrow> 'a list" where
  "rand_shuffle draw xs =
    foldl swap xs (map (\<lambda>i. (i, draw i mod Suc i)) (rev [1..<length xs]))"

text \<open>The first group whose pattern matches a non-empty name, \<open>None\<close> for -1.\<close>

definition group_of :: "shuffler \<Rightarrow> string \<Rightarrow> nat option" where
  "group_of s name =
    (if name = [] then None
     else find (\<lambda>i. (sh_groups s ! i) name) [0..<length (sh_groups s)])"

definition slots_of :: "shuffler \<Rightarrow> string list \<Rightarrow> nat \<Rightarrow> nat list" where
  "slots_of s names g = filter (\<lambda>i. group_of s (names ! i) = Some g) [0..<length names]"

definition shuffle_group ::
    "shuffler \<Rightarrow> string list \<Rightarrow> nat \<Rightarrow> nat list \<times> bool \<Rightarrow> nat list \<times> bool" where
  "shuffle_group s names g st =
    (let members = slots_of s names g; (perm, moved) = st in
     if length members < 2 then st
     else
       (let order = rand_shuffle (sh_draw s g) members
        in (assign members order perm, moved \<or> order \<noteq> members)))"

definition permutation :: "shuffler \<Rightarrow> string list \<Rightarrow> nat list option" where
  "permutation s names =
    (let groups = filter (\<lambda>g. slots_of s names g \<noteq> []) [0..<length (sh_groups s)] in
     if groups = [] then None
     else
       (let (perm, moved) = fold (shuffle_group s names) groups ([0..<length names], False)
        in if moved then Some perm else None))"

text \<open>
  \<open>reorderNames\<close>: the names that are hosts, in the slots they have, put in the order of the hosts'
  new places; \<open>sort_key\<close> is stable, as \<open>sort.SliceStable\<close> is.
\<close>

definition reorder_names :: "string list \<Rightarrow> (string \<Rightarrow> nat option) \<Rightarrow> bool \<times> string list" where
  "reorder_names names new_index =
    (let slots = filter (\<lambda>i. new_index (names ! i) \<noteq> None) [0..<length names] in
     if length slots < 2 then (False, names)
     else
       (let here = map ((!) names) slots;
            picked = sort_key (\<lambda>n. the (new_index n)) here
        in (picked \<noteq> here, assign slots picked names)))"

lemma swap_mset: "i < length xs \<Longrightarrow> j < length xs \<Longrightarrow> mset (swap xs (i, j)) = mset xs"
  by (simp add: swap_def mset_swap)

lemma mset_rand_shuffle [simp]: "mset (rand_shuffle draw xs) = mset xs"
proof -
  have "\<forall>p \<in> set ps. fst p < length ys \<and> snd p < length ys \<Longrightarrow> mset (foldl swap ys ps) = mset ys"
    for ps and ys :: "'a list"
  proof (induction ps arbitrary: ys)
    case (Cons p ps)
    then have m: "mset (swap ys p) = mset ys" by (cases p) (simp add: swap_mset)
    with Cons show ?case by (simp add: mset_eq_length [OF m])
  qed simp
  moreover have "draw i mod Suc i < length xs" if "i < length xs" for i
    using that mod_less_divisor [of "Suc i" "draw i"] by (meson Suc_leI le_trans not_less zero_less_Suc)
  ultimately show ?thesis by (simp add: rand_shuffle_def)
qed

lemma length_rand_shuffle [simp]: "length (rand_shuffle draw xs) = length xs"
  by (rule mset_eq_length) simp

lemma slots_distinct [simp]: "distinct (slots_of s names g)"
  by (simp add: slots_of_def)

lemma slots_iff: "i \<in> set (slots_of s names g) \<longleftrightarrow> i < length names \<and> group_of s (names ! i) = Some g"
  by (auto simp: slots_of_def)

text \<open>What is known of the permutation while the groups in \<open>seen\<close> have been shuffled.\<close>

definition partial_perm :: "shuffler \<Rightarrow> string list \<Rightarrow> nat set \<Rightarrow> nat list \<Rightarrow> bool" where
  "partial_perm s names seen p \<longleftrightarrow>
    mset p = mset [0..<length names]
    \<and> (\<forall>i < length names. group_of s (names ! (p ! i)) = group_of s (names ! i))
    \<and> (\<forall>i < length names. group_of s (names ! i) \<notin> Some ` seen \<longrightarrow> p ! i = i)"

lemma partial_perm_init: "partial_perm s names {} [0..<length names]"
  by (simp add: partial_perm_def)

lemma partial_perm_length: "partial_perm s names d p \<Longrightarrow> length p = length names"
  unfolding partial_perm_def by (metis diff_zero length_upt mset_eq_length)

lemma partial_perm_mono: "partial_perm s names d p \<Longrightarrow> d \<subseteq> e \<Longrightarrow> partial_perm s names e p"
  unfolding partial_perm_def by blast

lemma partial_perm_step:
  assumes p: "partial_perm s names d p" and g: "g \<notin> d"
  shows "partial_perm s names (insert g d) (fst (shuffle_group s names g (p, m)))"
proof (cases "length (slots_of s names g) < 2")
  case True
  with partial_perm_mono [OF p, of "insert g d"] show ?thesis
    by (auto simp: shuffle_group_def Let_def)
next
  case False
  let ?ms = "slots_of s names g" and ?os = "rand_shuffle (sh_draw s g) (slots_of s names g)"
  have len: "length p = length names" by (rule partial_perm_length [OF p])
  have id: "p ! i = i" if "i \<in> set ?ms" for i
    using that p g by (auto simp: partial_perm_def slots_iff)
  then have "map ((!) p) ?ms = ?ms" by (simp add: map_idI)
  then have "mset (assign ?ms ?os p) = mset p"
    using len by (intro mset_assign_perm) (auto simp: slots_iff)
  moreover have "group_of s (names ! (assign ?ms ?os p ! i)) = group_of s (names ! i)"
    and "group_of s (names ! i) \<notin> Some ` insert g d \<longrightarrow> assign ?ms ?os p ! i = i"
    if i: "i < length names" for i
  proof -
    show "group_of s (names ! (assign ?ms ?os p ! i)) = group_of s (names ! i)"
    proof (cases "i \<in> set ?ms")
      case True
      then obtain k where k: "k < length ?ms" "i = ?ms ! k" by (auto simp: in_set_conv_nth)
      then have "assign ?ms ?os p ! i = ?os ! k"
        using len by (auto intro: nth_assign simp: slots_iff)
      moreover have "?os ! k \<in> set ?ms"
        using k(1) by (metis length_rand_shuffle mset_eq_setD mset_rand_shuffle nth_mem)
      ultimately show ?thesis using True by (simp add: slots_iff)
    next
      case False
      with p i show ?thesis by (simp add: nth_assign_other partial_perm_def)
    qed
    show "group_of s (names ! i) \<notin> Some ` insert g d \<longrightarrow> assign ?ms ?os p ! i = i"
      using p i by (auto simp: partial_perm_def slots_iff nth_assign_other)
  qed
  ultimately show ?thesis
    using p False by (simp add: partial_perm_def shuffle_group_def Let_def)
qed

lemma partial_perm_fold:
  "partial_perm s names d p \<Longrightarrow> distinct gs \<Longrightarrow> d \<inter> set gs = {}
    \<Longrightarrow> partial_perm s names (d \<union> set gs) (fst (fold (shuffle_group s names) gs (p, m)))"
proof (induction gs arbitrary: d p m)
  case (Cons g gs)
  obtain q n where q: "shuffle_group s names g (p, m) = (q, n)" by fastforce
  have "partial_perm s names (insert g d) q"
    using partial_perm_step [OF Cons.prems(1), of g m] Cons.prems(3) q by simp
  from Cons.IH [OF this, of n] Cons.prems q show ?case by (simp add: insert_commute)
qed simp

lemma permutation_perm:
  assumes "permutation s names = Some p"
  shows "partial_perm s names UNIV p"
proof -
  let ?gs = "filter (\<lambda>g. slots_of s names g \<noteq> []) [0..<length (sh_groups s)]"
  have "partial_perm s names ({} \<union> set ?gs)
      (fst (fold (shuffle_group s names) ?gs ([0..<length names], False)))"
    by (rule partial_perm_fold [OF partial_perm_init]) simp_all
  moreover have "p = fst (fold (shuffle_group s names) ?gs ([0..<length names], False))"
    using assms by (auto simp: permutation_def Let_def split_beta split: if_splits)
  ultimately show ?thesis using partial_perm_mono by blast
qed

section \<open>What the formats rely on\<close>

text \<open>
  Each body format reads the names of its hosts, asks for a permutation and moves its items
  accordingly.  What it may rely on: the answer is a permutation of the slots, an item only moves
  to a slot of its own group, and an item of no group stays.
\<close>

locale slot_permuter =
  fixes permute :: "string list \<Rightarrow> nat list option"
    and kind :: "string \<Rightarrow> 'g option"
  assumes permute_mset: "permute names = Some p \<Longrightarrow> mset p = mset [0..<length names]"
    and permute_kind: "permute names = Some p \<Longrightarrow> i < length names \<Longrightarrow>
        kind (names ! (p ! i)) = kind (names ! i)"
    and permute_fixed: "permute names = Some p \<Longrightarrow> i < length names \<Longrightarrow>
        kind (names ! i) = None \<Longrightarrow> p ! i = i"
    and permute_moves: "permute names = Some p \<Longrightarrow> p \<noteq> [0..<length names]"
begin

lemma permute_length: "permute names = Some p \<Longrightarrow> length p = length names"
  using mset_eq_length [OF permute_mset] by force

lemma permute_less: "permute names = Some p \<Longrightarrow> i < length names \<Longrightarrow> p ! i < length names"
  using mset_eq_setD [OF permute_mset] permute_length
  by (metis atLeastLessThan_iff nth_mem set_upt)

lemma moved_mset:
  assumes "permute names = Some p" "length items = length names"
  shows "mset (map ((!) items) p) = mset items"
proof -
  have "mset (map ((!) items) p) = image_mset ((!) items) (mset [0..<length items])"
    using permute_mset [OF assms(1)] assms(2) by simp
  also have "\<dots> = mset (map ((!) items) [0..<length items])" by (simp only: mset_map)
  finally show ?thesis by (simp only: map_nth)
qed

lemma moved_fixed:
  "permute names = Some p \<Longrightarrow> length items = length names \<Longrightarrow> i < length names \<Longrightarrow>
    kind (names ! i) = None \<Longrightarrow> map ((!) items) p ! i = items ! i"
  by (simp add: permute_length permute_fixed)

end

lemma fold_moved:
  "snd (fold (shuffle_group s names) gs (p, m)) \<Longrightarrow> m \<or>
    (\<exists>g \<in> set gs. rand_shuffle (sh_draw s g) (slots_of s names g) \<noteq> slots_of s names g)"
proof (induction gs arbitrary: p m)
  case (Cons g gs)
  obtain q n where q: "shuffle_group s names g (p, m) = (q, n)" by fastforce
  then have "n \<Longrightarrow> m \<or> rand_shuffle (sh_draw s g) (slots_of s names g) \<noteq> slots_of s names g"
    by (auto simp: shuffle_group_def Let_def split: if_splits)
  with Cons.IH [of q n] Cons.prems q show ?case by auto
qed simp

text \<open>What a group's shuffle writes into its slots stays there.\<close>

lemma fold_slots:
  "distinct gs \<Longrightarrow> g \<in> set gs \<Longrightarrow> length p = length names \<Longrightarrow> k < length (slots_of s names g) \<Longrightarrow>
    2 \<le> length (slots_of s names g) \<Longrightarrow>
    fst (fold (shuffle_group s names) gs (p, m)) ! (slots_of s names g ! k)
      = rand_shuffle (sh_draw s g) (slots_of s names g) ! k"
proof (induction gs arbitrary: p m)
  case (Cons h gs)
  obtain q n where q: "shuffle_group s names h (p, m) = (q, n)" by fastforce
  have len: "length q = length names"
    using q Cons.prems(3) by (auto simp: shuffle_group_def Let_def split: if_splits)
  show ?case
  proof (cases "g = h")
    case False
    with Cons len q show ?thesis by simp
  next
    case True
    have other: "fst (fold (shuffle_group s names) hs (r, b)) ! i = r ! i"
      if "h \<notin> set hs" "i \<in> set (slots_of s names h)" for hs r b i
      using that
    proof (induction hs arbitrary: r b)
      case (Cons x hs)
      obtain r' b' where r': "shuffle_group s names x (r, b) = (r', b')" by fastforce
      have "i \<notin> set (slots_of s names x)" using Cons.prems by (auto simp: slots_iff)
      with r' have "r' ! i = r ! i"
        by (auto simp: shuffle_group_def Let_def nth_assign_other split: if_splits)
      with Cons r' show ?case by simp
    qed simp
    let ?ms = "slots_of s names h"
    have "q = assign ?ms (rand_shuffle (sh_draw s h) ?ms) p"
      using q True Cons.prems(5) by (auto simp: shuffle_group_def Let_def)
    then have "q ! (?ms ! k) = rand_shuffle (sh_draw s h) ?ms ! k"
      using True Cons.prems(3,4) by (auto intro!: nth_assign simp: slots_iff)
    with True q other [of gs "?ms ! k" q n] Cons.prems(1,4) show ?thesis by simp
  qed
qed simp

lemma permutation_moves:
  assumes "permutation s names = Some p" shows "p \<noteq> [0..<length names]"
proof -
  let ?gs = "filter (\<lambda>g. slots_of s names g \<noteq> []) [0..<length (sh_groups s)]"
  let ?f = "fold (shuffle_group s names) ?gs ([0..<length names], False)"
  have p: "p = fst ?f" and "snd ?f"
    using assms by (auto simp: permutation_def Let_def split_beta split: if_splits)
  from fold_moved [OF this(2)] obtain g where g: "g \<in> set ?gs"
    "rand_shuffle (sh_draw s g) (slots_of s names g) \<noteq> slots_of s names g" by blast
  let ?ms = "slots_of s names g"
  from g(2) obtain k where k: "k < length ?ms" "rand_shuffle (sh_draw s g) ?ms ! k \<noteq> ?ms ! k"
    by (metis length_rand_shuffle nth_equalityI)
  have "2 \<le> length ?ms"
  proof (rule ccontr)
    assume "\<not> 2 \<le> length ?ms"
    with g(2) show False by (cases ?ms) (auto simp: rand_shuffle_def)
  qed
  with k(1) g(1) have "p ! (?ms ! k) = rand_shuffle (sh_draw s g) ?ms ! k"
    unfolding p by (intro fold_slots) simp_all
  moreover have "?ms ! k < length names" using nth_mem [OF k(1)] by (simp add: slots_iff)
  ultimately show ?thesis using k(2) by auto
qed

interpretation hosts: slot_permuter "permutation s" "group_of s" for s
proof unfold_locales
  fix names p assume p: "permutation s names = Some p"
  note facts = permutation_perm [OF p, unfolded partial_perm_def]
  show "mset p = mset [0..<length names]" using facts by blast
  show "group_of s (names ! (p ! i)) = group_of s (names ! i)" if "i < length names" for i
    using facts that by blast
  show "p ! i = i" if "i < length names" "group_of s (names ! i) = None" for i
    using facts that by simp
  show "p \<noteq> [0..<length names]" by (rule permutation_moves [OF p])
qed

text \<open>C24: Whatever is drawn, the shuffle answers with a genuine permutation of the hosts in which each
  slot keeps its group, hosts of no group keep their slots, and something has moved; it answers
  "nothing moved" when no group has two members.\<close>

theorem permutation_correct:
  "(case permutation s names of
      None \<Rightarrow> True
    | Some p \<Rightarrow>
        mset p = mset [0..<length names] \<and> p \<noteq> [0..<length names]
        \<and> (\<forall>i < length names. group_of s (names ! (p ! i)) = group_of s (names ! i)
             \<and> (group_of s (names ! i) = None \<longrightarrow> p ! i = i)))
   \<and> ((\<forall>g. length (slots_of s names g) < 2) \<longrightarrow> permutation s names = None)"
proof (intro conjI impI)
  show "case permutation s names of
      None \<Rightarrow> True
    | Some p \<Rightarrow>
        mset p = mset [0..<length names] \<and> p \<noteq> [0..<length names]
        \<and> (\<forall>i < length names. group_of s (names ! (p ! i)) = group_of s (names ! i)
             \<and> (group_of s (names ! i) = None \<longrightarrow> p ! i = i))"
    using hosts.permute_mset hosts.permute_moves hosts.permute_kind hosts.permute_fixed
    by (auto split: option.split)
next
  assume few: "\<forall>g. length (slots_of s names g) < 2"
  then have "fold (shuffle_group s names) gs (p, False) = (p, False)" for gs p
    by (induction gs) (simp_all add: shuffle_group_def)
  then show "permutation s names = None" by (simp add: permutation_def Let_def)
qed

definition sample_shuffler :: shuffler where
  "sample_shuffler = \<lparr>sh_groups = [(\<lambda>n. has_prefix n ''DE''), (\<lambda>n. has_prefix n ''D'')],
     sh_draw = (\<lambda>_ _. 0)\<rparr>"

theorem permutation_correct_witness:
  "permutation sample_shuffler [''DE1'', ''x'', ''DE2'', ''DK''] = Some [2, 1, 0, 3]
   \<and> mset [2, 1, 0, 3] = mset [0..<4]"
proof -
  have "permutation sample_shuffler [''DE1'', ''x'', ''DE2'', ''DK''] = Some [2, 1, 0, 3]" by code_simp
  with permutation_correct [where s = sample_shuffler and names = "[''DE1'', ''x'', ''DE2'', ''DK'']"]
  show ?thesis by (simp add: numeral_eq_Suc)
qed

text \<open>A by-name list follows the hosts without losing or inventing a name: other names keep their
  places, and the hosts' names appear in the order of their new places.\<close>

theorem reorder_names_correct:
  "(let out = snd (reorder_names names idx);
        hosts = filter (\<lambda>i. idx (names ! i) \<noteq> None) [0..<length names]
    in mset out = mset names
       \<and> (\<forall>i < length names. idx (names ! i) = None \<longrightarrow> out ! i = names ! i)
       \<and> sorted (map (\<lambda>i. the (idx (out ! i))) hosts)
       \<and> (fst (reorder_names names idx) \<longleftrightarrow> out \<noteq> names))"
proof -
  let ?is = "filter (\<lambda>i. idx (names ! i) \<noteq> None) [0..<length names]"
  let ?here = "map ((!) names) ?is"
  let ?picked = "sort_key (\<lambda>n. the (idx n)) ?here"
  show ?thesis
  proof (cases "length ?is < 2")
    case True
    then have "sorted (map (\<lambda>i. the (idx (names ! i))) ?is)"
      by (cases ?is; cases "tl ?is") auto
    with True show ?thesis by (simp add: reorder_names_def Let_def)
  next
    case False
    let ?out = "assign ?is ?picked names"
    have out: "reorder_names names idx = (?picked \<noteq> ?here, ?out)"
      using False by (simp add: reorder_names_def Let_def)
    have len: "length ?is = length ?picked" by simp
    have m: "mset ?out = mset names" by (rule mset_assign_perm) auto
    have at: "?out ! (?is ! k) = ?picked ! k" if "k < length ?is" for k
      using that len by (intro nth_assign) auto
    then have eq: "map ((!) ?out) ?is = ?picked"
      using len by (intro nth_equalityI) simp_all
    have "map (\<lambda>i. the (idx (?out ! i))) ?is = map (\<lambda>n. the (idx n)) (map ((!) ?out) ?is)"
      by simp
    then have "sorted (map (\<lambda>i. the (idx (?out ! i))) ?is)" unfolding eq by (simp only: sorted_sort_key)
    moreover have "?out ! i = names ! i" if "idx (names ! i) = None" for i
      using that by (intro nth_assign_other) simp
    moreover have "?picked \<noteq> ?here \<longleftrightarrow> ?out \<noteq> names"
    proof
      show "?picked \<noteq> ?here \<Longrightarrow> ?out \<noteq> names" using eq by metis
      have "assign js (map ((!) xs) js) xs = xs" for js and xs :: "string list"
        by (induction js) simp_all
      then show "?out \<noteq> names \<Longrightarrow> ?picked \<noteq> ?here" by metis
    qed
    ultimately show ?thesis using m unfolding out by (simp add: Let_def)
  qed
qed

theorem reorder_names_correct_witness:
  "snd (reorder_names [''b'', ''DIRECT'', ''a''] [''a'' \<mapsto> 0, ''b'' \<mapsto> 1]) = [''a'', ''DIRECT'', ''b'']
   \<and> mset [''a'', ''DIRECT'', ''b''] = mset [''b'', ''DIRECT'', ''a'']"
proof -
  have "snd (reorder_names [''b'', ''DIRECT'', ''a''] [''a'' \<mapsto> 0, ''b'' \<mapsto> 1])
      = [''a'', ''DIRECT'', ''b'']" by code_simp
  with reorder_names_correct [where names = "[''b'', ''DIRECT'', ''a'']" and idx = "[''a'' \<mapsto> 0, ''b'' \<mapsto> 1]"]
  show ?thesis by (simp add: Let_def)
qed

end
