(* ===== verification/Links.thy ===== *)
theory Links
  imports Shuffle B64 Go_Http Case_Facts
begin

text \<open>
  File \<open>internal/hosts/links.go\<close>: a subscription body with one link per line, plain or wrapped in
  base64.  The \<open>ps\<close> field of a vmess link's JSON is read by a parameter.
\<close>

abbreviation newline :: char where
  "newline \<equiv> CHR 0x0A"

abbreviation carriage_return :: char where
  "carriage_return \<equiv> CHR 0x0D"

definition scheme_char :: "char \<Rightarrow> bool" where
  "scheme_char c \<longleftrightarrow> is_alnum c \<or> c = CHR ''+'' \<or> c = CHR ''-'' \<or> c = CHR ''.''"

definition is_scheme_name :: "string \<Rightarrow> bool" where
  "is_scheme_name s \<longleftrightarrow> list_all scheme_char s"

definition link_line :: "string \<Rightarrow> bool" where
  "link_line line =
    (case cut ''://'' line of
       None \<Rightarrow> False
     | Some (scheme, _) \<Rightarrow> scheme \<noteq> [] \<and> is_scheme_name scheme)"

text \<open>The loop of \<open>isLinkList\<close>: blank lines are skipped, the first other line decides.\<close>

definition next_line :: "string \<Rightarrow> string \<times> string" where
  "next_line text = (case cut [newline] text of Some (line, rest) \<Rightarrow> (line, rest) | None \<Rightarrow> (text, []))"

lemma next_line_shorter: "text \<noteq> [] \<Longrightarrow> length (snd (next_line text)) < length text"
  by (auto simp: next_line_def cut_single_Some split: option.split)

function is_link_list :: "string \<Rightarrow> bool" where
  "is_link_list text =
    (if text = [] then False
     else if trim_space (fst (next_line text)) = [] then is_link_list (snd (next_line text))
     else link_line (trim_space (fst (next_line text))))"
  by pat_completeness auto
termination
  by (relation "measure length") (simp_all add: next_line_shorter)

declare is_link_list.simps [simp del]

definition decode_list :: "string \<Rightarrow> (string \<times> encoding option) option" where
  "decode_list body =
    (if is_link_list body then Some (body, None)
     else map_option (\<lambda>(t, enc). (t, Some enc)) (decode body (Some is_link_list)))"

section \<open>The name of a link\<close>

text \<open>\<open>url.PathUnescape\<close>.\<close>

fun path_unescape :: "string \<Rightarrow> string option" where
  "path_unescape [] = Some []"
| "path_unescape (c # s) =
    (if c = CHR ''%'' then
       (case s of
          a # b # r \<Rightarrow>
            (case (hex_value a, hex_value b) of
               (Some x, Some y) \<Rightarrow> map_option (\<lambda>t. char_of (16 * x + y) # t) (path_unescape r)
             | _ \<Rightarrow> None)
        | _ \<Rightarrow> None)
     else map_option (\<lambda>t. c # t) (path_unescape s))"

definition unescape :: "string \<Rightarrow> string" where
  "unescape fragment = (case path_unescape fragment of Some name \<Rightarrow> name | None \<Rightarrow> fragment)"

definition fragment_name :: "string \<Rightarrow> string" where
  "fragment_name link =
    (case cut ''#'' link of
       None \<Rightarrow> []
     | Some (_, fragment) \<Rightarrow> (case path_unescape fragment of Some name \<Rightarrow> name | None \<Rightarrow> []))"

definition vmess_name :: "(string \<Rightarrow> string option) \<Rightarrow> string \<Rightarrow> string" where
  "vmess_name read_ps payload =
    (let (payload, fragment) = (case cut ''#'' payload of Some pf \<Rightarrow> pf | None \<Rightarrow> (payload, []))
     in case decode payload None of
          None \<Rightarrow> unescape fragment
        | Some (decoded, _) \<Rightarrow>
            (case read_ps decoded of
               None \<Rightarrow> unescape fragment
             | Some ps \<Rightarrow> if ps = [] then unescape fragment else ps))"

definition link_name :: "(string \<Rightarrow> string option) \<Rightarrow> string \<Rightarrow> string" where
  "link_name read_ps link =
    (case cut ''://'' link of
       None \<Rightarrow> []
     | Some (scheme, rest) \<Rightarrow>
         if equal_fold scheme ''vmess'' then vmess_name read_ps rest else fragment_name link)"

section \<open>Shuffling the lines\<close>

definition line_names :: "(string \<Rightarrow> string option) \<Rightarrow> string list \<Rightarrow> string list" where
  "line_names read_ps ls = map (\<lambda>l. link_name read_ps (trim_byte_right carriage_return l)) ls"

definition wrap_list :: "encoding option \<Rightarrow> string \<Rightarrow> string" where
  "wrap_list enc out = (case enc of None \<Rightarrow> out | Some e \<Rightarrow> b64_encode e out)"

definition apply_links ::
    "(string \<Rightarrow> string option) \<Rightarrow> shuffler \<Rightarrow> string \<Rightarrow> string \<times> bool" where
  "apply_links read_ps s body =
    (case decode_list body of
       None \<Rightarrow> (body, False)
     | Some (text, enc) \<Rightarrow>
         (let ls = split_byte newline text in
          case permutation s (line_names read_ps ls) of
            None \<Rightarrow> (body, False)
          | Some perm \<Rightarrow> (wrap_list enc (join [newline] (map ((!) ls) perm)), True)))"

section \<open>What comes out\<close>

lemma path_unescape_escape: "path_unescape (path_escape s) = Some s"
proof (induction s)
  case (Cons c s)
  have "c \<noteq> CHR ''%''" if "segment_byte c"
  proof -
    have "\<not> segment_byte (CHR ''%'')" by code_simp
    with that show ?thesis by auto
  qed
  moreover have "byte c div 16 < 16" using byte_less [of c] by (simp add: div_less_iff_less_mult)
  then have "hex_value (hex_upper (byte c div 16)) = Some (byte c div 16)"
    "hex_value (hex_upper (byte c mod 16)) = Some (byte c mod 16)"
    by (simp_all add: hex_value_upper)
  moreover have "16 * (byte c div 16) + byte c mod 16 = byte c" by simp
  ultimately show ?case using Cons by (auto simp: path_escape_def)
qed (simp add: path_escape_def)

text \<open>Reading a link's name undoes the escaping a name is written with.\<close>

theorem fragment_name_escaped:
  "CHR ''#'' \<notin> set link \<Longrightarrow> fragment_name (link @ ''#'' @ path_escape name) = name"
  by (simp add: fragment_name_def cut_single_append path_unescape_escape)

theorem fragment_name_escaped_witness:
  "fragment_name (''vless://x?a=b'' @ ''#'' @ path_escape ''DE 1%'') = ''DE 1%''"
  by (rule fragment_name_escaped) simp

text \<open>C25: Shuffling a link list loses nothing: the lines that come out are a permutation of those that
  went in, byte for byte, in the same wrapping; lines of no group stay where they are, the others
  move within their group; and a body that is not changed is handed back as it was.\<close>

theorem apply_links_lines:
  "(case apply_links read_ps s body of
      (out, False) \<Rightarrow> out = body
    | (out, True) \<Rightarrow>
        (\<exists>plain enc plain'. decode_list body = Some (plain, enc) \<and> out = wrap_list enc plain'
           \<and> (let ls = split_byte newline plain; ls' = split_byte newline plain'
              in mset ls' = mset ls \<and> length ls' = length ls
                 \<and> (\<forall>i < length ls.
                      (group_of s (line_names read_ps ls ! i) = None \<longrightarrow> ls' ! i = ls ! i)
                      \<and> group_of s (line_names read_ps ls' ! i)
                        = group_of s (line_names read_ps ls ! i)))))"
proof (cases "decode_list body")
  case None
  then show ?thesis by (simp add: apply_links_def)
next
  case (Some te)
  obtain plain enc where te: "te = (plain, enc)" by (cases te)
  let ?ls = "split_byte newline plain"
  let ?names = "line_names read_ps ?ls"
  show ?thesis
  proof (cases "permutation s ?names")
    case None
    with Some te show ?thesis by (simp add: apply_links_def Let_def)
  next
    case (Some p)
    let ?ls' = "map ((!) ?ls) p"
    have len: "length ?ls = length ?names" by (simp add: line_names_def)
    have m: "mset ?ls' = mset ?ls" by (rule hosts.moved_mset [OF Some len])
    then have "?ls' \<noteq> []" by (metis mset_zero_iff split_byte_nonempty)
    moreover have "newline \<notin> set l" if "l \<in> set ?ls'" for l
      using that m by (metis mset_eq_setD split_byte_no_sep)
    ultimately have split: "split_byte newline (join [newline] ?ls') = ?ls'"
      by (intro split_join) auto
    have plen: "length p = length ?ls" using hosts.permute_length [OF Some] len by simp
    have "?ls' ! i = ?ls ! i" if "i < length ?ls" "group_of s (?names ! i) = None" for i
      using hosts.moved_fixed [OF Some len] that len by simp
    moreover have "group_of s (line_names read_ps ?ls' ! i) = group_of s (?names ! i)"
      if "i < length ?ls" for i
    proof -
      have "p ! i < length ?ls" using hosts.permute_less [OF Some] that len by simp
      then have "line_names read_ps ?ls' ! i = ?names ! (p ! i)"
        using that plen by (simp add: line_names_def)
      with hosts.permute_kind [OF Some, of i] that len show ?thesis by simp
    qed
    moreover have "apply_links read_ps s body = (wrap_list enc (join [newline] ?ls'), True)"
      using Some \<open>decode_list body = Some te\<close> te by (simp add: apply_links_def Let_def)
    ultimately show ?thesis
      using m plen split \<open>decode_list body = Some te\<close> te
      by (auto simp: Let_def intro!: exI [of _ plain] exI [of _ enc] exI [of _ "join [newline] ?ls'"])
  qed
qed

theorem apply_links_lines_witness:
  "\<exists>plain enc plain'.
     decode_list (''a://#DE1'' @ newline # ''b://#DE2'') = Some (plain, enc)
     \<and> ''b://#DE2'' @ newline # ''a://#DE1'' = wrap_list enc plain'
     \<and> mset (split_byte newline plain') = mset (split_byte newline plain)"
proof -
  have "apply_links (\<lambda>_. None) sample_shuffler (''a://#DE1'' @ newline # ''b://#DE2'')
      = (''b://#DE2'' @ newline # ''a://#DE1'', True)" by code_simp
  with apply_links_lines [where read_ps = "\<lambda>_. None" and s = sample_shuffler
      and body = "''a://#DE1'' @ newline # ''b://#DE2''"]
  show ?thesis by (auto simp: Let_def)
qed

end
