(* ===== verification/Formats.thy ===== *)
theory Formats
  imports Links
begin

text \<open>
  Files \<open>internal/hosts/jsonobj.go\<close>, \<open>xray.go\<close>, \<open>singbox.go\<close> and \<open>clash.go\<close>: shuffling the hosts of
  the three structured formats, and the dispatch \<open>Apply\<close>.  Reading and writing JSON
  (\<open>encoding/json\<close>) and YAML (\<open>gopkg.in/yaml.v3\<close>) are parameters; raw JSON values stay texts, and
  a YAML document is a tree of nodes whose comments and styles are an open part of each node.
\<close>

section \<open>JSON\<close>

record json_node =
  node_tag :: string
  node_server :: string
  node_outbounds :: "string list"

text \<open>
  \<open>js_array\<close> is \<open>json.Unmarshal\<close> into raw messages, \<open>js_members\<close> the members an object's tokens yield,
  \<open>js_remarks\<close> and \<open>js_node\<close> decode into the structs the code declares (the flag says whether there
  was no error; what was decoded before an error stays), \<open>js_string\<close> and \<open>js_strings\<close> are
  \<open>json.Marshal\<close>, \<open>js_check\<close> is what \<open>json.Marshal\<close> makes of the output of a \<open>MarshalJSON\<close>, and the
  last two are \<open>json.Compact\<close> and \<open>json.Indent\<close>.
\<close>

record json_lib =
  js_array :: "string \<Rightarrow> string list option"
  js_members :: "string \<Rightarrow> (string \<times> string) list option"
  js_remarks :: "string \<Rightarrow> string option"
  js_node :: "string \<Rightarrow> json_node \<times> bool"
  js_string :: "string \<Rightarrow> string"
  js_strings :: "string list \<Rightarrow> string"
  js_check :: "string \<Rightarrow> string option"
  js_compact :: "string \<Rightarrow> string option"
  js_indent :: "string \<Rightarrow> string \<Rightarrow> string option"

type_synonym object = "(string \<times> string) list"

definition object_get :: "object \<Rightarrow> string \<Rightarrow> string option" where
  "object_get obj k = map_of obj k"

fun object_set :: "(string \<times> 'a) list \<Rightarrow> string \<Rightarrow> 'a \<Rightarrow> (string \<times> 'a) list" where
  "object_set [] k v = []"
| "object_set ((k', v') # ms) k v = (if k' = k then (k', v) # ms else (k', v') # object_set ms k v)"

definition marshal_object :: "json_lib \<Rightarrow> object \<Rightarrow> string option" where
  "marshal_object js obj =
    js_check js (''{'' @ join '','' (map (\<lambda>(k, v). js_string js k @ '':'' @ v) obj) @ ''}'')"

definition marshal_array :: "string list \<Rightarrow> string" where
  "marshal_array items = ''['' @ join '','' items @ '']''"

definition detect_indent :: "string \<Rightarrow> string" where
  "detect_indent raw =
    (case cut [newline] raw of
       None \<Rightarrow> []
     | Some (_, rest) \<Rightarrow> takeWhile (\<lambda>c. c = CHR '' '' \<or> c = CHR 0x09) rest)"

definition indent_like :: "json_lib \<Rightarrow> string \<Rightarrow> string \<Rightarrow> string" where
  "indent_like js original out =
    (let indent = detect_indent original in
     if indent = [] then (case js_compact js out of None \<Rightarrow> out | Some t \<Rightarrow> t)
     else (case js_indent js out indent of None \<Rightarrow> out | Some t \<Rightarrow> t))"

section \<open>Xray\<close>

definition xray_name :: "json_lib \<Rightarrow> string \<Rightarrow> string" where
  "xray_name js item = (case js_remarks js item of None \<Rightarrow> [] | Some r \<Rightarrow> r)"

definition apply_xray :: "json_lib \<Rightarrow> shuffler \<Rightarrow> string \<Rightarrow> string \<times> bool" where
  "apply_xray js s body =
    (case js_array js body of
       None \<Rightarrow> (body, False)
     | Some items \<Rightarrow>
         (case permutation s (map (xray_name js) items) of
            None \<Rightarrow> (body, False)
          | Some perm \<Rightarrow> (indent_like js body (marshal_array (map ((!) items) perm)), True)))"

section \<open>Sing-box\<close>

definition singbox_name :: "json_lib \<Rightarrow> string \<Rightarrow> string" where
  "singbox_name js raw =
    (let n = fst (js_node js raw) in if node_server n \<noteq> [] then node_tag n else [])"

text \<open>
  \<open>newIndex\<close>: the slot each grouped host has now; of hosts that share a name the last one counts.
\<close>

definition new_index :: "shuffler \<Rightarrow> string list \<Rightarrow> nat list \<Rightarrow> string \<Rightarrow> nat option" where
  "new_index s names perm =
    fold (\<lambda>(slot, from) m. if group_of s (names ! from) \<noteq> None then m(names ! from \<mapsto> slot) else m)
      (List.enumerate 0 perm) (\<lambda>_. None)"

definition rewrite_selector :: "json_lib \<Rightarrow> (string \<Rightarrow> nat option) \<Rightarrow> string \<Rightarrow> string" where
  "rewrite_selector js idx raw =
    (case js_node js raw of
       (n, ok) \<Rightarrow>
         if \<not> ok \<or> node_outbounds n = [] then raw
         else
           (let (changed, list) = reorder_names (node_outbounds n) idx in
            if \<not> changed then raw
            else
              (case js_members js raw of
                 None \<Rightarrow> raw
               | Some obj \<Rightarrow>
                   (case marshal_object js (object_set obj ''outbounds'' (js_strings js list)) of
                      None \<Rightarrow> raw
                    | Some encoded \<Rightarrow> encoded))))"

definition apply_singbox :: "json_lib \<Rightarrow> shuffler \<Rightarrow> string \<Rightarrow> string \<times> bool" where
  "apply_singbox js s body =
    (case js_members js body of
       None \<Rightarrow> (body, False)
     | Some root \<Rightarrow>
         (case object_get root ''outbounds'' of
            None \<Rightarrow> (body, False)
          | Some raw \<Rightarrow>
              (case js_array js raw of
                 None \<Rightarrow> (body, False)
               | Some outbounds \<Rightarrow>
                   (let names = map (singbox_name js) outbounds in
                    case permutation s names of
                      None \<Rightarrow> (body, False)
                    | Some perm \<Rightarrow>
                        (let shuffled = map ((!) outbounds) perm;
                             idx = new_index s names perm;
                             rewritten = map (rewrite_selector js idx) shuffled
                         in case marshal_object js
                                (object_set root ''outbounds'' (marshal_array rewritten)) of
                              None \<Rightarrow> (body, False)
                            | Some out \<Rightarrow> (indent_like js body out, True))))))"

section \<open>Clash\<close>

datatype yaml_kind = Yaml_Document | Yaml_Mapping | Yaml_Sequence | Yaml_Scalar | Yaml_Alias

datatype 'm yaml_node =
  Node (y_kind: yaml_kind) (y_value: string) (y_content: "'m yaml_node list") (y_meta: 'm)

record 'm yaml_lib =
  yaml_read :: "string \<Rightarrow> 'm yaml_node option"
  yaml_write :: "'m yaml_node \<Rightarrow> string option"

fun pair_value :: "string \<Rightarrow> 'm yaml_node list \<Rightarrow> 'm yaml_node option" where
  "pair_value key (k # v # rest) = (if y_value k = key then Some v else pair_value key rest)"
| "pair_value key _ = None"

definition mapping_value :: "'m yaml_node \<Rightarrow> string \<Rightarrow> 'm yaml_node option" where
  "mapping_value node key =
    (if y_kind node \<noteq> Yaml_Mapping then None else pair_value key (y_content node))"

definition scalar_value :: "'m yaml_node option \<Rightarrow> string" where
  "scalar_value node =
    (case node of None \<Rightarrow> [] | Some n \<Rightarrow> if y_kind n \<noteq> Yaml_Scalar then [] else y_value n)"

definition set_content :: "'m yaml_node list \<Rightarrow> 'm yaml_node \<Rightarrow> 'm yaml_node" where
  "set_content c n = Node (y_kind n) (y_value n) c (y_meta n)"

text \<open>Editing the node that \<open>mappingValue\<close> returns, in place.\<close>

fun pair_update :: "string \<Rightarrow> ('m yaml_node \<Rightarrow> 'm yaml_node) \<Rightarrow> 'm yaml_node list \<Rightarrow> 'm yaml_node list" where
  "pair_update key f (k # v # rest) =
    (if y_value k = key then k # f v # rest else k # v # pair_update key f rest)"
| "pair_update key f ns = ns"

definition mapping_update ::
    "string \<Rightarrow> ('m yaml_node \<Rightarrow> 'm yaml_node) \<Rightarrow> 'm yaml_node \<Rightarrow> 'm yaml_node" where
  "mapping_update key f node =
    (if y_kind node \<noteq> Yaml_Mapping then node
     else set_content (pair_update key f (y_content node)) node)"

text \<open>The members of one group after the hosts moved; \<open>by_name\<close> keeps the last node of each name.\<close>

definition by_name :: "'m yaml_node list \<Rightarrow> string \<Rightarrow> 'm yaml_node option" where
  "by_name members = fold (\<lambda>m t. t(scalar_value (Some m) \<mapsto> m)) members (\<lambda>_. None)"

definition reorder_members ::
    "(string \<Rightarrow> nat option) \<Rightarrow> 'm yaml_node list \<Rightarrow> 'm yaml_node list" where
  "reorder_members idx members =
    (let (changed, list) = reorder_names (map (\<lambda>m. scalar_value (Some m)) members) idx in
     if \<not> changed then members else map (\<lambda>n. the (by_name members n)) list)"

definition reorder_group :: "(string \<Rightarrow> nat option) \<Rightarrow> 'm yaml_node \<Rightarrow> 'm yaml_node" where
  "reorder_group idx g =
    mapping_update ''proxies''
      (\<lambda>m. if y_kind m \<noteq> Yaml_Sequence then m else set_content (reorder_members idx (y_content m)) m) g"

definition shuffle_clash :: "shuffler \<Rightarrow> 'm yaml_node \<Rightarrow> 'm yaml_node option" where
  "shuffle_clash s root =
    (if y_kind root \<noteq> Yaml_Mapping then None
     else
       (case mapping_value root ''proxies'' of
          None \<Rightarrow> None
        | Some proxies \<Rightarrow>
            if y_kind proxies \<noteq> Yaml_Sequence then None
            else
              (let hosts = y_content proxies;
                   names = map (\<lambda>p. scalar_value (mapping_value p ''name'')) hosts
               in case permutation s names of
                    None \<Rightarrow> None
                  | Some perm \<Rightarrow>
                      (let idx = new_index s names perm;
                           root = mapping_update ''proxies'' (set_content (map ((!) hosts) perm)) root
                       in Some (mapping_update ''proxy-groups''
                            (\<lambda>gs. if y_kind gs \<noteq> Yaml_Sequence then gs
                              else set_content (map (reorder_group idx) (y_content gs)) gs) root)))))"

definition apply_clash :: "'m yaml_lib \<Rightarrow> shuffler \<Rightarrow> string \<Rightarrow> string \<times> bool" where
  "apply_clash yl s body =
    (case yaml_read yl body of
       None \<Rightarrow> (body, False)
     | Some doc \<Rightarrow>
         (case y_content doc of
            [] \<Rightarrow> (body, False)
          | root # rest \<Rightarrow>
              (case shuffle_clash s root of
                 None \<Rightarrow> (body, False)
               | Some root' \<Rightarrow>
                   (case yaml_write yl (set_content (root' # rest) doc) of
                      None \<Rightarrow> (body, False)
                    | Some out \<Rightarrow> (out, True)))))"

section \<open>Apply\<close>

definition apply_shuffle ::
    "json_lib \<Rightarrow> 'm yaml_lib \<Rightarrow> (string \<Rightarrow> string option) \<Rightarrow> shuffler option \<Rightarrow> string \<Rightarrow> string \<times> bool" where
  "apply_shuffle js yl read_ps s body =
    (case s of
       None \<Rightarrow> (body, False)
     | Some sh \<Rightarrow>
         if \<not> shuffler_enabled s \<or> body = [] then (body, False)
         else
           (case sniff body of
              Format_Xray \<Rightarrow> apply_xray js sh body
            | Format_Singbox \<Rightarrow> apply_singbox js sh body
            | Format_Clash \<Rightarrow> apply_clash yl sh body
            | Format_Links \<Rightarrow> apply_links read_ps sh body
            | Format_Unknown \<Rightarrow> (body, False)))"

section \<open>What is kept\<close>

lemma object_set_keys: "map fst (object_set obj k v) = map fst obj"
  by (induction obj k v rule: object_set.induct) auto

lemma object_set_get:
  "object_get (object_set obj k v) j =
    (if j = k \<and> object_get obj k \<noteq> None then Some v else object_get obj j)"
  by (induction obj k v rule: object_set.induct) (auto simp: object_get_def)

text \<open>Shuffling an Xray list or the outbounds of a sing-box profile loses no host: the entries
  written are those read, each moved as a whole, apart from the by-name lists of selectors, which
  keep their names; and every other member of the profile keeps its value and its place.\<close>

theorem json_hosts_kept:
  "(case apply_xray js s body of
      (out, False) \<Rightarrow> out = body
    | (out, True) \<Rightarrow>
        (\<exists>items items'. js_array js body = Some items \<and> mset items' = mset items
           \<and> out = indent_like js body (marshal_array items')))
   \<and> (case apply_singbox js s body of
      (out, False) \<Rightarrow> out = body
    | (out, True) \<Rightarrow>
        (\<exists>root raw items items' idx root' t.
           js_members js body = Some root \<and> object_get root ''outbounds'' = Some raw
           \<and> js_array js raw = Some items \<and> mset items' = mset items
           \<and> root' = object_set root ''outbounds'' (marshal_array (map (rewrite_selector js idx) items'))
           \<and> map fst root' = map fst root
           \<and> (\<forall>k. if k = ''outbounds'' then True else object_get root' k = object_get root k)
           \<and> marshal_object js root' = Some t \<and> out = indent_like js body t))"
proof
  show "case apply_xray js s body of
      (out, False) \<Rightarrow> out = body
    | (out, True) \<Rightarrow>
        (\<exists>items items'. js_array js body = Some items \<and> mset items' = mset items
           \<and> out = indent_like js body (marshal_array items'))"
  proof (cases "js_array js body")
    case (Some items)
    show ?thesis
    proof (cases "permutation s (map (xray_name js) items)")
      case None
      with Some show ?thesis by (simp add: apply_xray_def)
    next
      case (Some p)
      then have "mset (map ((!) items) p) = mset items" by (rule hosts.moved_mset) simp
      with Some \<open>js_array js body = Some items\<close> show ?thesis
        by (auto simp: apply_xray_def intro!: exI [of _ "map ((!) items) p"])
    qed
  qed (simp add: apply_xray_def)
next
  have "out = body \<and> \<not> changed \<or> changed \<and> (\<exists>root raw items items' idx root' t.
           js_members js body = Some root \<and> object_get root ''outbounds'' = Some raw
           \<and> js_array js raw = Some items \<and> mset items' = mset items
           \<and> root' = object_set root ''outbounds'' (marshal_array (map (rewrite_selector js idx) items'))
           \<and> marshal_object js root' = Some t \<and> out = indent_like js body t)"
    if app: "apply_singbox js s body = (out, changed)" for out changed
  proof (cases "\<exists>root raw items p. js_members js body = Some root
      \<and> object_get root ''outbounds'' = Some raw \<and> js_array js raw = Some items
      \<and> permutation s (map (singbox_name js) items) = Some p")
    case False
    with app show ?thesis by (auto simp: apply_singbox_def Let_def split: option.splits)
  next
    case True
    then obtain root raw items p where *: "js_members js body = Some root"
      "object_get root ''outbounds'' = Some raw" "js_array js raw = Some items"
      "permutation s (map (singbox_name js) items) = Some p" by blast
    have m: "mset (map ((!) items) p) = mset items" by (rule hosts.moved_mset [OF *(4)]) simp
    let ?root = "object_set root ''outbounds'' (marshal_array (map (rewrite_selector js
        (new_index s (map (singbox_name js) items) p)) (map ((!) items) p)))"
    show ?thesis
    proof (cases "marshal_object js ?root")
      case None
      with app * show ?thesis by (simp add: apply_singbox_def Let_def)
    next
      case (Some t)
      with app * have "changed" "out = indent_like js body t"
        by (simp_all add: apply_singbox_def Let_def)
      with * m Some show ?thesis by blast
    qed
  qed
  then show "case apply_singbox js s body of
      (out, False) \<Rightarrow> out = body
    | (out, True) \<Rightarrow>
        (\<exists>root raw items items' idx root' t.
           js_members js body = Some root \<and> object_get root ''outbounds'' = Some raw
           \<and> js_array js raw = Some items \<and> mset items' = mset items
           \<and> root' = object_set root ''outbounds'' (marshal_array (map (rewrite_selector js idx) items'))
           \<and> map fst root' = map fst root
           \<and> (\<forall>k. if k = ''outbounds'' then True else object_get root' k = object_get root k)
           \<and> marshal_object js root' = Some t \<and> out = indent_like js body t)"
    by (auto simp: object_set_keys object_set_get split: bool.split)
qed

lemma by_name_append: "by_name (ms @ [m]) = (by_name ms)(scalar_value (Some m) \<mapsto> m)"
  by (simp add: by_name_def)

lemma by_name_Some:
  "n \<in> set (map (\<lambda>m. scalar_value (Some m)) ms) \<Longrightarrow>
    \<exists>m \<in> set ms. by_name ms n = Some m \<and> scalar_value (Some m) = n"
  by (induction ms rule: rev_induct) (auto simp: by_name_append)

lemma reorder_names_mset: "mset (snd (reorder_names names idx)) = mset names"
proof -
  let ?is = "filter (\<lambda>i. idx (names ! i) \<noteq> None) [0..<length names]"
  have "mset (assign ?is (sort_key (\<lambda>n. the (idx n)) (map ((!) names) ?is)) names) = mset names"
    by (rule mset_assign_perm) auto
  then show ?thesis by (simp add: reorder_names_def Let_def)
qed

text \<open>What the members of a group are called, and what is kept of them.\<close>

definition member_names :: "'m yaml_node list \<Rightarrow> string list" where
  "member_names ms = map (\<lambda>m. scalar_value (Some m)) ms"

definition members_kept :: "'m yaml_node list \<Rightarrow> 'm yaml_node list \<Rightarrow> bool" where
  "members_kept ms ms' \<longleftrightarrow>
    mset (member_names ms') = mset (member_names ms) \<and> (distinct (member_names ms) \<longrightarrow> mset ms' = mset ms)"

lemma members_kept_refl: "members_kept ms ms"
  by (simp add: members_kept_def)

lemma reorder_members_kept: "members_kept ms (reorder_members idx ms)"
proof (cases "fst (reorder_names (member_names ms) idx)")
  case True
  let ?list = "snd (reorder_names (member_names ms) idx)"
  let ?ms = "map (\<lambda>n. the (by_name ms n)) ?list"
  have list: "mset ?list = mset (member_names ms)" by (rule reorder_names_mset)
  then have "set ?list = set (member_names ms)" by (metis mset_eq_setD)
  then have found: "the (by_name ms n) \<in> set ms \<and> scalar_value (Some (the (by_name ms n))) = n"
    if "n \<in> set ?list" for n
    using that by_name_Some [of n ms] by (auto simp: member_names_def)
  then have names: "member_names ?ms = ?list" by (simp add: member_names_def map_idI)
  have "mset ?ms = mset ms" if "distinct (member_names ms)"
  proof -
    from that list have distinct: "distinct ?list" by (metis mset_eq_imp_distinct_iff)
    have sub: "set ?ms \<subseteq> set ms" using found by auto
    from distinct names have "distinct (member_names ?ms)" by simp
    then have "distinct ?ms" by (simp add: member_names_def distinct_map del: map_map)
    moreover have "distinct ms" using that by (simp add: member_names_def distinct_map)
    moreover have "length ?ms = length ms"
      using arg_cong [OF list, of size] by (simp add: member_names_def)
    ultimately have "set ?ms = set ms"
      using sub by (metis List.finite_set card_subset_eq distinct_card)
    with \<open>distinct ?ms\<close> \<open>distinct ms\<close> show ?thesis by (simp only: set_eq_iff_mset_eq_distinct)
  qed
  moreover have "reorder_members idx ms = ?ms"
    using True by (simp add: reorder_members_def split_beta flip: member_names_def)
  ultimately show ?thesis using names list by (simp add: members_kept_def del: mset_map)
qed (simp add: reorder_members_def members_kept_refl split_beta flip: member_names_def)

lemma pair_value_update:
  "pair_value k (pair_update key f ns) = (if k = key then map_option f (pair_value k ns) else pair_value k ns)"
  by (induction key f ns rule: pair_update.induct) auto

lemma mapping_value_update:
  "mapping_value (mapping_update key f n) k
    = (if k = key then map_option f (mapping_value n k) else mapping_value n k)"
  by (simp add: mapping_value_def mapping_update_def set_content_def pair_value_update)

lemma set_content_same [simp]: "set_content (y_content n) n = n"
  by (cases n) (simp add: set_content_def)

lemma mapping_update_missing:
  fixes n :: "'m yaml_node"
  assumes "mapping_value n key = None" shows "mapping_update key f n = n"
proof -
  have "pair_value key ns = None \<Longrightarrow> pair_update key f ns = ns" for ns :: "'m yaml_node list"
    by (induction key f ns rule: pair_update.induct) (auto split: if_splits)
  with assms show ?thesis by (simp add: mapping_value_def mapping_update_def split: if_splits)
qed

text \<open>A group after the shuffle: only the order of its members may have changed.\<close>

definition group_kept :: "'m yaml_node \<Rightarrow> 'm yaml_node \<Rightarrow> bool" where
  "group_kept g g' \<longleftrightarrow>
    y_kind g' = y_kind g \<and> y_value g' = y_value g \<and> y_meta g' = y_meta g
    \<and> (\<forall>k. k \<noteq> ''proxies'' \<longrightarrow> mapping_value g' k = mapping_value g k)
    \<and> (case mapping_value g ''proxies'' of
         None \<Rightarrow> g' = g
       | Some m \<Rightarrow>
           \<exists>ms. mapping_value g' ''proxies'' = Some (set_content ms m) \<and> members_kept (y_content m) ms)"

lemma reorder_group_kept: "group_kept g (reorder_group idx g)"
proof (cases "mapping_value g ''proxies''")
  case None
  then show ?thesis by (simp add: group_kept_def reorder_group_def mapping_update_missing)
next
  case (Some m)
  let ?ms = "if y_kind m \<noteq> Yaml_Sequence then y_content m else reorder_members idx (y_content m)"
  have "mapping_value (reorder_group idx g) ''proxies'' = Some (set_content ?ms m)" "members_kept (y_content m) ?ms"
    by (simp_all add: reorder_group_def mapping_value_update Some members_kept_refl reorder_members_kept)
  moreover have "y_kind (reorder_group idx g) = y_kind g" "y_value (reorder_group idx g) = y_value g"
    "y_meta (reorder_group idx g) = y_meta g"
    by (simp_all add: reorder_group_def mapping_update_def set_content_def)
  moreover have "mapping_value (reorder_group idx g) k = mapping_value g k" if "k \<noteq> ''proxies''" for k
    using that by (simp add: reorder_group_def mapping_value_update)
  ultimately show ?thesis unfolding group_kept_def Some option.case by blast
qed

text \<open>C29: In a Clash profile the host list is permuted, each host moved as a whole.  The proxy groups stay
  in their order, each with every entry it had but the list of its members, and there the names are
  those read, each as often as before; where the names are distinct the member nodes themselves are
  those read.  Every other top-level entry is the one read.  (Members that are no scalars all count
  as the empty name, so of several of them only the last is kept.)\<close>

theorem clash_hosts_kept:
  "(case shuffle_clash s root of
      None \<Rightarrow> True
    | Some root' \<Rightarrow>
        (\<exists>proxies hosts'. mapping_value root ''proxies'' = Some proxies
           \<and> mset hosts' = mset (y_content proxies)
           \<and> mapping_value root' ''proxies'' = Some (set_content hosts' proxies))
        \<and> (case mapping_value root ''proxy-groups'' of
             None \<Rightarrow> mapping_value root' ''proxy-groups'' = None
           | Some gs \<Rightarrow>
               (\<exists>gs'. mapping_value root' ''proxy-groups'' = Some (set_content gs' gs)
                  \<and> (if y_kind gs = Yaml_Sequence then list_all2 group_kept (y_content gs) gs'
                     else gs' = y_content gs)))
        \<and> (\<forall>k. if k = ''proxies'' \<or> k = ''proxy-groups'' then True
             else mapping_value root' k = mapping_value root k))"
proof (cases "shuffle_clash s root")
  case (Some root')
  then obtain proxies where proxies: "mapping_value root ''proxies'' = Some proxies"
    by (auto simp: shuffle_clash_def split: if_splits option.splits)
  let ?names = "map (\<lambda>p. scalar_value (mapping_value p ''name'')) (y_content proxies)"
  from Some proxies obtain p where p: "permutation s ?names = Some p"
    by (auto simp: shuffle_clash_def Let_def split: if_splits option.splits)
  have moved: "mset (map ((!) (y_content proxies)) p) = mset (y_content proxies)"
    by (rule hosts.moved_mset [OF p]) simp
  obtain idx where root': "root' = mapping_update ''proxy-groups''
      (\<lambda>gs. if y_kind gs \<noteq> Yaml_Sequence then gs else set_content (map (reorder_group idx) (y_content gs)) gs)
      (mapping_update ''proxies'' (set_content (map ((!) (y_content proxies)) p)) root)"
    using Some proxies p by (auto simp: shuffle_clash_def Let_def split: if_splits)
  have groups: "list_all2 group_kept gs (map (reorder_group idx) gs)" for gs
    by (simp add: list_all2_conv_all_nth reorder_group_kept)
  have "case mapping_value root ''proxy-groups'' of
      None \<Rightarrow> mapping_value root' ''proxy-groups'' = None
    | Some gs \<Rightarrow>
        (\<exists>gs'. mapping_value root' ''proxy-groups'' = Some (set_content gs' gs)
          \<and> (if y_kind gs = Yaml_Sequence then list_all2 group_kept (y_content gs) gs' else gs' = y_content gs))"
  proof (cases "mapping_value root ''proxy-groups''")
    case (Some gs)
    let ?gs = "if y_kind gs = Yaml_Sequence then map (reorder_group idx) (y_content gs) else y_content gs"
    have "mapping_value root' ''proxy-groups'' = Some (set_content ?gs gs)"
      by (simp add: root' mapping_value_update Some)
    with Some groups show ?thesis by (auto intro!: exI [of _ ?gs])
  qed (simp add: root' mapping_value_update)
  moreover have "mapping_value root' ''proxies'' = Some (set_content (map ((!) (y_content proxies)) p) proxies)"
    "if k = ''proxies'' \<or> k = ''proxy-groups'' then True else mapping_value root' k = mapping_value root k" for k
    by (simp_all add: root' mapping_value_update proxies)
  ultimately show ?thesis using proxies moved unfolding Some option.case by blast
qed simp

definition yaml_name :: "string \<Rightarrow> nat yaml_node" where
  "yaml_name n = Node Yaml_Scalar n [] 0"

text \<open>
  Members that are no scalars, such as aliases, all count as the empty name, and the last of them takes
  the place of the others.
\<close>

lemma alias_members_collapse:
  "map y_value (reorder_members [''a'' \<mapsto> 0, ''b'' \<mapsto> 1]
      [Node Yaml_Alias ''x'' [] (0 :: nat), Node Yaml_Alias ''y'' [] 0, yaml_name ''b'', yaml_name ''a''])
    = [''y'', ''y'', ''a'', ''b'']"
  by code_simp

end
