(* ===== verification/Placeholder.thy ===== *)
theory Placeholder
  imports Links
begin

text \<open>
  File \<open>internal/hosts/placeholder.go\<close>: bodies made of dead hosts, one per line of a message.  The
  documents are values of a JSON-like type; turning one into text, \<open>json.MarshalIndent\<close> and
  \<open>yaml.Marshal\<close>, is a parameter here, and \<open>Placeholder_Json\<close> supplies the former.
\<close>

datatype doc = Doc_String string | Doc_Int int | Doc_List "doc list" | Doc_Map "(string \<times> doc) list"

definition placeholder_server :: string where
  "placeholder_server = ''0.0.0.0''"

definition placeholder_port :: int where
  "placeholder_port = 1"

definition placeholder_uuid :: string where
  "placeholder_uuid = ''00000000-0000-0000-0000-000000000000''"

fun unique_from :: "string list \<Rightarrow> string list \<Rightarrow> string list" where
  "unique_from seen [] = []"
| "unique_from seen (n # ns) =
    (let name = trim_space n
     in if name = [] then unique_from seen ns
        else if name \<in> set seen then unique_from seen ns
        else name # unique_from (name # seen) ns)"

definition unique_names :: "string list \<Rightarrow> string list" where
  "unique_names names = unique_from [] names"

definition placeholder_link :: "string \<Rightarrow> string" where
  "placeholder_link name =
    ''vless://'' @ placeholder_uuid @ ''@'' @ placeholder_server @ '':'' @ format_int placeholder_port
    @ ''?type=tcp&security=none#'' @ path_escape name"

definition placeholder_links :: "string list \<Rightarrow> string" where
  "placeholder_links names =
    b64_encode StdEncoding (join [newline] (map placeholder_link names))"

definition placeholder_xray :: "string list \<Rightarrow> doc" where
  "placeholder_xray names =
    Doc_List (map (\<lambda>name.
      Doc_Map
        [(''remarks'', Doc_String name),
         (''outbounds'', Doc_List
           [Doc_Map
             [(''tag'', Doc_String ''proxy''), (''protocol'', Doc_String ''vless''),
              (''settings'', Doc_Map
                [(''vnext'', Doc_List
                  [Doc_Map
                    [(''address'', Doc_String placeholder_server),
                     (''port'', Doc_Int placeholder_port),
                     (''users'', Doc_List
                       [Doc_Map [(''id'', Doc_String placeholder_uuid),
                                 (''encryption'', Doc_String ''none'')]])]])])]])]) names)"

definition placeholder_singbox :: "string list \<Rightarrow> doc" where
  "placeholder_singbox names =
    Doc_Map [(''outbounds'', Doc_List (map (\<lambda>name.
      Doc_Map
        [(''type'', Doc_String ''vless''), (''tag'', Doc_String name),
         (''server'', Doc_String placeholder_server), (''server_port'', Doc_Int placeholder_port),
         (''uuid'', Doc_String placeholder_uuid)]) names))]"

definition placeholder_clash :: "string list \<Rightarrow> doc" where
  "placeholder_clash names =
    Doc_Map
      [(''proxies'', Doc_List (map (\<lambda>name.
          Doc_Map
            [(''name'', Doc_String name), (''type'', Doc_String ''vless''),
             (''server'', Doc_String placeholder_server), (''port'', Doc_Int placeholder_port),
             (''uuid'', Doc_String placeholder_uuid)]) names)),
       (''proxy-groups'', Doc_List
         [Doc_Map
           [(''name'', Doc_String ''PROXY''), (''type'', Doc_String ''select''),
            (''proxies'', Doc_List (map Doc_String names))]]),
       (''rules'', Doc_List [Doc_String ''MATCH,PROXY''])]"

record marshaller =
  to_json :: "doc \<Rightarrow> string"
  to_yaml :: "doc \<Rightarrow> string"

definition placeholder :: "marshaller \<Rightarrow> format \<Rightarrow> string list \<Rightarrow> string" where
  "placeholder m fmt names =
    (let names = unique_names names
     in case fmt of
          Format_Xray \<Rightarrow> to_json m (placeholder_xray names)
        | Format_Singbox \<Rightarrow> to_json m (placeholder_singbox names)
        | Format_Clash \<Rightarrow> to_yaml m (placeholder_clash names)
        | _ \<Rightarrow> placeholder_links names)"

section \<open>Names\<close>

lemma unique_from_set:
  "set (unique_from seen ns) = (trim_space ` set ns - {[]}) - set seen"
  by (induction seen ns rule: unique_from.induct) (auto simp: Let_def)

lemma unique_from_distinct: "distinct (unique_from seen ns)"
  by (induction seen ns rule: unique_from.induct) (auto simp: Let_def unique_from_set)

lemma unique_from_same:
  "\<forall>n \<in> set ms. trim_space n = n \<and> n \<noteq> [] \<Longrightarrow> distinct ms \<Longrightarrow> set ms \<inter> set seen = {}
    \<Longrightarrow> unique_from seen ms = ms"
  by (induction ms arbitrary: seen) (simp_all add: Let_def)

text \<open>The hosts of a placeholder body are named after the message's lines: every non-blank line
  once, without the blanks around it, and no name twice, as sing-box and Clash demand.\<close>

theorem unique_names_correct:
  "distinct (unique_names ns) \<and> set (unique_names ns) = trim_space ` set ns - {[]}
   \<and> unique_names (unique_names ns) = unique_names ns"
proof -
  have names: "set (unique_names ns) = trim_space ` set ns - {[]}"
    by (simp add: unique_names_def unique_from_set)
  then have "\<forall>n \<in> set (unique_names ns). trim_space n = n \<and> n \<noteq> []" by auto
  moreover have dist: "distinct (unique_names ns)" by (simp add: unique_names_def unique_from_distinct)
  ultimately have "unique_from [] (unique_names ns) = unique_names ns"
    by (intro unique_from_same) simp_all
  with names dist show ?thesis by (metis unique_names_def)
qed

section \<open>Links\<close>

lemma path_escape_chars:
  assumes "c \<in> set (path_escape s)"
  shows "segment_byte c \<or> c = CHR ''%'' \<or> (\<exists>n < 16. c = hex_upper n)"
proof -
  from assms obtain x where x: "x \<in> set s" "c \<in> set (if segment_byte x then [x]
      else [CHR ''%'', hex_upper (byte x div 16), hex_upper (byte x mod 16)])"
    unfolding path_escape_def set_concat set_map by blast
  have "byte x div 16 < 16" using byte_less [of x] by (simp add: div_less_iff_less_mult)
  moreover have "byte x mod 16 < 16" by simp
  moreover from x(2) have "segment_byte c \<or> c = CHR ''%'' \<or> c = hex_upper (byte x div 16)
      \<or> c = hex_upper (byte x mod 16)" by (simp split: if_splits)
  ultimately show ?thesis by blast
qed

lemma hex_upper_alnum: "n < 16 \<Longrightarrow> is_alnum (hex_upper n)"
  by (auto simp: hex_upper_def is_alnum_def is_digit_def is_upper_def)

lemma path_escape_clean: "newline \<notin> set (path_escape s) \<and> CHR ''#'' \<notin> set (path_escape s)
    \<and> carriage_return \<notin> set (path_escape s)"
proof -
  have "\<not> segment_byte newline" "\<not> segment_byte (CHR ''#'')" "\<not> segment_byte carriage_return"
    "\<not> is_alnum newline" "\<not> is_alnum (CHR ''#'')" "\<not> is_alnum carriage_return"
    by code_simp+
  then show ?thesis by (auto dest!: path_escape_chars dest: hex_upper_alnum)
qed

definition link_front :: string where
  "link_front = ''00000000-0000-0000-0000-000000000000@0.0.0.0:1?type=tcp&security=none''"

lemma placeholder_link_front:
  "placeholder_link name = ''vless://'' @ link_front @ ''#'' @ path_escape name"
proof -
  have "format_int placeholder_port = ''1''" by code_simp
  then show ?thesis
    by (simp add: placeholder_link_def link_front_def placeholder_uuid_def placeholder_server_def)
qed

lemma link_front_clean: "newline \<notin> set link_front \<and> CHR ''#'' \<notin> set link_front"
  by (simp add: link_front_def)

lemma placeholder_link_line: "newline \<notin> set (placeholder_link name)"
  using path_escape_clean [of name] link_front_clean by (simp add: placeholder_link_front)

lemma cut_scheme: "cut ''://'' (''vless://'' @ r) = Some (''vless'', r)"
  by (simp add: has_prefix_def)

lemma placeholder_link_name: "link_name read_ps (placeholder_link name) = name"
proof -
  have "\<not> equal_fold ''vless'' ''vmess''" by code_simp
  moreover have "CHR ''#'' \<notin> set (''vless://'' @ link_front)" using link_front_clean by simp
  then have "fragment_name ((''vless://'' @ link_front) @ ''#'' @ path_escape name) = name"
    by (simp add: fragment_name_def cut_single_append path_unescape_escape)
  ultimately show ?thesis
    using cut_scheme [of "link_front @ ''#'' @ path_escape name"]
    by (simp only: link_name_def placeholder_link_front option.case prod.case append_assoc if_False)
qed

lemma b64_encode_no_colon: "CHR '':'' \<notin> set (b64_encode e xs)"
proof -
  have char: "b64_char e v \<noteq> CHR '':''" for e v
    by (auto simp: b64_char_def simp flip: byte_inject) (auto simp: byte_def)
  show ?thesis by (induction e xs rule: b64_encode.induct) (auto simp: char char [symmetric])
qed

lemma cut_no_colon: "CHR '':'' \<notin> set s \<Longrightarrow> cut ''://'' s = None"
  by (induction s) (auto simp: has_prefix_def)

lemma not_link_list:
  "CHR '':'' \<notin> set s \<Longrightarrow> \<not> is_link_list s"
proof (induction s rule: is_link_list.induct)
  case (1 s)
  have "set (fst (next_line s)) \<subseteq> set s \<and> set (snd (next_line s)) \<subseteq> set s"
    by (auto simp: next_line_def cut_single_Some split: option.splits)
  with "1.prems" have free: "CHR '':'' \<notin> set (fst (next_line s))" "CHR '':'' \<notin> set (snd (next_line s))"
    by auto
  then have "CHR '':'' \<notin> set (trim_space (fst (next_line s)))" using trim_space_set by blast
  then have "\<not> link_line (trim_space (fst (next_line s)))" by (simp add: link_line_def cut_no_colon)
  with 1 free show ?case by (subst is_link_list.simps) simp
qed

lemma link_list_vless:
  assumes "newline \<notin> set r" and "rest = [] \<or> hd rest = newline"
  shows "is_link_list (''vless://'' @ r @ rest)"
proof -
  let ?s = "''vless://'' @ r @ rest"
  have line: "fst (next_line ?s) = ''vless://'' @ r"
  proof (cases rest)
    case Nil
    with assms have "cut [newline] ?s = None" by (simp add: cut_single_None)
    with Nil show ?thesis by (simp add: next_line_def)
  next
    case (Cons c q)
    with assms have "cut [newline] ?s = Some (''vless://'' @ r, q)"
      using cut_single_append [of newline "''vless://'' @ r" q] by simp
    then show ?thesis by (simp add: next_line_def)
  qed
  have "stops space_encs (CHR ''/'')" by (rule graphic_stops) (simp_all add: byte_def)
  moreover have "trim_left ''vless:/'' = ''vless:/''" by code_simp
  ultimately have trim: "trim_space (''vless://'' @ r) = ''vless://'' @ trim_right r"
    using trim_space_around_stop [of "CHR ''/''" "''vless:/''" r] by simp
  have "is_scheme_name ''vless''" by code_simp
  then have "link_line (''vless://'' @ trim_right r)"
    unfolding link_line_def cut_scheme by simp
  then show ?thesis
    unfolding is_link_list.simps [of ?s] line trim by simp
qed

lemma trim_byte_right_free: "c \<notin> set s \<Longrightarrow> trim_byte_right c s = s"
proof -
  assume "c \<notin> set s"
  then have "rev s = [] \<or> hd (rev s) \<noteq> c" by (metis hd_in_set set_rev)
  then have "dropWhile (\<lambda>x. x = c) (rev s) = rev s" by (cases "rev s") auto
  then show ?thesis by (simp add: trim_byte_right_def)
qed

lemma placeholder_link_no_cr: "carriage_return \<notin> set (placeholder_link name)"
  using path_escape_clean [of name] by (simp add: placeholder_link_front link_front_def)

text \<open>A placeholder list reads back: it is taken for a base64-wrapped link list, and the name shown
  for each of its links is the line of the message it was made from.\<close>

theorem placeholder_links_readable:
  assumes "ns \<noteq> []"
  shows "\<exists>plain e. decode_list (placeholder_links ns) = Some (plain, Some e)
    \<and> line_names read_ps (split_byte newline plain) = ns"
proof -
  let ?ls = "map placeholder_link ns"
  let ?plain = "join [newline] ?ls"
  obtain n ms where ns: "ns = n # ms" using assms by (cases ns) auto
  have "\<exists>rest. ?plain = placeholder_link n @ rest \<and> (rest = [] \<or> hd rest = newline)"
    using ns by (cases ms) auto
  then obtain rest where rest: "?plain = placeholder_link n @ rest" "rest = [] \<or> hd rest = newline"
    by blast
  have "newline \<notin> set (link_front @ ''#'' @ path_escape n)"
    using link_front_clean path_escape_clean by auto
  then have "is_link_list ?plain"
    unfolding rest(1) placeholder_link_front append_assoc
    using link_list_vless [OF _ rest(2), of "link_front @ ''#'' @ path_escape n"] by simp
  then obtain e where "decode (placeholder_links ns) (Some is_link_list) = Some (?plain, e)"
    using decode_encode_accept [where accept = "Some is_link_list" and xs = ?plain and e = StdEncoding]
    by (auto simp: placeholder_links_def)
  moreover have "\<not> is_link_list (placeholder_links ns)"
    by (simp add: placeholder_links_def not_link_list b64_encode_no_colon)
  ultimately have "decode_list (placeholder_links ns) = Some (?plain, Some e)"
    by (simp add: decode_list_def)
  moreover have "split_byte newline ?plain = ?ls"
    using assms by (intro split_join) (auto simp: placeholder_link_line)
  then have "line_names read_ps (split_byte newline ?plain) = ns"
    by (simp add: line_names_def trim_byte_right_free placeholder_link_no_cr placeholder_link_name
        o_def)
  ultimately show ?thesis by blast
qed

theorem placeholder_links_readable_witness:
  "\<exists>plain e. decode_list (placeholder_links [''hi #1'', ''there'']) = Some (plain, Some e)
    \<and> line_names (\<lambda>_. None) (split_byte newline plain) = [''hi #1'', ''there'']"
  by (rule placeholder_links_readable) simp

end
