(* ===== verification/Realip.thy ===== *)
theory Realip
  imports Go_Http Case_Facts
begin

text \<open>
  File \<open>internal/realip/realip.go\<close>: which of the addresses a request names is the client's.  The
  parsing, printing and matching of addresses (\<open>net/netip\<close>) is an interface over two open types, one
  of addresses and one of prefixes, which Netip provides; \<open>net.SplitHostPort\<close> is written out.
\<close>

record ('a, 'p) netip =
  parse_addr :: "string \<Rightarrow> 'a option"
  unmap :: "'a \<Rightarrow> 'a"
  without_zone :: "'a \<Rightarrow> 'a"
  show_addr :: "'a \<Rightarrow> string"
  parse_prefix :: "string \<Rightarrow> 'p option"
  single :: "'a \<Rightarrow> 'p"
  prefix_contains :: "'p \<Rightarrow> 'a \<Rightarrow> bool"

record 'p ip_resolver =
  trust_all :: bool
  hops :: int
  nets :: "'p list"

definition presets :: "(string, string list) gomap" where
  "presets =
    [(''loopback'', [''127.0.0.0/8'', ''::1/128'']),
     (''linklocal'', [''169.254.0.0/16'', ''fe80::/10'']),
     (''uniquelocal'', [''10.0.0.0/8'', ''172.16.0.0/12'', ''192.168.0.0/16'', ''fc00::/7''])]"

datatype trust_error = Negative_Hops int | Bad_Entry string | No_Networks string

definition no_trust :: "'p ip_resolver" where
  "no_trust = \<lparr>trust_all = False, hops = 0, nets = []\<rparr>"

text \<open>One token of the list: the networks it adds, or the token when it is none.\<close>

definition parse_token :: "('a, 'p) netip \<Rightarrow> string \<Rightarrow> trust_error + 'p list" where
  "parse_token ip tok =
    (let token = trim_space tok in
     if token = [] then Inr []
     else
       (case map_of presets (to_lower token) of
          Some cidrs \<Rightarrow> Inr (List.map_filter (parse_prefix ip) cidrs)
        | None \<Rightarrow>
            (case parse_prefix ip token of
               Some p \<Rightarrow> Inr [p]
             | None \<Rightarrow>
                 (case parse_addr ip token of
                    None \<Rightarrow> Inl (Bad_Entry token)
                  | Some a \<Rightarrow> Inr [single ip a]))))"

fun parse_tokens :: "('a, 'p) netip \<Rightarrow> string list \<Rightarrow> 'p list \<Rightarrow> trust_error + 'p list" where
  "parse_tokens ip [] acc = Inr acc"
| "parse_tokens ip (tok # toks) acc =
    (case parse_token ip tok of
       Inl e \<Rightarrow> Inl e
     | Inr ps \<Rightarrow> parse_tokens ip toks (acc @ ps))"

definition parse_trust :: "('a, 'p) netip \<Rightarrow> string \<Rightarrow> trust_error + 'p ip_resolver" where
  "parse_trust ip raw =
    (let spec = trim_space raw in
     if spec = [] then Inr no_trust
     else if to_lower spec = ''true'' then Inr (no_trust\<lparr>trust_all := True\<rparr>)
     else if to_lower spec = ''false'' then Inr no_trust
     else
       (case parse_int spec of
          Some n \<Rightarrow> if n < 0 then Inl (Negative_Hops n) else Inr (no_trust\<lparr>hops := n\<rparr>)
        | None \<Rightarrow>
            (case parse_tokens ip (split_byte (CHR '','') spec) [] of
               Inl e \<Rightarrow> Inl e
             | Inr ps \<Rightarrow> if ps = [] then Inl (No_Networks spec) else Inr (no_trust\<lparr>nets := ps\<rparr>))))"

section \<open>Addresses of a request\<close>

definition normalize :: "('a, 'p) netip \<Rightarrow> string \<Rightarrow> string" where
  "normalize ip raw =
    (let s = trim_space raw in
     if s = [] then []
     else
       (case parse_addr ip s of
          None \<Rightarrow> s
        | Some a \<Rightarrow> show_addr ip (without_zone ip (unmap ip a))))"

text \<open>The host of \<open>net.SplitHostPort\<close>, \<open>None\<close> for any of its errors.\<close>

definition split_host_port :: "string \<Rightarrow> string option" where
  "split_host_port hp =
    (case last_index (CHR '':'') hp of
       None \<Rightarrow> None
     | Some i \<Rightarrow>
         if hd hp = CHR ''['' then
           (case first_index (CHR '']'') hp of
              None \<Rightarrow> None
            | Some e \<Rightarrow>
                if e + 1 \<noteq> i then None
                else if CHR ''['' \<in> set (tl hp) \<or> CHR '']'' \<in> set (drop (e + 1) hp) then None
                else Some (take (e - 1) (tl hp)))
         else if CHR '':'' \<in> set (take i hp) then None
         else if CHR ''['' \<in> set hp \<or> CHR '']'' \<in> set hp then None
         else Some (take i hp))"

record ip_request =
  req_forwarded :: "string list"
  remote_addr :: string

definition peer_ip :: "('a, 'p) netip \<Rightarrow> ip_request \<Rightarrow> string" where
  "peer_ip ip rq =
    normalize ip
      (case split_host_port (remote_addr rq) of Some host \<Rightarrow> host | None \<Rightarrow> remote_addr rq)"

definition forwarded_chain :: "('a, 'p) netip \<Rightarrow> string list \<Rightarrow> string list" where
  "forwarded_chain ip values =
    concat (map (\<lambda>v. filter (\<lambda>s. s \<noteq> []) (map (\<lambda>part. normalize ip (trim_space part))
      (split_byte (CHR '','') v))) values)"

definition trusted :: "('a, 'p) netip \<Rightarrow> 'p ip_resolver \<Rightarrow> string \<Rightarrow> bool" where
  "trusted ip r s =
    (case parse_addr ip s of
       None \<Rightarrow> False
     | Some a \<Rightarrow> list_ex (\<lambda>p. prefix_contains ip p (unmap ip a)) (nets r))"

definition client_ip :: "('a, 'p) netip \<Rightarrow> 'p ip_resolver \<Rightarrow> ip_request \<Rightarrow> string" where
  "client_ip ip r rq =
    (let peer = peer_ip ip rq in
     if \<not> trust_all r \<and> hops r = 0 \<and> nets r = [] then peer
     else
       (let forwarded = forwarded_chain ip (req_forwarded rq) in
        if forwarded = [] then peer
        else if trust_all r then hd forwarded
        else if hops r > 0 then
          (let chain = forwarded @ [peer]; idx = int (length chain) - 1 - hops r
           in chain ! nat (max 0 idx))
        else if nets r \<noteq> [] then
          (let chain = forwarded @ [peer]
           in case find (\<lambda>s. \<not> trusted ip r s) (rev chain) of Some s \<Rightarrow> s | None \<Rightarrow> hd chain)
        else peer))"

text \<open>The address reported is one of those the request names.\<close>

lemma client_ip_in_chain:
  "client_ip ip r rq \<in> set (forwarded_chain ip (req_forwarded rq) @ [peer_ip ip rq])"
proof -
  let ?f = "forwarded_chain ip (req_forwarded rq)" and ?p = "peer_ip ip rq"
  let ?chain = "?f @ [?p]"
  have hop: "?chain ! nat (max 0 (int (length ?chain) - 1 - hops r)) \<in> set ?chain" if "0 < hops r"
    by (rule nth_mem) (use that in simp)
  have "s \<in> set ?chain" if "find (\<lambda>s. \<not> trusted ip r s) (rev ?chain) = Some s" for s
    using that by (metis find_Some_iff nth_mem set_rev)
  then have net: "(case find (\<lambda>s. \<not> trusted ip r s) (rev ?chain) of Some s \<Rightarrow> s | None \<Rightarrow> hd ?chain) \<in> set ?chain"
    using hd_in_set [of ?chain] by (simp only: split: option.split) blast
  have "?f \<noteq> [] \<Longrightarrow> hd ?f \<in> set ?chain" by simp
  with hop net show ?thesis unfolding client_ip_def Let_def by (simp split del: option.split)
qed

section \<open>Canonical addresses\<close>

text \<open>
  What the resolver relies on of \<open>net/netip\<close>: a printed address reads back, printing without a zone
  leaves no space at the ends, and unwrapping and dropping the zone are done after one round.
\<close>

locale address_laws =
  fixes ip :: "('a, 'p) netip"
  assumes read_shown: "parse_addr ip (show_addr ip a) = Some a"
    and shown_nonempty: "show_addr ip a \<noteq> []"
    and shown_trimmed: "trim_space (show_addr ip (without_zone ip a)) = show_addr ip (without_zone ip a)"
    and unmap_once: "unmap ip (without_zone ip (unmap ip a)) = without_zone ip (unmap ip a)"
    and zone_once: "without_zone ip (without_zone ip a) = without_zone ip a"
begin

lemma normalize_cases:
  "normalize ip s = (case parse_addr ip (trim_space s) of
      None \<Rightarrow> trim_space s | Some a \<Rightarrow> if trim_space s = [] then [] else show_addr ip (without_zone ip (unmap ip a)))"
  by (simp add: normalize_def Let_def split: option.split)

lemma normalize_idem: "normalize ip (normalize ip s) = normalize ip s"
proof (cases "trim_space s = []")
  case False
  then show ?thesis
    by (cases "parse_addr ip (trim_space s)")
      (simp_all add: normalize_def Let_def shown_trimmed shown_nonempty read_shown unmap_once zone_once)
qed (simp add: normalize_def)

lemma normalize_read:
  assumes "parse_addr ip (normalize ip s) = Some a"
  shows "normalize ip s = [] \<or> (\<exists>b. a = without_zone ip (unmap ip b) \<and> normalize ip s = show_addr ip a)"
proof (cases "trim_space s = []")
  case False
  then show ?thesis
    using assms by (cases "parse_addr ip (trim_space s)") (auto simp: normalize_def Let_def read_shown)
qed (simp add: normalize_def)

lemma chain_normal: "s \<in> set (forwarded_chain ip vs) \<Longrightarrow> \<exists>t. s = normalize ip t"
  by (auto simp: forwarded_chain_def)

lemma peer_normal: "\<exists>t. peer_ip ip rq = normalize ip t"
  by (auto simp: peer_ip_def)

lemma client_normal: "\<exists>t. client_ip ip r rq = normalize ip t"
proof -
  let ?chain = "forwarded_chain ip (req_forwarded rq) @ [peer_ip ip rq]"
  have "client_ip ip r rq \<in> set ?chain" by (rule client_ip_in_chain)
  then show ?thesis using chain_normal peer_normal by auto
qed

lemma client_canonical: "normalize ip (client_ip ip r rq) = client_ip ip r rq"
  using client_normal normalize_idem by metis

end

section \<open>Forged addresses\<close>

lemma forwarded_chain_append:
  "forwarded_chain ip (xs @ ys) = forwarded_chain ip xs @ forwarded_chain ip ys"
  by (simp add: forwarded_chain_def)

lemma forwarded_chain_joined:
  "forwarded_chain ip ((a @ CHR '','' # b) # vs) = forwarded_chain ip (a # b # vs)"
proof -
  have "split_byte (CHR '','') (a @ CHR '','' # b) = split_byte (CHR '','') a @ split_byte (CHR '','') b"
  proof (induction a)
    case (Cons x a)
    then show ?case
      by (cases "split_byte (CHR '','') a") (auto split: list.split)
  qed simp
  then show ?thesis by (simp add: forwarded_chain_def)
qed

lemma find_append_Some: "find P xs = Some y \<Longrightarrow> find P (xs @ ys) = Some y"
  by (induction xs) auto

lemma client_ip_hops:
  assumes "\<not> trust_all r" "0 < hops r" "forwarded_chain ip (req_forwarded rq) \<noteq> []"
  shows "client_ip ip r rq = (forwarded_chain ip (req_forwarded rq) @ [peer_ip ip rq])
    ! nat (max 0 (int (length (forwarded_chain ip (req_forwarded rq))) - hops r))"
  using assms by (simp add: client_ip_def Let_def)

lemma client_ip_nets:
  assumes "\<not> trust_all r" "hops r = 0" "nets r \<noteq> []" "forwarded_chain ip (req_forwarded rq) \<noteq> []"
  shows "client_ip ip r rq =
    (case find (\<lambda>s. \<not> trusted ip r s) (rev (forwarded_chain ip (req_forwarded rq) @ [peer_ip ip rq])) of
       Some s \<Rightarrow> s | None \<Rightarrow> hd (forwarded_chain ip (req_forwarded rq)))"
  using assms by (simp add: client_ip_def Let_def split: option.split)

lemma peer_ip_forwarded: "peer_ip ip (rq\<lparr>req_forwarded := fs\<rparr>) = peer_ip ip rq"
  by (simp add: peer_ip_def split: option.split)

text \<open>C30: What a client can do about its address where a number of hops is trusted.  Values that it sends
  ahead of those the proxies add change nothing as long as the chain without them holds at least as
  many addresses as hops are trusted.  In a shorter chain \<open>ClientIP\<close> counts into the client's own
  values, and where even they do not suffice it takes the first of them.\<close>

theorem hops_not_spoofable:
  assumes "\<not> trust_all r" and "0 < hops r"
  shows "client_ip ip r (rq\<lparr>req_forwarded := fake @ req_forwarded rq\<rparr>) =
    (let own = forwarded_chain ip fake; added = forwarded_chain ip (req_forwarded rq) in
     if hops r \<le> int (length added) \<or> own = [] then client_ip ip r rq
     else own ! (length own + length added - nat (hops r)))"
proof -
  let ?f = "forwarded_chain ip fake" and ?c = "forwarded_chain ip (req_forwarded rq)"
  let ?p = "peer_ip ip rq" and ?rq = "rq\<lparr>req_forwarded := fake @ req_forwarded rq\<rparr>"
  define n where "n = nat (hops r)"
  have n: "hops r = int n" "0 < n" using assms by (simp_all add: n_def)
  have index: "nat (max 0 (int k - int n)) = k - n" for k by simp
  have faked: "client_ip ip r ?rq = (?f @ ?c @ [?p]) ! (length ?f + length ?c - n)" if "?f @ ?c \<noteq> []"
    using client_ip_hops [OF assms, of ip ?rq] that n index [of "length ?f + length ?c"]
    by (simp add: forwarded_chain_append peer_ip_forwarded)
  have plain: "client_ip ip r rq = (?c @ [?p]) ! (length ?c - n)" if "?c \<noteq> []"
    using client_ip_hops [OF assms that] n index [of "length ?c"] by simp
  consider "?f = []" | "?f \<noteq> []" "n \<le> length ?c" | "?f \<noteq> []" "length ?c < n" by linarith
  then show ?thesis
  proof cases
    case 1
    show ?thesis
    proof (cases "?c = []")
      case True
      with 1 show ?thesis by (simp add: client_ip_def Let_def forwarded_chain_append peer_ip_forwarded)
    next
      case False
      with 1 faked plain show ?thesis by simp
    qed
  next
    case 2
    then have ne: "?c \<noteq> []" using n(2) by auto
    from 2 have "length ?f + length ?c - n = length ?f + (length ?c - n)" by simp
    with faked plain [OF ne] ne have "client_ip ip r ?rq = client_ip ip r rq"
      by (simp only: nth_append_length_plus) simp
    with 2 n(1) show ?thesis by (simp add: Let_def)
  next
    case 3
    then have "length ?f + length ?c - n < length ?f" by (cases ?f) auto
    with 3 faked n show ?thesis by (simp add: nth_append Let_def)
  qed
qed

text \<open>With trusted networks the address reported is the last one in the chain that is not trusted,
  or the first one when all are; so what a client puts in front of an address that the proxies
  vouch for cannot replace it.\<close>

theorem nets_last_untrusted:
  assumes "\<not> trust_all r" and "hops r = 0" and "nets r \<noteq> []"
    and "forwarded_chain ip (req_forwarded rq) \<noteq> []"
  shows "(case find (\<lambda>s. \<not> trusted ip r s)
        (rev (forwarded_chain ip (req_forwarded rq) @ [peer_ip ip rq])) of
      Some s \<Rightarrow> \<not> trusted ip r s
        \<and> client_ip ip r (rq\<lparr>req_forwarded := fake @ req_forwarded rq\<rparr>) = s
    | None \<Rightarrow> client_ip ip r rq = hd (forwarded_chain ip (req_forwarded rq)))"
proof (cases "find (\<lambda>s. \<not> trusted ip r s) (rev (forwarded_chain ip (req_forwarded rq) @ [peer_ip ip rq]))")
  case None
  then show ?thesis using client_ip_nets [OF assms] by simp
next
  case (Some s)
  let ?rq = "rq\<lparr>req_forwarded := fake @ req_forwarded rq\<rparr>"
  from find_append_Some [OF Some, of "rev (forwarded_chain ip fake)"]
  have "find (\<lambda>s. \<not> trusted ip r s) (rev (forwarded_chain ip (req_forwarded ?rq) @ [peer_ip ip ?rq]))
      = Some s"
    by (simp add: forwarded_chain_append peer_ip_forwarded)
  moreover have "forwarded_chain ip (req_forwarded ?rq) \<noteq> []"
    using assms(4) by (simp add: forwarded_chain_append)
  ultimately have "client_ip ip r ?rq = s"
    using client_ip_nets [OF assms(1-3), of ip ?rq] by simp
  moreover from Some have "\<not> trusted ip r s" by (metis find_Some_iff)
  ultimately show ?thesis using Some by simp
qed

text \<open>Reading \<open>TRUST_PROXY\<close> yields at most one way of trusting, and a resolver that trusts nobody
  ignores the forwarded addresses altogether.\<close>

theorem parse_trust_modes:
  "(case parse_trust ip spec of
      Inl _ \<Rightarrow> True
    | Inr r \<Rightarrow>
        (trust_all r \<and> hops r = 0 \<and> nets r = [])
        \<or> (\<not> trust_all r \<and> 0 < hops r \<and> nets r = [])
        \<or> (\<not> trust_all r \<and> hops r = 0 \<and> nets r \<noteq> [])
        \<or> (r = no_trust \<and> (\<forall>rq. client_ip ip r rq = peer_ip ip rq)))"
proof (cases "parse_trust ip spec")
  case (Inr r)
  consider "r = no_trust" | "r = no_trust\<lparr>trust_all := True\<rparr>"
    | n where "0 \<le> n" "r = no_trust\<lparr>hops := n\<rparr>" | ps where "ps \<noteq> []" "r = no_trust\<lparr>nets := ps\<rparr>"
    using Inr by (auto simp: parse_trust_def Let_def not_less split: if_splits option.splits sum.splits)
  then show ?thesis
  proof cases
    case (3 n)
    with Inr show ?thesis by (cases "n = 0") (auto simp: no_trust_def client_ip_def)
  qed (use Inr in \<open>auto simp: no_trust_def client_ip_def\<close>)
qed simp

text \<open>An instance with plain texts for addresses and their beginnings for prefixes.\<close>

definition sample_netip :: "(string, string) netip" where
  "sample_netip =
    \<lparr>parse_addr = (\<lambda>s. if CHR ''.'' \<in> set s then Some s else None), unmap = id, without_zone = id,
     show_addr = id, parse_prefix = (\<lambda>_. None), single = id, prefix_contains = (\<lambda>p a. has_prefix a p)\<rparr>"

definition sample_ip_request :: ip_request where
  "sample_ip_request = \<lparr>req_forwarded = [''1.2.3.4''], remote_addr = ''10.0.0.1:80''\<rparr>"

text \<open>One trusted hop and a proxy that added an address; and two trusted hops, where the address a client
  made up is the one reported.\<close>

theorem hops_not_spoofable_witness:
  "client_ip sample_netip (no_trust\<lparr>hops := 1\<rparr>) (sample_ip_request\<lparr>req_forwarded := [''6.6.6.6''] @ req_forwarded sample_ip_request\<rparr>)
    = client_ip sample_netip (no_trust\<lparr>hops := 1\<rparr>) sample_ip_request
   \<and> client_ip sample_netip (no_trust\<lparr>hops := 2\<rparr>) (sample_ip_request\<lparr>req_forwarded := [''6.6.6.6''] @ req_forwarded sample_ip_request\<rparr>)
    = ''6.6.6.6''"
proof -
  have "forwarded_chain sample_netip (req_forwarded sample_ip_request) = [''1.2.3.4'']"
    "forwarded_chain sample_netip [''6.6.6.6''] = [''6.6.6.6'']" by code_simp+
  then show ?thesis
    using hops_not_spoofable [where r = "no_trust\<lparr>hops := 1\<rparr>" and ip = sample_netip and rq = sample_ip_request
        and fake = "[''6.6.6.6'']"]
      hops_not_spoofable [where r = "no_trust\<lparr>hops := 2\<rparr>" and ip = sample_netip and rq = sample_ip_request
        and fake = "[''6.6.6.6'']"]
    by (simp add: no_trust_def)
qed

theorem nets_last_untrusted_witness:
  "client_ip sample_netip (no_trust\<lparr>nets := [''10.'']\<rparr>)
     (sample_ip_request\<lparr>req_forwarded := [''6.6.6.6''] @ req_forwarded sample_ip_request\<rparr>) = ''1.2.3.4''"
proof -
  have chain: "forwarded_chain sample_netip (req_forwarded sample_ip_request) = [''1.2.3.4'']"
    by code_simp
  have "peer_ip sample_netip sample_ip_request = ''10.0.0.1''" by code_simp
  with chain have "find (\<lambda>s. \<not> trusted sample_netip (no_trust\<lparr>nets := [''10.'']\<rparr>) s)
      (rev (forwarded_chain sample_netip (req_forwarded sample_ip_request)
        @ [peer_ip sample_netip sample_ip_request])) = Some ''1.2.3.4''"
    by (simp add: trusted_def sample_netip_def no_trust_def has_prefix_def)
  with nets_last_untrusted [where ip = sample_netip and r = "no_trust\<lparr>nets := [''10.'']\<rparr>"
      and rq = sample_ip_request and fake = "[''6.6.6.6'']"] chain
  show ?thesis by (simp add: no_trust_def)
qed

end
