(* ===== verification/Block.thy ===== *)
theory Block
  imports Go_Http Case_Facts Config_Types
begin

text \<open>
  Files \<open>internal/proxy/route.go\<close> and \<open>internal/proxy/block.go\<close>: what a path means, and which paths
  are refused before anything is forwarded.  Router and blocker share the splitting of a path and
  the stripping of the configured pfx.
\<close>

section \<open>Routes\<close>

definition client_type_names :: "string list" where
  "client_type_names = [''stash'', ''singbox'', ''mihomo'', ''json'', ''v2ray-json'', ''clash'']"

definition assets_dir :: string where
  "assets_dir = ''assets''"

definition reserved_segments :: "string list" where
  "reserved_segments = [assets_dir, ''api'', ''internal'', ''favicon'', ''robots'']"

record route =
  route_short_uuid :: string
  route_client_type :: string

definition no_route :: route where
  "no_route = \<lparr>route_short_uuid = [], route_client_type = []\<rparr>"

definition split_path :: "string \<Rightarrow> string list" where
  "split_path path =
    (let p = trim_byte (CHR ''/'') path in
     if p = [] then [] else filter (\<lambda>s. s \<noteq> []) (split_byte (CHR ''/'') p))"

definition next_part :: "string \<Rightarrow> string \<times> string" where
  "next_part pfx = (case cut ''/'' pfx of Some (a, b) \<Rightarrow> (a, b) | None \<Rightarrow> (pfx, []))"

lemma next_part_shorter: "pfx \<noteq> [] \<Longrightarrow> length (snd (next_part pfx)) < length pfx"
  by (auto simp: next_part_def cut_single_Some split: option.split)

text \<open>The flag says whether the whole prefix matched; on a mismatch what matched so far is gone.\<close>

function strip_prefix :: "string list \<Rightarrow> string \<Rightarrow> string list \<times> bool" where
  "strip_prefix segs pfx =
    (if pfx = [] then (segs, True)
     else
       (let (want, rest) = next_part pfx in
        if want = [] then strip_prefix segs rest
        else
          (case segs of
             [] \<Rightarrow> (segs, False)
           | s # ss \<Rightarrow> if s \<noteq> want then (segs, False) else strip_prefix ss rest)))"
  by pat_completeness auto
termination
  using next_part_shorter by (relation "measure (length \<circ> snd)") (auto, (metis snd_conv)+)

declare strip_prefix.simps [simp del]

definition plausible_short_uuid :: "string \<Rightarrow> bool" where
  "plausible_short_uuid s =
    (if s = [] \<or> length s > 128 \<or> contains s ''.'' then False
     else to_lower s \<notin> set reserved_segments)"

definition parse_route :: "string \<Rightarrow> string \<Rightarrow> route" where
  "parse_route path pfx =
    (let (segs, matched) = strip_prefix (split_path path) pfx in
     if \<not> matched then no_route
     else
       (case segs of
          [u] \<Rightarrow> if plausible_short_uuid u then no_route\<lparr>route_short_uuid := u\<rparr> else no_route
        | [u, ct] \<Rightarrow>
            if plausible_short_uuid u
            then \<lparr>route_short_uuid = u,
                  route_client_type = (if to_lower ct \<in> set client_type_names then to_lower ct else [])\<rparr>
            else no_route
        | _ \<Rightarrow> no_route))"

section \<open>The blocker\<close>

definition scanner_extensions :: "string list" where
  "scanner_extensions =
    [''.php'', ''.php3'', ''.php4'', ''.php5'', ''.phtml'',
     ''.asp'', ''.aspx'', ''.jsp'', ''.jspx'',
     ''.cgi'', ''.pl'', ''.py'', ''.rb'', ''.sh'', ''.bat'',
     ''.sql'', ''.sqlite'', ''.sqlite3'', ''.db'', ''.dump'',
     ''.bak'', ''.backup'', ''.old'', ''.orig'', ''.save'',
     ''.swp'', ''.swo'', ''.tmp'', ''.temp'',
     ''.dist'', ''.inc'',
     ''.ini'', ''.conf'', ''.cfg'', ''.cnf'', ''.config'',
     ''.properties'', ''.yml'', ''.yaml'', ''.toml'', ''.env'',
     ''.log'', ''.pem'', ''.key'', ''.crt'', ''.p12'', ''.jks'', ''.ppk'',
     ''.zip'', ''.tar'', ''.rar'', ''.7z'', ''.war'', ''.jar'']"

definition scanner_names :: "string list" where
  "scanner_names =
    [''env'', ''wordpress'', ''wp'', ''wp-admin'', ''wp-login'',
     ''wp-content'', ''wp-includes'',
     ''phpmyadmin'', ''pma'', ''myadmin'', ''dbadmin'', ''sqladmin'',
     ''adminer'', ''admin'', ''administrator'',
     ''vendor'', ''telescope'', ''actuator'', ''cgi-bin'',
     ''server-status'', ''server-info'', ''_profiler'', ''_ignition'',
     ''debug'', ''solr'', ''jenkins'', ''manager'', ''console'',
     ''jmx-console'', ''druid'', ''nacos'', ''geoserver'',
     ''owa'', ''autodiscover'', ''ecp'', ''hnap1'', ''boaform'',
     ''goform'', ''struts'', ''struts2'',
     ''backup'', ''backups'', ''dump'', ''db'', ''database'', ''sql'',
     ''config'', ''configs'', ''configuration'', ''settings'',
     ''secrets'', ''credentials'', ''shell'', ''cmd'']"

definition well_known :: string where
  "well_known = ''.well-known''"

definition app_config_ext :: string where
  "app_config_ext = ''.json''"

record blocker =
  blk_enabled :: bool
  blk_prefix :: string
  blk_patterns :: "regex list"

definition extension :: "string \<Rightarrow> string" where
  "extension s = (case last_index (CHR ''.'') s of None \<Rightarrow> [] | Some i \<Rightarrow> to_lower (drop i s))"

text \<open>One round of the last loop: does the segment at \<open>i\<close> condemn the path?\<close>

definition dot_refused :: "string list \<Rightarrow> nat \<Rightarrow> bool" where
  "dot_refused named i =
    (let s = named ! i in
     if \<not> has_prefix s ''.'' then False
     else if s = ''.'' \<or> s = ''..'' then True
     else if i = 0 \<and> equal_fold s well_known then False
     else if i = 1 \<and> i = length named - 1 \<and> equal_fold (named ! 0) assets_dir
       \<and> extension s = app_config_ext then False
     else True)"

definition blocked :: "blocker option \<Rightarrow> string \<Rightarrow> bool" where
  "blocked b path =
    (case b of
       None \<Rightarrow> False
     | Some b \<Rightarrow>
         if \<not> blk_enabled b then False
         else if list_ex (\<lambda>re. re path) (blk_patterns b) then True
         else
           (let segs = split_path path in
            if segs = [] then False
            else if list_ex (\<lambda>s. extension s \<in> set scanner_extensions) segs then True
            else
              (let named = fst (strip_prefix segs (blk_prefix b)) in
               if named = [] then False
               else if to_lower (hd named) \<in> set scanner_names then True
               else list_ex (dot_refused named) [0..<length named])))"

section \<open>Paths\<close>

lemma split_path_parts: "s \<in> set (split_path path) \<Longrightarrow> s \<noteq> [] \<and> CHR ''/'' \<notin> set s"
  by (auto simp: split_path_def Let_def dest: split_byte_no_sep split: if_splits)

lemma strip_prefix_suffix: "\<exists>pre. segs = pre @ fst (strip_prefix segs pfx)"
proof (induction segs pfx rule: strip_prefix.induct)
  case (1 segs pfx)
  obtain want rest where wr: "next_part pfx = (want, rest)" by fastforce
  show ?case
  proof (cases "pfx = [] \<or> (want \<noteq> [] \<and> (segs = [] \<or> hd segs \<noteq> want))")
    case True
    then show ?thesis by (subst strip_prefix.simps) (auto simp: wr split: list.split)
  next
    case False
    show ?thesis
    proof (cases "want = []")
      case True
      with False 1(1) [of "(want, rest)" want rest] wr show ?thesis
        by (subst strip_prefix.simps) simp
    next
      case nonempty: False
      with False obtain ss where segs: "segs = want # ss" by (cases segs) auto
      with False nonempty 1(2) [of "(want, rest)" want rest want ss] wr obtain pre where
        "ss = pre @ fst (strip_prefix ss rest)" by auto
      with segs False nonempty wr show ?thesis
        by (subst strip_prefix.simps) (auto intro: exI [of _ "want # pre"])
    qed
  qed
qed

text \<open>A path names a subscription only by a segment that is no file and no page of the
  application's own: not empty, no slash, no dot, at most 128 bytes, not reserved; and the client
  type, when there is one, is a known one in lower case.\<close>

theorem route_short_uuid_plausible:
  "route_short_uuid (parse_route path pfx) = []
     \<and> route_client_type (parse_route path pfx) = []
   \<or> (route_short_uuid (parse_route path pfx) \<in> set (split_path path)
      \<and> plausible_short_uuid (route_short_uuid (parse_route path pfx))
      \<and> CHR ''/'' \<notin> set (route_short_uuid (parse_route path pfx))
      \<and> CHR ''.'' \<notin> set (route_short_uuid (parse_route path pfx))
      \<and> route_client_type (parse_route path pfx) \<in> set ([] # client_type_names))"
proof -
  obtain segs matched where sp: "strip_prefix (split_path path) pfx = (segs, matched)" by fastforce
  then obtain pre where "split_path path = pre @ segs"
    using strip_prefix_suffix [of "split_path path" pfx] by auto
  then have sub: "set segs \<subseteq> set (split_path path)" by auto
  have dot: "plausible_short_uuid u \<Longrightarrow> CHR ''.'' \<notin> set u" for u
    by (auto simp: plausible_short_uuid_def contains_single split: if_splits)
  show ?thesis
    using sp sub split_path_parts dot
    by (auto simp: parse_route_def no_route_def Let_def split: list.splits if_splits)
qed

text \<open>C32: What gets past an enabled blocker.  Such a path matches none of the configured patterns, and no
  segment of it, prefix included, has an extension that no page serves.  Behind the prefix there is no
  segment \<open>.\<close> or \<open>..\<close>, the first segment is no scanner's word, and a segment that begins with a dot is
  \<open>.well-known\<close> in the first place, in any letter case, or a name with the extension \<open>.json\<close>, like that
  of the application's configuration, as the second and last after the assets directory.\<close>

theorem blocked_paths:
  assumes "blk_enabled b" and "\<not> blocked (Some b) path"
  shows "let named = fst (strip_prefix (split_path path) (blk_prefix b))
    in (\<forall>s \<in> set (split_path path). extension s \<notin> set scanner_extensions)
       \<and> (\<forall>re \<in> set (blk_patterns b). \<not> re path)
       \<and> ''.'' \<notin> set named \<and> ''..'' \<notin> set named
       \<and> (named \<noteq> [] \<longrightarrow> to_lower (hd named) \<notin> set scanner_names)
       \<and> (\<forall>i < length named. has_prefix (named ! i) ''.'' \<longrightarrow>
            (i = 0 \<and> equal_fold (named ! 0) well_known)
            \<or> (i = 1 \<and> length named = 2 \<and> equal_fold (named ! 0) assets_dir
                \<and> extension (named ! 1) = app_config_ext))"
proof -
  let ?named = "fst (strip_prefix (split_path path) (blk_prefix b))"
  have pats: "\<forall>re \<in> set (blk_patterns b). \<not> re path"
    using assms by (auto simp: blocked_def list_ex_iff Let_def split: if_splits)
  show ?thesis
  proof (cases "split_path path = []")
    case True
    then have "?named = []" using strip_prefix_suffix [of "split_path path" "blk_prefix b"] by simp
    with True pats show ?thesis by simp
  next
    case False
    then have ext: "\<forall>s \<in> set (split_path path). extension s \<notin> set scanner_extensions"
      and rest: "?named \<noteq> [] \<Longrightarrow> to_lower (hd ?named) \<notin> set scanner_names
        \<and> (\<forall>i < length ?named. \<not> dot_refused ?named i)"
      using assms pats by (auto simp: blocked_def list_ex_iff Let_def split: if_splits)
    have allowed: "(i = 0 \<and> equal_fold (?named ! 0) well_known)
        \<or> (i = 1 \<and> length ?named = 2 \<and> equal_fold (?named ! 0) assets_dir
            \<and> extension (?named ! 1) = app_config_ext)"
      and real: "?named ! i \<noteq> ''.''" "?named ! i \<noteq> ''..''"
      if i: "i < length ?named" "has_prefix (?named ! i) ''.''" for i
    proof -
      have "?named \<noteq> []" using i(1) by auto
      from rest [OF this] i(1) have "\<not> dot_refused ?named i" by blast
      with i show "(i = 0 \<and> equal_fold (?named ! 0) well_known)
        \<or> (i = 1 \<and> length ?named = 2 \<and> equal_fold (?named ! 0) assets_dir
            \<and> extension (?named ! 1) = app_config_ext)"
        "?named ! i \<noteq> ''.''" "?named ! i \<noteq> ''..''"
        by (auto simp: dot_refused_def Let_def split: if_splits)
    qed
    have "?named ! i \<noteq> ''.'' \<and> ?named ! i \<noteq> ''..''" if "i < length ?named" for i
      using real [OF that] by (auto simp: has_prefix_def)
    then have "''.'' \<notin> set ?named" "''..'' \<notin> set ?named"
      by (auto simp: in_set_conv_nth)
    with ext pats rest allowed show ?thesis by (auto simp: Let_def)
  qed
qed

definition sample_blocker :: blocker where
  "sample_blocker = \<lparr>blk_enabled = True, blk_prefix = ''sub'', blk_patterns = []\<rparr>"

theorem blocked_paths_witness:
  "\<not> blocked (Some sample_blocker) ''/sub/assets/.app-config-v2.json''
   \<and> extension ''.app-config-v2.json'' \<notin> set scanner_extensions \<and> to_lower ''assets'' \<notin> set scanner_names
   \<and> equal_fold ''assets'' assets_dir \<and> extension ''.app-config-v2.json'' = app_config_ext"
proof -
  have through: "\<not> blocked (Some sample_blocker) ''/sub/assets/.app-config-v2.json''" by code_simp
  moreover have "split_path ''/sub/assets/.app-config-v2.json'' = [''sub'', ''assets'', ''.app-config-v2.json'']"
    "fst (strip_prefix [''sub'', ''assets'', ''.app-config-v2.json''] ''sub'') = [''assets'', ''.app-config-v2.json'']"
    "has_prefix ''.app-config-v2.json'' ''.''"
    by code_simp+
  ultimately show ?thesis
    using blocked_paths [OF _ through] by (auto simp: sample_blocker_def Let_def dest: spec [of _ 1])
qed

section \<open>Subscriptions get through\<close>

definition plain_id :: "string \<Rightarrow> bool" where
  "plain_id u \<longleftrightarrow> u \<noteq> [] \<and> length u \<le> 128
    \<and> list_all (\<lambda>c. is_alnum c \<or> c = CHR ''_'' \<or> c = CHR ''-'') u"

lemma plain_id_chars: "plain_id u \<Longrightarrow> CHR ''/'' \<notin> set u \<and> CHR ''.'' \<notin> set u"
proof -
  have "\<not> is_alnum (CHR ''/'')" "\<not> is_alnum (CHR ''.'')" by code_simp+
  then show "plain_id u \<Longrightarrow> ?thesis" by (auto simp: plain_id_def list_all_iff)
qed

lemma split_path_single:
  assumes "u \<noteq> []" "CHR ''/'' \<notin> set u" shows "split_path (CHR ''/'' # u) = [u]"
proof -
  have "dropWhile (\<lambda>x. x = CHR ''/'') u = u" using assms by (cases u) auto
  moreover have "dropWhile (\<lambda>x. x = CHR ''/'') (rev u) = rev u"
    using assms by (cases "rev u") (auto simp: rev_eq_Cons_iff)
  ultimately have "trim_byte (CHR ''/'') (CHR ''/'' # u) = u"
    by (simp add: trim_byte_def trim_byte_left_def trim_byte_right_def)
  with assms show ?thesis by (simp add: split_path_def split_byte_free)
qed

lemma strip_no_prefix [simp]: "strip_prefix segs [] = (segs, True)"
  by (simp add: strip_prefix.simps)

lemma extension_no_dot: "CHR ''.'' \<notin> set s \<Longrightarrow> extension s = []"
proof -
  assume "CHR ''.'' \<notin> set s"
  then have "last_index (CHR ''.'') s = None"
    by (auto simp: last_index_def find_None_iff in_set_conv_nth)
  then show ?thesis by (simp add: extension_def)
qed

text \<open>The filter does not stand in the way of a subscription: a path of one plain identifier that is
  no scanner's word passes it (with no patterns of the operator's own), and the router takes it for
  that subscription unless the page has reserved the word.\<close>

theorem subscription_passes:
  assumes "plain_id u" and "to_lower u \<notin> set scanner_names"
  shows "\<not> blocked (Some \<lparr>blk_enabled = on, blk_prefix = [], blk_patterns = []\<rparr>) (CHR ''/'' # u)
    \<and> route_short_uuid (parse_route (CHR ''/'' # u) [])
      = (if to_lower u \<in> set reserved_segments then [] else u)"
proof -
  have u: "u \<noteq> []" "CHR ''/'' \<notin> set u" "CHR ''.'' \<notin> set u" "length u \<le> 128"
    using assms(1) plain_id_chars by (auto simp: plain_id_def)
  then have path: "split_path (CHR ''/'' # u) = [u]" by (simp add: split_path_single)
  have "[] \<notin> set scanner_extensions" by (simp add: scanner_extensions_def)
  moreover have "\<not> has_prefix u ''.''" using u(1,3) by (cases u) (auto simp: has_prefix_def)
  ultimately have "\<not> blocked (Some \<lparr>blk_enabled = on, blk_prefix = [], blk_patterns = []\<rparr>) (CHR ''/'' # u)"
    using assms(2) u by (simp add: blocked_def path extension_no_dot dot_refused_def)
  moreover have "plausible_short_uuid u = (to_lower u \<notin> set reserved_segments)"
    using u by (simp add: plausible_short_uuid_def contains_single)
  ultimately show ?thesis by (simp add: parse_route_def path no_route_def)
qed

theorem subscription_passes_witness:
  "route_short_uuid (parse_route ''/aB3_x-9'' []) = ''aB3_x-9''"
proof -
  have "plain_id ''aB3_x-9''" "to_lower ''aB3_x-9'' \<notin> set scanner_names"
    "to_lower ''aB3_x-9'' \<notin> set reserved_segments" by code_simp+
  with subscription_passes [of "''aB3_x-9''" True] show ?thesis by simp
qed

end
