(* ===== verification/Patterns.thy ===== *)
theory Patterns
  imports Config_Types Block
begin

text \<open>
  Files \<open>internal/config/patterns.go\<close> and \<open>useragents.go\<close>, and what \<open>internal/proxy\<close> builds of them:
  the operator's regular expressions and user-agent rules, checked and compiled.  Compiling one
  expression is a parameter that answers with the matcher or the text of the error; an error is
  the list of its lines.
\<close>

type_synonym compiler = "string \<Rightarrow> string + regex"

definition compile_pattern :: "compiler \<Rightarrow> string \<Rightarrow> string + regex" where
  "compile_pattern cc pattern =
    (let p = trim_space pattern in
     if p = [] then Inl ''needs a pattern''
     else
       (case cc p of
          Inl e \<Rightarrow> Inl (''is not a valid regexp: '' @ e)
        | Inr re \<Rightarrow> Inr re))"

definition indexed :: "string \<Rightarrow> nat \<Rightarrow> string" where
  "indexed field i = field @ ''['' @ nat_digits i @ '']''"

text \<open>The loop of \<open>compilePatterns\<close> from index \<open>i\<close> on: the problems found and the matchers made.\<close>

fun compile_from :: "compiler \<Rightarrow> string \<Rightarrow> nat \<Rightarrow> string list \<Rightarrow> string list \<times> regex list" where
  "compile_from cc field i [] = ([], [])"
| "compile_from cc field i (p # ps) =
    (let (problems, compiled) = compile_from cc field (Suc i) ps
     in case compile_pattern cc p of
          Inl e \<Rightarrow> ((indexed field i @ '' '' @ e) # problems, compiled)
        | Inr re \<Rightarrow> (problems, re # compiled))"

definition compile_patterns :: "compiler \<Rightarrow> string \<Rightarrow> string list \<Rightarrow> string list + regex list" where
  "compile_patterns cc field patterns =
    (let (problems, compiled) = compile_from cc field 0 patterns
     in if problems \<noteq> [] then Inl problems else Inr compiled)"

definition compile_block :: "compiler \<Rightarrow> block_opts \<Rightarrow> string list + regex list" where
  "compile_block cc b = compile_patterns cc ''block.patterns'' (block_patterns b)"

definition compile_hosts :: "compiler \<Rightarrow> hosts_opts \<Rightarrow> string list + regex list" where
  "compile_hosts cc h = compile_patterns cc ''hosts.shuffle'' (shuffle_patterns h)"

text \<open>\<open>problemList\<close>: the lines of the joined error.\<close>

definition problem_list :: "string list + 'a \<Rightarrow> string list" where
  "problem_list r =
    (case r of Inr _ \<Rightarrow> [] | Inl es \<Rightarrow> split_byte (CHR 0x0A) (join [CHR 0x0A] es))"

section \<open>User agents\<close>

record compiled_agent =
  ca_rule :: user_agent_rule
  ca_regexp :: regex

definition agent_label :: "nat \<Rightarrow> user_agent_rule \<Rightarrow> string" where
  "agent_label i r =
    (let name = trim_space (agent_name r) in
     indexed ''user_agents.rules'' i @ (if name \<noteq> [] then '' ('' @ name @ '')'' else []))"

definition named_rule :: "nat \<Rightarrow> user_agent_rule \<Rightarrow> user_agent_rule" where
  "named_rule i r =
    (let name = trim_space (agent_name r) in
     r\<lparr>agent_name := (if name \<noteq> [] then name else ''rule-'' @ nat_digits i)\<rparr>)"

definition with_action :: "user_agent_rule \<Rightarrow> user_agent_rule" where
  "with_action r =
    (case agent_action r of None \<Rightarrow> r\<lparr>agent_action := Some Agent_Notice\<rparr> | Some _ \<Rightarrow> r)"

fun compile_agents_from ::
    "compiler \<Rightarrow> nat \<Rightarrow> user_agent_rule list \<Rightarrow> string list \<times> compiled_agent list \<times> string list" where
  "compile_agents_from cc i [] = ([], [], [])"
| "compile_agents_from cc i (r # rs) =
    (let (problems, compiled, disabled) = compile_agents_from cc (Suc i) rs
     in case compile_pattern cc (agent_pattern r) of
          Inl e \<Rightarrow> ((agent_label i r @ '' pattern '' @ e) # problems, compiled, disabled)
        | Inr re \<Rightarrow>
            if trim_space (agent_message r) = []
            then (problems, compiled, agent_label i r # disabled)
            else (problems, \<lparr>ca_rule = with_action (named_rule i r), ca_regexp = re\<rparr> # compiled, disabled))"

definition compile_user_agents ::
    "compiler \<Rightarrow> user_agents \<Rightarrow> string list + (compiled_agent list \<times> string list)" where
  "compile_user_agents cc u =
    (let (problems, compiled, disabled) = compile_agents_from cc 0 (agent_rules u)
     in if problems \<noteq> [] then Inl problems else Inr (compiled, disabled))"

section \<open>What the proxy builds\<close>

definition new_blocker :: "compiler \<Rightarrow> block_opts \<Rightarrow> string \<Rightarrow> string list + blocker" where
  "new_blocker cc c sub_prefix =
    (case compile_block cc c of
       Inl e \<Rightarrow> Inl e
     | Inr res \<Rightarrow> Inr \<lparr>blk_enabled = block_enabled c, blk_prefix = sub_prefix, blk_patterns = res\<rparr>)"

record agent_filter =
  af_rules :: "compiled_agent list"
  af_disabled :: "string list"

definition new_agent_filter :: "compiler \<Rightarrow> user_agents \<Rightarrow> string list + agent_filter" where
  "new_agent_filter cc c =
    (case compile_user_agents cc c of
       Inl e \<Rightarrow> Inl e
     | Inr (rules, disabled) \<Rightarrow> Inr \<lparr>af_rules = rules, af_disabled = disabled\<rparr>)"

definition filter_len :: "agent_filter option \<Rightarrow> nat" where
  "filter_len f = (case f of None \<Rightarrow> 0 | Some f \<Rightarrow> length (af_rules f))"

definition filter_enabled :: "agent_filter option \<Rightarrow> bool" where
  "filter_enabled f \<longleftrightarrow> filter_len f > 0"

definition filter_disabled :: "agent_filter option \<Rightarrow> string list" where
  "filter_disabled f = (case f of None \<Rightarrow> [] | Some f \<Rightarrow> af_disabled f)"

definition agent_match :: "agent_filter option \<Rightarrow> string \<Rightarrow> compiled_agent option" where
  "agent_match f user_agent =
    (case f of None \<Rightarrow> None | Some f \<Rightarrow> find (\<lambda>r. ca_regexp r user_agent) (af_rules f))"

section \<open>Checked, complete, in order\<close>

lemma compile_from_ok:
  "fst (compile_from cc field i ps) = [] \<longleftrightarrow> (\<forall>p \<in> set ps. \<exists>re. compile_pattern cc p = Inr re)"
  "fst (compile_from cc field i ps) = [] \<Longrightarrow>
    map Inr (snd (compile_from cc field i ps)) = map (compile_pattern cc) ps"
  by (induction ps arbitrary: i) (auto simp: split_beta split: sum.splits)

lemma compile_from_count:
  "length (fst (compile_from cc field i ps))
    = length (filter (\<lambda>p. \<exists>e. compile_pattern cc p = Inl e) ps)"
  by (induction ps arbitrary: i) (auto simp: split_beta split: sum.splits)

text \<open>The operator's patterns are compiled all or not at all: the blocker is built exactly when each
  pattern is non-blank and valid, and then refuses by every one of them in order; otherwise there
  is one problem for each bad pattern, none of them dropped.\<close>

theorem compile_patterns_correct:
  "(case compile_patterns cc field ps of
      Inr res \<Rightarrow> map Inr res = map (compile_pattern cc) ps
        \<and> (\<forall>p \<in> set ps. trim_space p \<noteq> [])
    | Inl problems \<Rightarrow> problems \<noteq> []
        \<and> length problems = length (filter (\<lambda>p. \<exists>e. compile_pattern cc p = Inl e) ps))"
proof (cases "fst (compile_from cc field 0 ps) = []")
  case True
  then have "\<forall>p \<in> set ps. trim_space p \<noteq> []"
    using compile_from_ok(1) [of cc field 0 ps]
    by (force simp: compile_pattern_def split: if_splits)
  with True compile_from_ok(2) [OF True] show ?thesis
    by (simp add: compile_patterns_def split_beta)
next
  case False
  with compile_from_count [of cc field 0 ps] show ?thesis
    by (simp add: compile_patterns_def split_beta)
qed

lemma compile_agents_facts:
  assumes "compile_agents_from cc i rs = ([], compiled, disabled)"
  shows "length compiled + length disabled = length rs
    \<and> (\<forall>c \<in> set compiled. trim_space (agent_message (ca_rule c)) \<noteq> []
        \<and> agent_action (ca_rule c) \<noteq> None \<and> agent_name (ca_rule c) \<noteq> []
        \<and> compile_pattern cc (agent_pattern (ca_rule c)) = Inr (ca_regexp c))
    \<and> map (agent_message \<circ> ca_rule) compiled
        = filter (\<lambda>m. trim_space m \<noteq> []) (map agent_message rs)"
  using assms
proof (induction rs arbitrary: i compiled disabled)
  case (Cons r rs)
  obtain ps cs ds where rest: "compile_agents_from cc (Suc i) rs = (ps, cs, ds)"
    by (cases "compile_agents_from cc (Suc i) rs") auto
  from Cons.prems rest obtain re where re: "compile_pattern cc (agent_pattern r) = Inr re"
    and "ps = []" by (auto split: sum.splits if_splits)
  with rest have "compile_agents_from cc (Suc i) rs = ([], cs, ds)" by simp
  note IH = Cons.IH [OF this]
  have rule: "agent_message (with_action (named_rule i r)) = agent_message r"
    "agent_pattern (with_action (named_rule i r)) = agent_pattern r"
    "agent_action (with_action (named_rule i r)) \<noteq> None"
    "agent_name (with_action (named_rule i r)) \<noteq> []"
    by (simp_all add: with_action_def named_rule_def Let_def split: option.split)
  from Cons.prems rest re \<open>ps = []\<close> show ?case
    using IH rule by (auto split: if_splits)
qed simp

text \<open>A user-agent rule without a message can never answer anyone: such rules are set aside and
  reported, each of the others is kept with an action, a name to log and a compiled pattern; and
  the filter answers with the first rule that matches.\<close>

theorem compile_agents_correct:
  "(case new_agent_filter cc u of
      Inl problems \<Rightarrow> problems \<noteq> []
    | Inr f \<Rightarrow>
        length (af_rules f) + length (af_disabled f) = length (agent_rules u)
        \<and> (\<forall>c \<in> set (af_rules f). trim_space (agent_message (ca_rule c)) \<noteq> []
            \<and> agent_action (ca_rule c) \<noteq> None \<and> agent_name (ca_rule c) \<noteq> []
            \<and> compile_pattern cc (agent_pattern (ca_rule c)) = Inr (ca_regexp c))
        \<and> (case agent_match (Some f) ua of
             None \<Rightarrow> \<forall>c \<in> set (af_rules f). \<not> ca_regexp c ua
           | Some c \<Rightarrow> \<exists>before after. af_rules f = before @ c # after \<and> ca_regexp c ua
               \<and> (\<forall>b \<in> set before. \<not> ca_regexp b ua)))"
proof -
  obtain ps cs ds where c: "compile_agents_from cc 0 (agent_rules u) = (ps, cs, ds)"
    by (cases "compile_agents_from cc 0 (agent_rules u)") auto
  show ?thesis
  proof (cases "ps = []")
    case True
    with c compile_agents_facts [of cc 0 "agent_rules u" cs ds]
      find_Some_split [of "\<lambda>r. ca_regexp r ua" cs]
    show ?thesis
      by (auto simp: new_agent_filter_def compile_user_agents_def agent_match_def find_None_iff
          split: option.split)
  next
    case False
    with c show ?thesis by (simp add: new_agent_filter_def compile_user_agents_def)
  qed
qed

theorem compile_agents_correct_witness:
  "\<exists>f. new_agent_filter (\<lambda>p. Inr (\<lambda>s. s = p))
      \<lparr>agent_rules = [\<lparr>agent_name = '''', agent_pattern = ''http'', agent_action = None,
         agent_message = ''hi'', agent_announce = False\<rparr>]\<rparr> = Inr f
    \<and> length (af_rules f) + length (af_disabled f) = 1"
proof -
  have t: "trim_space ''http'' = ''http''" "trim_space ''hi'' = ''hi''" by code_simp+
  show ?thesis
    using compile_agents_correct [where cc = "\<lambda>p. Inr (\<lambda>s. s = p)" and ua = "''x''"
      and u = "\<lparr>agent_rules = [\<lparr>agent_name = '''', agent_pattern = ''http'', agent_action = None,
         agent_message = ''hi'', agent_announce = False\<rparr>]\<rparr>"]
    by (simp add: new_agent_filter_def compile_user_agents_def compile_pattern_def t)
qed

end
