(* ===== verification/Body.thy ===== *)
theory Body
  imports Go_Http Case_Facts
begin

text \<open>
  Files \<open>internal/proxy/body.go\<close> and \<open>headercase.go\<close>: reading a response body up to a limit without
  losing any of it, and the spelling of header names.  A reader hands out its bytes in pieces of
  its own choosing and ends with the end of the file or with an error; how a buffer grows when it is
  full is a parameter.
\<close>

record reader =
  chunks :: "string list"
  fails :: bool

datatype read_end = Read_EOF | Read_Error

text \<open>One \<open>Read\<close> into a buffer with room for \<open>k\<close> bytes.\<close>

definition read_once :: "nat \<Rightarrow> reader \<Rightarrow> string \<times> read_end option \<times> reader" where
  "read_once k r =
    (case chunks r of
       [] \<Rightarrow> ([], Some (if fails r then Read_Error else Read_EOF), r)
     | c # cs \<Rightarrow>
         if length c \<le> k then (c, None, r\<lparr>chunks := cs\<rparr>)
         else (take k c, None, r\<lparr>chunks := drop k c # cs\<rparr>))"

definition pending :: "reader \<Rightarrow> string" where
  "pending r = concat (chunks r)"

definition reader_size :: "reader \<Rightarrow> nat" where
  "reader_size r = length (pending r) + length (chunks r)"

lemma read_once_facts:
  assumes "read_once k r = (bs, e, r')"
  shows "pending r = bs @ pending r'" "length bs \<le> k" "fails r' = fails r"
    "e \<noteq> None \<Longrightarrow> chunks r = [] \<and> bs = [] \<and> r' = r \<and> e = Some (if fails r then Read_Error else Read_EOF)"
    "e = None \<Longrightarrow> 0 < k \<Longrightarrow> reader_size r' < reader_size r"
  using assms by (auto simp: read_once_def pending_def reader_size_def split: list.splits if_splits)

text \<open>
  The loop of \<open>readUpTo\<close>: \<open>cap\<close> is the capacity of the buffer, \<open>n\<close> what the limit still allows.  The
  flag of the result says whether it ended with an error.
\<close>

function read_loop :: "(nat \<Rightarrow> nat) \<Rightarrow> string \<Rightarrow> nat \<Rightarrow> nat \<Rightarrow> reader \<Rightarrow> string \<times> bool \<times> reader" where
  "read_loop grow buf cap n r =
    (let cap = (if cap \<le> length buf then max (Suc (length buf)) (grow cap) else cap) in
     if n = 0 then (buf, False, r)
     else
       (case read_once (min n (cap - length buf)) r of
          (bs, Some e, r') \<Rightarrow> (buf @ bs, e = Read_Error, r')
        | (bs, None, r') \<Rightarrow> read_loop grow (buf @ bs) cap (n - length bs) r'))"
  by pat_completeness auto
termination
proof (relation "measure (\<lambda>(_, _, _, _, r). reader_size r)")
  fix grow :: "nat \<Rightarrow> nat" and buf :: string and cap n r x bs y e r'
  assume *: "x = (if cap \<le> length buf then max (Suc (length buf)) (grow cap) else cap)"
    "n \<noteq> 0" "(bs, y) = read_once (min n (x - length buf)) r" "(e, r') = y" "e = None"
  then have "0 < min n (x - length buf)" by auto
  moreover from *(3-5) have "read_once (min n (x - length buf)) r = (bs, None, r')" by simp
  ultimately show "((grow, buf @ bs, x, n - length bs, r'), grow, buf, cap, n, r)
      \<in> measure (\<lambda>(_, _, _, _, r). reader_size r)"
    using read_once_facts(5) by simp
qed simp

declare read_loop.simps [simp del]

definition read_up_to ::
    "(nat \<Rightarrow> nat) \<Rightarrow> reader \<Rightarrow> int \<Rightarrow> int \<Rightarrow> string \<times> bool \<times> reader" where
  "read_up_to grow r content_length max_body =
    (let size = (if content_length > 0 \<and> content_length \<le> max_body then content_length + 1 else 512)
     in read_loop grow [] (nat size) (nat (max_body + 1)) r)"

section \<open>Responses\<close>

text \<open>A body is missing, held in memory and read up to a position, or still to be read.\<close>

datatype body = No_Body | Buffered string nat | Streaming reader

record response =
  resp_status :: nat
  resp_header :: header
  resp_body :: body
  resp_length :: int
  resp_transfer :: "string list"

definition set_body :: "string \<Rightarrow> response \<Rightarrow> response" where
  "set_body b resp =
    resp\<lparr>resp_body := Buffered b 0, resp_length := int (length b),
         resp_header := header_set (resp_header resp) ''Content-Length'' (format_int (int (length b))),
         resp_transfer := []\<rparr>"

definition body_reader :: "body \<Rightarrow> reader" where
  "body_reader b =
    (case b of
       No_Body \<Rightarrow> \<lparr>chunks = [], fails = False\<rparr>
     | Buffered buf pos \<Rightarrow> \<lparr>chunks = [drop pos buf], fails = False\<rparr>
     | Streaming r \<Rightarrow> r)"

text \<open>
  \<open>drainBody\<close>: the whole body when it is no longer than the limit, and the response left to read.
\<close>

definition whole_buffer :: "body \<Rightarrow> string option" where
  "whole_buffer b =
    (case b of
       Buffered buf pos \<Rightarrow> if length (drop pos buf) = length buf then Some buf else None
     | _ \<Rightarrow> None)"

definition drain_body :: "(nat \<Rightarrow> nat) \<Rightarrow> response \<Rightarrow> int \<Rightarrow> string option \<times> response" where
  "drain_body grow resp max_body =
    (if resp_body resp = No_Body then (None, resp)
     else
       (case whole_buffer (resp_body resp) of
          Some buf \<Rightarrow> (if int (length buf) \<le> max_body then Some buf else None, resp)
        | None \<Rightarrow>
            (let (buf, err, r) =
               read_up_to grow (body_reader (resp_body resp)) (resp_length resp) max_body
             in if err \<or> int (length buf) > max_body
                then (None, resp\<lparr>resp_body := Streaming (r\<lparr>chunks := buf # chunks r\<rparr>)\<rparr>)
                else (Some buf, resp\<lparr>resp_body := Buffered buf 0\<rparr>))))"

definition is_html :: "header \<Rightarrow> bool" where
  "is_html h \<longleftrightarrow> contains (to_lower (header_get h ''Content-Type'')) ''text/html''"

definition rewritable :: "response \<Rightarrow> bool" where
  "rewritable resp \<longleftrightarrow> resp_status resp = 200 \<and> \<not> is_html (resp_header resp)"

definition is_compressed :: "header \<Rightarrow> bool" where
  "is_compressed h \<longleftrightarrow>
    (let enc = to_lower (trim_space (header_get h ''Content-Encoding''))
     in enc \<noteq> [] \<and> enc \<noteq> ''identity'')"

section \<open>Nothing is lost\<close>

lemma whole_buffer_Some: "whole_buffer b = Some buf \<Longrightarrow> \<exists>pos. b = Buffered buf pos \<and> drop pos buf = buf"
  by (cases b) (auto simp: whole_buffer_def split: if_splits, metis append_take_drop_id
      append_self_conv2 length_append length_0_conv add_cancel_left_left length_drop)

lemma read_loop_spec:
  "read_loop grow buf cap n r = (out, err, r') \<Longrightarrow>
    out = buf @ take n (pending r) \<and> pending r' = drop n (pending r) \<and> fails r' = fails r
    \<and> (err \<longleftrightarrow> fails r \<and> length (pending r) < n)"
proof (induction grow buf cap n r arbitrary: out err r' rule: read_loop.induct)
  case (1 grow buf cap n r)
  let ?cap = "if cap \<le> length buf then max (Suc (length buf)) (grow cap) else cap"
  show ?case
  proof (cases "n = 0")
    case True
    with "1.prems" show ?thesis by (subst (asm) read_loop.simps) (simp add: Let_def)
  next
    case False
    obtain bs e s where once: "read_once (min n (?cap - length buf)) r = (bs, e, s)"
      by (cases "read_once (min n (?cap - length buf)) r") auto
    note facts = read_once_facts [OF once]
    show ?thesis
    proof (cases e)
      case None
      with "1.prems" False once have "read_loop grow (buf @ bs) ?cap (n - length bs) s = (out, err, r')"
        by (subst (asm) read_loop.simps) (simp add: Let_def)
      from "1.IH" [OF refl False once [symmetric] refl None this] facts
      show ?thesis by auto
    next
      case (Some x)
      with facts(4) have "chunks r = []" "bs = []" "s = r" "x = (if fails r then Read_Error else Read_EOF)"
        by auto
      with "1.prems" False once Some show ?thesis
        by (subst (asm) read_loop.simps) (auto simp: Let_def pending_def split: if_splits)
    qed
  qed
qed

text \<open>What a client can still read of a body, and whether it ends with an error.\<close>

definition unread :: "body \<Rightarrow> string \<times> bool" where
  "unread b = (pending (body_reader b), fails (body_reader b))"

lemma drain_body_spec:
  assumes "0 \<le> max_body"
  shows "unread (resp_body (snd (drain_body grow resp max_body))) = unread (resp_body resp)
    \<and> fst (drain_body grow resp max_body) =
        (if resp_body resp \<noteq> No_Body \<and> \<not> snd (unread (resp_body resp))
            \<and> int (length (fst (unread (resp_body resp)))) \<le> max_body
         then Some (fst (unread (resp_body resp))) else None)
    \<and> resp_header (snd (drain_body grow resp max_body)) = resp_header resp
    \<and> resp_status (snd (drain_body grow resp max_body)) = resp_status resp"
proof -
  have read: "unread (resp_body (snd (drain_body grow resp max_body))) = unread (resp_body resp)
    \<and> fst (drain_body grow resp max_body) =
        (if \<not> snd (unread (resp_body resp)) \<and> int (length (fst (unread (resp_body resp)))) \<le> max_body
         then Some (fst (unread (resp_body resp))) else None)
    \<and> resp_header (snd (drain_body grow resp max_body)) = resp_header resp
    \<and> resp_status (snd (drain_body grow resp max_body)) = resp_status resp"
    if b: "resp_body resp \<noteq> No_Body" "whole_buffer (resp_body resp) = None"
  proof -
    let ?r = "body_reader (resp_body resp)" and ?n = "nat (max_body + 1)"
    obtain buf err r where up: "read_up_to grow ?r (resp_length resp) max_body = (buf, err, r)"
      by (cases "read_up_to grow ?r (resp_length resp) max_body") auto
    then have spec: "buf = take ?n (pending ?r)" "pending r = drop ?n (pending ?r)" "fails r = fails ?r"
      "err \<longleftrightarrow> fails ?r \<and> length (pending ?r) < ?n"
      using read_loop_spec [of grow "[]" _ ?n ?r buf err r] by (auto simp: read_up_to_def Let_def)
    have drain: "drain_body grow resp max_body =
        (if err \<or> int (length buf) > max_body
         then (None, resp\<lparr>resp_body := Streaming (r\<lparr>chunks := buf # chunks r\<rparr>)\<rparr>)
         else (Some buf, resp\<lparr>resp_body := Buffered buf 0\<rparr>))"
      using b up by (simp add: drain_body_def)
    have whole: "pending (r\<lparr>chunks := buf # chunks r\<rparr>) = pending ?r"
      using spec by (simp add: pending_def)
    show ?thesis
    proof (cases "err \<or> int (length buf) > max_body")
      case True
      with spec assms have "fails ?r \<or> int (length (pending ?r)) > max_body" by auto
      with True whole spec show ?thesis by (auto simp: drain unread_def body_reader_def)
    next
      case False
      with spec assms have "length (pending ?r) \<le> nat max_body"
        by (cases "length (pending ?r) \<le> ?n") (auto simp: min_def)
      with False spec assms have "\<not> fails ?r" "buf = pending ?r" by auto
      with False assms \<open>length (pending ?r) \<le> nat max_body\<close> show ?thesis
        by (simp add: drain unread_def body_reader_def pending_def)
    qed
  qed
  show ?thesis
  proof (cases "whole_buffer (resp_body resp)")
    case (Some buf)
    then obtain pos where "resp_body resp = Buffered buf pos" "drop pos buf = buf"
      using whole_buffer_Some by blast
    with Some show ?thesis by (simp add: drain_body_def unread_def body_reader_def pending_def)
  next
    case None
    with read show ?thesis by (cases "resp_body resp = No_Body") (simp_all add: drain_body_def)
  qed
qed



section \<open>Header names\<close>

definition transport_headers :: "string list" where
  "transport_headers =
    [''Content-Length'', ''Content-Type'', ''Transfer-Encoding'', ''Connection'', ''Trailer'', ''Date'',
     ''Upgrade'']"

text \<open>
  The loop of \<open>lowercaseKeys\<close> over the entries in the given order; an entry written during the loop is
  in lower case already, so it makes no difference whether Go visits it.
\<close>

definition lowercase_key :: "string \<times> string list \<Rightarrow> header \<Rightarrow> header" where
  "lowercase_key entry h =
    (case entry of (key, values) \<Rightarrow>
       if key \<in> set transport_headers then h
       else if to_lower key = key then h
       else AList.update (to_lower key) values (AList.delete key h))"

definition lowercase_keys :: "(string, string list) iter_order \<Rightarrow> header \<Rightarrow> header" where
  "lowercase_keys ord h = fold lowercase_key (ord h) h"

lemma lowercase_key_other: "map_of (lowercase_key (k, vs) h) j =
  (if k \<in> set transport_headers \<or> to_lower k = k then map_of h j
   else if j = to_lower k then Some vs else if j = k then None else map_of h j)"
  by (auto simp: lowercase_key_def)

text \<open>The spelling \<open>lowercaseKeys\<close> is after.\<close>

definition wire_name :: "string \<Rightarrow> string" where
  "wire_name k = (if k \<in> set transport_headers then k else to_lower k)"

lemma lowercase_fold:
  assumes "distinct (map wire_name (map fst es))" "\<forall>k \<in> fst ` set es. wire_name (wire_name k) = wire_name k"
    and "\<forall>(k, vs) \<in> set es. map_of h k = Some vs"
    and "\<forall>k. map_of h k \<noteq> None \<longrightarrow> k \<in> fst ` set es \<or> k \<notin> wire_name ` fst ` set es"
  shows "map_of (fold lowercase_key es h) j =
    (case map_of (map (\<lambda>(k, vs). (wire_name k, vs)) es) j of
       Some vs \<Rightarrow> Some vs
     | None \<Rightarrow> if j \<in> fst ` set es then None else map_of h j)"
  using assms
proof (induction es arbitrary: h)
  case (Cons e es)
  obtain k vs where e: "e = (k, vs)" by fastforce
  let ?h = "lowercase_key (k, vs) h"
  have look: "map_of ?h i = (if i = wire_name k then Some vs else if i = k then None else map_of h i)" for i
    using Cons.prems(3) e by (auto simp: lowercase_key_other wire_name_def)
  have fresh: "wire_name k \<notin> wire_name ` fst ` set es" using Cons.prems(1) e by (auto simp: image_image)
  then have fresh': "wire_name k \<notin> fst ` set es" "k \<notin> fst ` set es"
    using Cons.prems(1,2) e by (auto simp: image_iff)
  have "map_of (fold lowercase_key es ?h) j =
    (case map_of (map (\<lambda>(k, vs). (wire_name k, vs)) es) j of
       Some vs \<Rightarrow> Some vs
     | None \<Rightarrow> if j \<in> fst ` set es then None else map_of ?h j)"
  proof (rule Cons.IH)
    show "\<forall>(k', vs') \<in> set es. map_of ?h k' = Some vs'"
      using Cons.prems(3) fresh' by (force simp: look)
    show "\<forall>k'. map_of ?h k' \<noteq> None \<longrightarrow> k' \<in> fst ` set es \<or> k' \<notin> wire_name ` fst ` set es"
      using Cons.prems(4) fresh e by (auto simp: look split: if_splits)
  qed (use Cons.prems e in auto)
  moreover have "map_of (map (\<lambda>(k, vs). (wire_name k, vs)) es) (wire_name k) = None"
    using fresh by (force simp: map_of_eq_None_iff)
  ultimately show ?case
    using fresh' by (auto simp: e look split: option.splits)
qed simp

text \<open>The names that frame a response are not touched.\<close>

lemma upper_not_lowered: "is_ascii t \<Longrightarrow> c \<in> set t \<Longrightarrow> is_upper c \<Longrightarrow> to_lower s \<noteq> t"
proof
  assume t: "is_ascii t" "c \<in> set t" "is_upper c" "to_lower s = t"
  then have "map rune_lower (runes s) = map byte t" using runes_to_lower [of s] by (simp add: runes_ascii)
  then have "byte c \<in> rune_lower ` set (runes s)" using t(2) by (metis image_eqI list.set_map)
  then obtain r where r: "rune_lower r = byte c" by auto
  with t(3) rune_lower_range [of r "byte c"] show False
    by (cases "r < 128") (auto simp: rune_lower_def is_upper_def split: if_splits)
qed

lemma transport_upper: "t \<in> set transport_headers \<Longrightarrow> is_ascii t \<and> is_upper (hd t) \<and> hd t \<in> set t"
proof -
  have "list_all (\<lambda>t. is_ascii t \<and> is_upper (hd t) \<and> hd t \<in> set t) transport_headers" by code_simp
  then show "t \<in> set transport_headers \<Longrightarrow> ?thesis" by (auto simp: list_all_iff)
qed

lemma lowercase_keys_transport:
  assumes "t \<in> set transport_headers" shows "map_of (lowercase_keys ord h) t = map_of h t"
proof -
  have "t \<noteq> to_lower k" for k using transport_upper [OF assms] upper_not_lowered by blast
  then have "map_of (fold lowercase_key es g) t = map_of g t" for es g
    by (induction es arbitrary: g) (use assms in \<open>auto simp: lowercase_key_other\<close>)
  then show ?thesis by (simp add: lowercase_keys_def)
qed

text \<open>Header names go out in lower case, those that frame the response excepted, and no value is
  lost or moved to another name, in whatever order the map is visited (names that differ in more
  than their case).\<close>

theorem lowercase_keys_correct:
  assumes "is_order ord" "gomap_ok h"
    and "inj_on wire_name (set (map_keys h))"
    and "\<forall>k \<in> set (map_keys h). wire_name (wire_name k) = wire_name k"
  shows "map_of (lowercase_keys ord h) = map_of (map (\<lambda>(k, vs). (wire_name k, vs)) h)"
proof
  fix j
  have d: "distinct (map_keys (ord h))" and s: "set (ord h) = set h"
    using assms(1,2) by (auto intro: order_distinct simp: order_set)
  have in_h: "\<forall>k. map_of h k \<noteq> None \<longrightarrow> k \<in> fst ` set h"
    by (auto dest: map_of_SomeD simp: rev_image_eqI)
  have "set (map_keys (ord h)) = set (map_keys h)" using s by simp
  then have "distinct (map wire_name (map fst (ord h)))"
    using d assms(3) by (simp only: distinct_map)
  then have "map_of (lowercase_keys ord h) j =
    (case map_of (map (\<lambda>(k, vs). (wire_name k, vs)) (ord h)) j of
       Some vs \<Rightarrow> Some vs
     | None \<Rightarrow> if j \<in> fst ` set (ord h) then None else map_of h j)"
    unfolding lowercase_keys_def
    by (rule lowercase_fold) (use assms s in_h in \<open>auto simp: gomap_ok_def\<close>)
  also have "\<dots> = map_of (map (\<lambda>(k, vs). (wire_name k, vs)) (ord h)) j"
    using s in_h by (cases "map_of h j") (auto split: option.splits)
  also have "\<dots> = map_of (map (\<lambda>(k, vs). (wire_name k, vs)) h) j"
  proof -
    have *: "distinct (map fst (map (\<lambda>(k, vs). (wire_name k, vs)) es))"
      if "set es = set h" "distinct (map_keys es)" for es
    proof -
      have "map fst (map (\<lambda>(k, vs). (wire_name k, vs)) es) = map wire_name (map_keys es)"
        by (induction es) auto
      moreover have "set (map_keys es) = set (map_keys h)" using that(1) by simp
      ultimately show ?thesis using that(2) assms(3) by (simp only: distinct_map)
    qed
    have "map_of (map (\<lambda>(k, vs). (wire_name k, vs)) (ord h))
        = map_of (map (\<lambda>(k, vs). (wire_name k, vs)) h)"
      using * [OF s d] * [OF refl] assms(2) s
      by (intro map_of_inject_set [THEN iffD2]) (simp_all add: gomap_ok_def)
    then show ?thesis by simp
  qed
  finally show "map_of (lowercase_keys ord h) j = map_of (map (\<lambda>(k, vs). (wire_name k, vs)) h) j" .
qed

theorem lowercase_keys_correct_witness:
  "map_of (lowercase_keys rev
      [(''Content-Type'', [''text/plain'']), (''Profile-Title'', [''x'']), (''Etag'', [''1''])])
    = map_of [(''Content-Type'', [''text/plain'']), (''profile-title'', [''x'']), (''etag'', [''1''])]"
proof -
  have names: "wire_name ''Content-Type'' = ''Content-Type''" "wire_name ''Profile-Title'' = ''profile-title''"
    "wire_name ''Etag'' = ''etag''" "wire_name ''profile-title'' = ''profile-title''"
    "wire_name ''etag'' = ''etag''"
    by code_simp+
  from lowercase_keys_correct [where ord = rev and
      h = "[(''Content-Type'', [''text/plain'']), (''Profile-Title'', [''x'']), (''Etag'', [''1''])]"]
  show ?thesis by (simp add: gomap_ok_def names)
qed

text \<open>
  The writer wrapped around the client's: what has been sent, the header map, and whether a body
  has been written.
\<close>

record writer =
  w_header :: header
  w_status :: "nat list"
  w_sent :: "(nat \<times> header) list"
  w_body :: string
  w_wrote :: bool

definition new_writer :: writer where
  "new_writer = \<lparr>w_header = [], w_status = [], w_sent = [], w_body = [], w_wrote = False\<rparr>"

definition write_header :: "(string, string list) iter_order \<Rightarrow> nat \<Rightarrow> writer \<Rightarrow> writer" where
  "write_header ord code w =
    (let h = lowercase_keys ord (w_header w)
     in w\<lparr>w_header := h, w_status := w_status w @ [code], w_sent := w_sent w @ [(code, h)]\<rparr>)"

definition write_bytes :: "(string, string list) iter_order \<Rightarrow> string \<Rightarrow> writer \<Rightarrow> writer" where
  "write_bytes ord b w =
    (let w = (if w_wrote w then w
              else w\<lparr>w_wrote := True, w_header := lowercase_keys ord (w_header w)\<rparr>)
     in w\<lparr>w_body := w_body w @ b\<rparr>)"

text \<open>
  An interim (1xx) answer of the upstream: \<open>ReverseProxy\<close> writes its header block and clears the map.
  Whatever interim answers come, the writer is left as new but for what has been sent.
\<close>

definition write_interim ::
    "(string, string list) iter_order \<Rightarrow> nat \<times> header \<Rightarrow> writer \<Rightarrow> writer" where
  "write_interim ord block w =
    (case block of (code, h) \<Rightarrow>
       (write_header ord code (w\<lparr>w_header := fold (\<lambda>(k, vs) g. AList.update k vs g) h (w_header w)\<rparr>))
         \<lparr>w_header := []\<rparr>)"

definition interim_block :: "(string, string list) iter_order \<Rightarrow> nat \<times> header \<Rightarrow> nat \<times> header" where
  "interim_block ord block =
    (fst block, lowercase_keys ord (fold (\<lambda>(k, vs) g. AList.update k vs g) (snd block) []))"

lemma interim_leaves_no_trace:
  "w_header w = [] \<Longrightarrow> fold (write_interim ord) blocks w =
    w\<lparr>w_status := w_status w @ map fst blocks, w_sent := w_sent w @ map (interim_block ord) blocks\<rparr>"
  by (induction blocks arbitrary: w)
    (simp_all add: write_interim_def write_header_def interim_block_def Let_def split_beta)

text \<open>
  \<open>Content-Encoding\<close> is not among the names that are kept, though the server of \<open>net/http\<close> looks it
  up as well, to leave the type of an encoded body alone.
\<close>

lemma content_encoding_hidden:
  "header_get (lowercase_keys rev [(''Content-Encoding'', [''gzip''])]) ''Content-Encoding'' = ''''"
  by code_simp

end
