(* ===== verification/Hop_Headers.thy ===== *)
theory Hop_Headers
  imports Go_Http
begin

text \<open>
  What \<open>httputil.ReverseProxy\<close> does to headers around the hooks of \<open>internal/proxy/proxy.go\<close>: the
  headers that concern one hop only, those that the \<open>Connection\<close> header names among them, are
  removed from requests and responses, and the wish for trailers or for another protocol is passed on.
\<close>

definition hop_headers :: "string list" where
  "hop_headers =
    [''Connection'', ''Proxy-Connection'', ''Keep-Alive'', ''Proxy-Authenticate'', ''Proxy-Authorization'',
     ''Te'', ''Trailer'', ''Transfer-Encoding'', ''Upgrade'']"

definition trim_bytes :: "string \<Rightarrow> string \<Rightarrow> string" where
  "trim_bytes cs s = rev (dropWhile (\<lambda>c. c \<in> set cs) (rev (dropWhile (\<lambda>c. c \<in> set cs) s)))"

definition header_values :: "header \<Rightarrow> string \<Rightarrow> string list" where
  "header_values h k = (case map_of h k of Some vs \<Rightarrow> vs | None \<Rightarrow> [])"

text \<open>\<open>textproto.TrimString\<close> on each part of the \<open>Connection\<close> header.\<close>

definition connection_names :: "header \<Rightarrow> string list" where
  "connection_names h =
    concat (map (\<lambda>v. filter (\<lambda>s. s \<noteq> [])
        (map (trim_bytes [CHR 0x20, CHR 0x09, CHR 0x0A, CHR 0x0D]) (split_byte (CHR '','') v)))
      (header_values h ''Connection''))"

definition remove_hop_headers :: "header \<Rightarrow> header" where
  "remove_hop_headers h = fold (\<lambda>k h. header_del h k) (connection_names h @ hop_headers) h"

text \<open>\<open>httpguts.HeaderValuesContainsToken\<close> for an ASCII token.\<close>

definition has_token :: "string list \<Rightarrow> string \<Rightarrow> bool" where
  "has_token vs t \<longleftrightarrow>
    list_ex (\<lambda>v. list_ex (\<lambda>s. map ascii_lower (trim_bytes [CHR 0x20, CHR 0x09] s) = map ascii_lower t)
      (split_byte (CHR '','') v)) vs"

definition upgrade_type :: "header \<Rightarrow> string" where
  "upgrade_type h =
    (if has_token (header_values h ''Connection'') ''Upgrade'' then header_get h ''Upgrade'' else [])"

definition printable :: "string \<Rightarrow> bool" where
  "printable s \<longleftrightarrow> list_all (\<lambda>c. 32 \<le> byte c \<and> byte c \<le> 126) s"

text \<open>The headers of the request as they come to the hook, but for the forwarding ones.\<close>

definition end_to_end :: "header \<Rightarrow> header" where
  "end_to_end h =
    (let up = upgrade_type h;
         out = remove_hop_headers h;
         out = (if has_token (header_values h ''Te'') ''trailers'' then header_set out ''Te'' ''trailers'' else out)
     in if up \<noteq> [] then header_set (header_set out ''Connection'' ''Upgrade'') ''Upgrade'' up else out)"

section \<open>What is left\<close>

lemma map_of_dels:
  "map_of (fold (\<lambda>k h. header_del h k) ks h) j =
    (if j \<in> canonical_header_key ` set ks then None else map_of h j)"
  by (induction ks arbitrary: h) auto

lemma hop_canonical: "map canonical_header_key hop_headers = hop_headers"
  by code_simp

lemma remove_hop_at:
  "map_of (remove_hop_headers h) j =
    (if j \<in> set hop_headers \<or> j \<in> canonical_header_key ` set (connection_names h) then None else map_of h j)"
  using arg_cong [OF hop_canonical, of set]
  by (auto simp: remove_hop_headers_def map_of_dels image_Un)

lemma hop_keys:
  "canonical_header_key ''Te'' = ''Te''" "canonical_header_key ''Connection'' = ''Connection''"
  "canonical_header_key ''Upgrade'' = ''Upgrade''"
  by code_simp+

text \<open>A header that is no hop header passes exactly when the \<open>Connection\<close> header does not name it.\<close>

lemma end_to_end_at:
  assumes "j \<notin> set hop_headers"
  shows "map_of (end_to_end h) j =
    (if j \<in> canonical_header_key ` set (connection_names h) then None else map_of h j)"
  using assms by (auto simp: end_to_end_def Let_def remove_hop_at hop_keys hop_headers_def)

lemma remove_hop_ok: "gomap_ok h \<Longrightarrow> gomap_ok (remove_hop_headers h)"
proof -
  have "gomap_ok (fold (\<lambda>k h. header_del h k) ks h)" if "gomap_ok h" for ks h
    using that by (induction ks arbitrary: h) (simp_all add: header_del_def)
  then show "gomap_ok h \<Longrightarrow> gomap_ok (remove_hop_headers h)" by (simp add: remove_hop_headers_def)
qed

lemma remove_hop_Nil [simp]: "remove_hop_headers [] = []"
proof -
  have "fold (\<lambda>k h. header_del h k) ks [] = []" for ks
    by (induction ks) (simp_all add: header_del_def)
  then show ?thesis by (simp add: remove_hop_headers_def)
qed

end
