(* ===== verification/Proxy.thy ===== *)
theory Proxy
  imports Engine Subcache Formats Placeholder Realip Block Patterns Body Hop_Headers
begin

text \<open>
  Files \<open>proxy.go\<close>, \<open>useragent.go\<close>, \<open>cache.go\<close> and \<open>shuffle.go\<close> of \<open>internal/proxy\<close>: what happens to one
  request.  The fallback cache is passed along; the clock is read once per request, and the orders
  in which Go visits its maps are given by the environment.  \<open>httputil.ReverseProxy\<close> appears by its
  steps: the outgoing headers without the hop-by-hop and the forwarding ones go to the \<open>Rewrite\<close>
  hook, the response without its hop-by-hop headers to \<open>ModifyResponse\<close> and then to the client, a
  failed round trip and a switch to an unprintable protocol to the error handler.  The encoders of
  JSON and YAML and the address library are parameters.  The query, trailers, the copying after a
  protocol switch, the reason phrase and the tuning of the transport are left out; what is logged is
  in \<open>Request_Log\<close>.  Interim answers are left out of the steps, as they change nothing in the final one
  (\<open>interim_then_deliver\<close>).
\<close>

section \<open>The proxy\<close>

record ('a, 'p, 'm) libs =
  lib_netip :: "('a, 'p) netip"
  lib_json :: "json_lib"
  lib_yaml :: "'m yaml_lib"
  lib_read_ps :: "string \<Rightarrow> string option"
  lib_marshaller :: marshaller

text \<open>What one request sees of the world: the time, the iteration orders, how a buffer grows.\<close>

record env =
  env_now :: time
  env_header_order :: "(string, string list) iter_order"
  env_entry_order :: "(string, entry) iter_order"
  env_grow :: "nat \<Rightarrow> nat"

record http_request =
  in_method :: string
  in_path :: string
  in_header :: header
  in_host :: string
  in_tls :: bool
  in_remote :: string

record out_request =
  out_method :: string
  out_url :: url
  out_header :: header
  out_host :: string

record request_info =
  ri_request :: request
  ri_cache_key :: string
  ri_notice :: "compiled_agent option"

record 'p options =
  opt_upstream :: url
  opt_sub_prefix :: string
  opt_engine :: "engine option"
  opt_real_ip :: "'p ip_resolver"
  opt_blocker :: "blocker option"
  opt_sub_cache :: "sub_cache option"
  opt_shuffler :: "shuffler option"
  opt_user_agents :: "agent_filter option"
  opt_force_https :: bool

record 'p proxy =
  px_options :: "'p options"
  px_rewrites :: bool
  px_observes :: bool

definition new_proxy :: "'p options \<Rightarrow> 'p proxy" where
  "new_proxy opts =
    (let rewrites = (case opt_engine opts of Some e \<Rightarrow> engine_enabled e | None \<Rightarrow> False)
     in \<lparr>px_options = opts, px_rewrites = rewrites,
         px_observes = (rewrites \<or> opt_sub_cache opts \<noteq> None \<or> shuffler_enabled (opt_shuffler opts)
           \<or> filter_enabled (opt_user_agents opts))\<rparr>)"

abbreviation px_engine :: "'p proxy \<Rightarrow> engine option" where
  "px_engine p \<equiv> opt_engine (px_options p)"

abbreviation px_shuffler :: "'p proxy \<Rightarrow> shuffler option" where
  "px_shuffler p \<equiv> opt_shuffler (px_options p)"

definition max_shuffle_body :: int where
  "max_shuffle_body = 8 * 2 ^ 20"

section \<open>Requests\<close>

definition first_list_value :: "string \<Rightarrow> string" where
  "first_list_value value = trim_space (case cut '','' value of Some (a, _) \<Rightarrow> a | None \<Rightarrow> value)"

definition subscription_url :: "'p proxy \<Rightarrow> http_request \<Rightarrow> string \<Rightarrow> string" where
  "subscription_url p r short_uuid =
    (if short_uuid = [] then []
     else
       (let host = first_list_value (header_get (in_header r) ''X-Forwarded-Host'');
            host = (if host = [] then in_host r else host)
        in if host = [] then []
           else
             (let scheme = first_list_value (header_get (in_header r) ''X-Forwarded-Proto'');
                  scheme = (if opt_force_https (px_options p) then ''https''
                    else if scheme = [] then (if in_tls r then ''https'' else ''http'')
                    else scheme);
                  path = ''/'' @ path_escape short_uuid;
                  path = (if opt_sub_prefix (px_options p) \<noteq> []
                    then ''/'' @ opt_sub_prefix (px_options p) @ path else path)
              in scheme @ ''://'' @ host @ path)))"

definition ip_request_of :: "http_request \<Rightarrow> ip_request" where
  "ip_request_of r =
    \<lparr>req_forwarded = (case map_of (in_header r) ''X-Forwarded-For'' of Some vs \<Rightarrow> vs | None \<Rightarrow> []),
     remote_addr = in_remote r\<rparr>"

definition template_request ::
    "('a, 'p, 'm) libs \<Rightarrow> 'p proxy \<Rightarrow> http_request \<Rightarrow> route \<Rightarrow> bool \<Rightarrow> request" where
  "template_request l p r rt full =
    \<lparr>rq_short_uuid = route_short_uuid rt, rq_client_type = route_client_type rt,
     rq_user_agent = header_get (in_header r) ''User-Agent'',
     rq_client_ip = (if full
       then client_ip (lib_netip l) (opt_real_ip (px_options p)) (ip_request_of r) else []),
     rq_subscription_url = (if full then subscription_url p r (route_short_uuid rt) else [])\<rparr>"

definition shuffles :: "'p proxy \<Rightarrow> request_info \<Rightarrow> bool" where
  "shuffles p info \<longleftrightarrow> shuffler_enabled (px_shuffler p) \<and> rq_short_uuid (ri_request info) \<noteq> []"

text \<open>The forwarding headers, which \<open>ReverseProxy\<close> drops before it calls a \<open>Rewrite\<close> hook.\<close>

definition dropped_headers :: "string list" where
  "dropped_headers = [''Forwarded'', ''X-Forwarded-For'', ''X-Forwarded-Host'', ''X-Forwarded-Proto'']"

definition outgoing :: "http_request \<Rightarrow> header" where
  "outgoing r = fold (\<lambda>k h. header_del h k) dropped_headers (end_to_end (in_header r))"

text \<open>\<open>SetURL\<close> takes the scheme and the host of the upstream and joins the two paths with one slash.\<close>

definition join_path :: "string \<Rightarrow> string \<Rightarrow> string" where
  "join_path a b =
    (if has_suffix a ''/'' \<and> has_prefix b ''/'' then a @ tl b
     else if \<not> has_suffix a ''/'' \<and> \<not> has_prefix b ''/'' then a @ ''/'' @ b
     else a @ b)"

definition forward_headers ::
    "('a, 'p, 'm) libs \<Rightarrow> 'p proxy \<Rightarrow> http_request \<Rightarrow> header \<Rightarrow> header" where
  "forward_headers l p r h =
    (let client = client_ip (lib_netip l) (opt_real_ip (px_options p)) (ip_request_of r);
         h = (if client \<noteq> [] then header_set h ''X-Forwarded-For'' client else h);
         proto = header_get (in_header r) ''X-Forwarded-Proto'';
         proto = (if proto = [] then (if in_tls r then ''https'' else ''http'') else proto);
         proto = (if opt_force_https (px_options p) then ''https'' else proto);
         h = header_set h ''X-Forwarded-Proto'' proto;
         host = header_get (in_header r) ''X-Forwarded-Host'';
         host = (if host = [] then in_host r else host)
     in if host \<noteq> [] then header_set h ''X-Forwarded-Host'' host else h)"

text \<open>The \<open>Rewrite\<close> hook; the information of the request is missing when nothing observes it.\<close>

definition rewrite_hook ::
    "('a, 'p, 'm) libs \<Rightarrow> 'p proxy \<Rightarrow> http_request \<Rightarrow> request_info option \<Rightarrow> out_request" where
  "rewrite_hook l p r info =
    (let h = forward_headers l p r (outgoing r)
     in \<lparr>out_method = in_method r,
         out_url = (opt_upstream (px_options p))
           \<lparr>url_path := join_path (url_path (opt_upstream (px_options p))) (in_path r)\<rparr>,
         out_header = (case info of
             Some i \<Rightarrow> if shuffles p i \<or> ri_notice i \<noteq> None then header_del h ''Accept-Encoding'' else h
           | None \<Rightarrow> h),
         out_host = in_host r\<rparr>)"

text \<open>What is sent: \<open>ReverseProxy\<close> keeps Go's own \<open>User-Agent\<close> out of a request that has none.\<close>

definition rewrite_out ::
    "('a, 'p, 'm) libs \<Rightarrow> 'p proxy \<Rightarrow> http_request \<Rightarrow> request_info option \<Rightarrow> out_request" where
  "rewrite_out l p r info =
    (let out = rewrite_hook l p r info
     in if map_of (out_header out) ''User-Agent'' = None
        then out\<lparr>out_header := header_set (out_header out) ''User-Agent'' []\<rparr> else out)"

section \<open>Notices\<close>

definition announce_header :: string where
  "announce_header = ''announce''"

type_synonym panel_calls = "(string \<times> string) list"

definition notice_message ::
    "'p proxy \<Rightarrow> header \<Rightarrow> request \<Rightarrow> user_agent_rule \<Rightarrow> panel_calls \<times> string" where
  "notice_message p h rq rule =
    (let (calls, message) = (case px_engine p of
         Some e \<Rightarrow> (case render_engine e h rq (agent_message rule) of (call, m) \<Rightarrow>
           (case call of Some c \<Rightarrow> [c] | None \<Rightarrow> [], m))
       | None \<Rightarrow> ([], agent_message rule))
     in (calls, trim_space (if trim_space message = [] then agent_message rule else message)))"

definition notice_body :: "marshaller \<Rightarrow> format \<Rightarrow> string \<Rightarrow> string" where
  "notice_body m fmt message = placeholder m fmt (split_byte (CHR 0x0A) message)"

definition set_announce :: "header \<Rightarrow> user_agent_rule \<Rightarrow> string \<Rightarrow> header" where
  "set_announce h rule message =
    (if agent_announce rule then header_set h announce_header (encode_form message FormBase64Prefixed)
     else h)"

definition content_type_for :: "format \<Rightarrow> string" where
  "content_type_for fmt =
    (case fmt of
       Format_Xray \<Rightarrow> ''application/json; charset=utf-8''
     | Format_Singbox \<Rightarrow> ''application/json; charset=utf-8''
     | Format_Clash \<Rightarrow> ''text/yaml; charset=utf-8''
     | _ \<Rightarrow> ''text/plain; charset=utf-8'')"

definition apply_notice ::
    "('a, 'p, 'm) libs \<Rightarrow> env \<Rightarrow> response \<Rightarrow> request_info \<Rightarrow> user_agent_rule \<Rightarrow> string \<Rightarrow> response" where
  "apply_notice l env resp info rule message =
    (if \<not> rewritable resp then resp
     else
       (let fallback = format_for_client_type (rq_client_type (ri_request info));
            (fmt, resp) = (if is_compressed (resp_header resp) then (fallback, resp)
              else (case drain_body (env_grow env) resp max_shuffle_body of
                  (Some buf, resp) \<Rightarrow>
                    (if sniff buf \<noteq> Format_Unknown then sniff buf else fallback, resp)
                | (None, resp) \<Rightarrow> (fallback, resp)));
            resp = resp\<lparr>resp_header := header_del (header_del (resp_header resp) ''Content-Encoding'') ''ETag''\<rparr>;
            resp = set_body (notice_body (lib_marshaller l) fmt message) resp
        in resp\<lparr>resp_header := set_announce (resp_header resp) rule message\<rparr>))"

definition write_body :: "env \<Rightarrow> nat \<Rightarrow> string \<Rightarrow> writer \<Rightarrow> writer" where
  "write_body env code buf w =
    write_bytes (env_header_order env) buf
      (write_header (env_header_order env) code
        (w\<lparr>w_header := header_set (w_header w) ''Content-Length'' (format_int (int (length buf)))\<rparr>))"

definition write_block ::
    "('a, 'p, 'm) libs \<Rightarrow> 'p proxy \<Rightarrow> env \<Rightarrow> request \<Rightarrow> user_agent_rule \<Rightarrow> writer \<Rightarrow> panel_calls \<times> writer" where
  "write_block l p env rq rule w =
    (let (calls, message) = notice_message p [] rq rule;
         fmt = format_for_client_type (rq_client_type rq);
         h = header_set (w_header w) ''Content-Type'' (content_type_for fmt);
         h = header_set h ''Cache-Control'' ''no-store'';
         h = set_announce h rule message
     in (calls, write_body env 200 (notice_body (lib_marshaller l) fmt message) (w\<lparr>w_header := h\<rparr>)))"

section \<open>The fallback cache and the shuffler\<close>

definition cached ::
    "env \<Rightarrow> request_info \<Rightarrow> sub_cache option \<Rightarrow> entry option \<times> sub_cache option" where
  "cached env info c =
    (case c of
       None \<Rightarrow> (None, None)
     | Some sc \<Rightarrow>
         if ri_cache_key info = [] then (None, c)
         else (case sub_get sc (env_now env) (ri_cache_key info) of (e, sc') \<Rightarrow> (e, Some sc')))"

definition shuffled :: "('a, 'p, 'm) libs \<Rightarrow> 'p proxy \<Rightarrow> string \<Rightarrow> string \<times> bool" where
  "shuffled l p buf = apply_shuffle (lib_json l) (lib_yaml l) (lib_read_ps l) (px_shuffler p) buf"

definition write_from_cache ::
    "('a, 'p, 'm) libs \<Rightarrow> 'p proxy \<Rightarrow> env \<Rightarrow> request_info \<Rightarrow> sub_cache option \<Rightarrow> writer
      \<Rightarrow> writer option \<times> sub_cache option" where
  "write_from_cache l p env info c w =
    (case cached env info c of
       (None, c) \<Rightarrow> (None, c)
     | (Some e, c) \<Rightarrow>
         (let h = fold (\<lambda>(k, vs) h. AList.update k vs h) (env_header_order env (ent_header e)) (w_header w);
              buf = (if shuffles p info \<and> \<not> is_compressed h then fst (shuffled l p (ent_body e))
                else ent_body e)
          in (Some (write_body env (ent_status e) buf (w\<lparr>w_header := h\<rparr>)), c)))"

definition replace_with_cache ::
    "env \<Rightarrow> request_info \<Rightarrow> sub_cache option \<Rightarrow> response \<Rightarrow> response option \<times> sub_cache option" where
  "replace_with_cache env info c resp =
    (if resp_status resp < 500 then (None, c)
     else
       (case cached env info c of
          (None, c) \<Rightarrow> (None, c)
        | (Some e, c) \<Rightarrow>
            (Some (set_body (ent_body e)
               (resp\<lparr>resp_status := ent_status e, resp_header := ent_header e\<rparr>)), c)))"

definition store ::
    "env \<Rightarrow> request_info \<Rightarrow> sub_cache option \<Rightarrow> response \<Rightarrow> response \<times> sub_cache option" where
  "store env info c resp =
    (case c of
       None \<Rightarrow> (resp, c)
     | Some sc \<Rightarrow>
         if ri_cache_key info = [] \<or> \<not> rewritable resp then (resp, c)
         else
           (case drain_body (env_grow env) resp (max_body sc) of
              (None, resp) \<Rightarrow> (resp, c)
            | (Some buf, resp) \<Rightarrow>
                (resp, Some (sub_put (env_entry_order env) sc (env_now env) (ri_cache_key info)
                  \<lparr>ent_status = resp_status resp, ent_header = resp_header resp, ent_body = buf,
                   stored_at = 0\<rparr>))))"

definition shuffle ::
    "('a, 'p, 'm) libs \<Rightarrow> 'p proxy \<Rightarrow> env \<Rightarrow> request_info \<Rightarrow> response \<Rightarrow> response" where
  "shuffle l p env info resp =
    (if \<not> shuffles p info \<or> \<not> rewritable resp then resp
     else if is_compressed (resp_header resp) then resp
     else
       (case drain_body (env_grow env) resp max_shuffle_body of
          (None, resp) \<Rightarrow> resp
        | (Some buf, resp) \<Rightarrow>
            (case shuffled l p buf of (out, changed) \<Rightarrow> if changed then set_body out resp else resp)))"

section \<open>Responses and errors\<close>

definition modify_response ::
    "('a, 'p, 'm) libs \<Rightarrow> 'p proxy \<Rightarrow> env \<Rightarrow> request_info option \<Rightarrow> sub_cache option \<Rightarrow> response
      \<Rightarrow> panel_calls \<times> response \<times> sub_cache option" where
  "modify_response l p env info c resp =
    (case info of
       None \<Rightarrow> ([], resp, c)
     | Some i \<Rightarrow>
         (case replace_with_cache env i c resp of
            (Some resp, c) \<Rightarrow> ([], shuffle l p env i resp, c)
          | (None, c) \<Rightarrow>
              (let (calls, message) = (case ri_notice i of
                     Some n \<Rightarrow> notice_message p (resp_header resp) (ri_request i) (ca_rule n)
                   | None \<Rightarrow> ([], []));
                   (call, h) = (case px_engine p of
                       Some e \<Rightarrow> if px_rewrites p
                         then apply_engine (env_header_order env) e (resp_header resp) (ri_request i)
                         else (None, resp_header resp)
                     | None \<Rightarrow> (None, resp_header resp));
                   calls = calls @ (case call of Some x \<Rightarrow> [x] | None \<Rightarrow> []);
                   resp = resp\<lparr>resp_header := h\<rparr>
               in case ri_notice i of
                    Some n \<Rightarrow> (calls, apply_notice l env resp i (ca_rule n) message, c)
                  | None \<Rightarrow>
                      (case store env i c (shuffle l p env i resp) of (resp, c) \<Rightarrow> (calls, resp, c)))))"

text \<open>A bare \<open>io.EOF\<close> is told apart from the other ways in which a round trip fails.\<close>

datatype net_error = Canceled | Closed_Early | Round_Trip_Failed | Bad_Protocol

text \<open>
  What the client gets: nothing because it left, a closed connection, a response, or, when the
  upstream agrees to switch protocols, the connection to it.
\<close>

datatype answer = No_Answer | Dropped | Written writer | Switched response

definition handle_error ::
    "('a, 'p, 'm) libs \<Rightarrow> 'p proxy \<Rightarrow> env \<Rightarrow> bool \<Rightarrow> request_info option \<Rightarrow> sub_cache option \<Rightarrow> net_error
      \<Rightarrow> writer \<Rightarrow> answer \<times> sub_cache option" where
  "handle_error l p env can_hijack info c err w =
    (if err = Canceled then (No_Answer, c)
     else
       (case (case info of Some i \<Rightarrow> write_from_cache l p env i c w | None \<Rightarrow> (None, c)) of
          (Some w, c) \<Rightarrow> (Written w, c)
        | (None, c) \<Rightarrow>
            if can_hijack then (Dropped, c)
            else (Written (write_header (env_header_order env) 502 w), c)))"

text \<open>How \<open>ReverseProxy\<close> hands a response to the client.\<close>

definition deliver :: "env \<Rightarrow> response \<Rightarrow> writer \<Rightarrow> writer" where
  "deliver env resp w =
    (let w = write_header (env_header_order env) (resp_status resp)
           (w\<lparr>w_header := fold (\<lambda>(k, vs) h. AList.update k vs h) (resp_header resp) (w_header w)\<rparr>);
         buf = pending (body_reader (resp_body resp))
     in if buf = [] then w else write_bytes (env_header_order env) buf w)"

text \<open>Interim answers that came before do not change what is handed over.\<close>

lemma interim_then_deliver:
  "deliver env resp (fold (write_interim (env_header_order env)) blocks new_writer) =
    (let w = deliver env resp new_writer
     in w\<lparr>w_status := map fst blocks @ w_status w,
          w_sent := map (interim_block (env_header_order env)) blocks @ w_sent w\<rparr>)"
  by (simp add: interim_leaves_no_trace new_writer_def deliver_def write_header_def write_bytes_def Let_def)

record served =
  answered :: answer
  sent :: "out_request option"
  calls_made :: panel_calls
  cache_after :: "sub_cache option"

type_synonym upstream = "out_request \<Rightarrow> net_error + response"

text \<open>The response as the hook gets it.\<close>

definition received :: "response \<Rightarrow> response" where
  "received resp =
    (if resp_status resp = 101 then resp
     else resp\<lparr>resp_header := remove_hop_headers (resp_header resp)\<rparr>)"

definition reverse_proxy ::
    "('a, 'p, 'm) libs \<Rightarrow> 'p proxy \<Rightarrow> env \<Rightarrow> bool \<Rightarrow> upstream \<Rightarrow> http_request \<Rightarrow> request_info option
      \<Rightarrow> sub_cache option \<Rightarrow> served" where
  "reverse_proxy l p env can_hijack up r info c =
    (if \<not> printable (upgrade_type (in_header r)) then
       (case handle_error l p env can_hijack info c Bad_Protocol new_writer of (a, c) \<Rightarrow>
          \<lparr>answered = a, sent = None, calls_made = [], cache_after = c\<rparr>)
     else
       (let out = rewrite_out l p r info in
        case up out of
          Inl err \<Rightarrow>
            (case handle_error l p env can_hijack info c err new_writer of (a, c) \<Rightarrow>
               \<lparr>answered = a, sent = Some out, calls_made = [], cache_after = c\<rparr>)
        | Inr resp \<Rightarrow>
            (case modify_response l p env info c (received resp) of (calls, resp', c) \<Rightarrow>
               \<lparr>answered = (if resp_status resp = 101 then Switched resp'
                   else Written (deliver env resp' new_writer)),
                sent = Some out, calls_made = calls, cache_after = c\<rparr>)))"

text \<open>\<open>refuse\<close> answers on the plain writer.\<close>

definition refuse :: "writer \<Rightarrow> writer" where
  "refuse w = w\<lparr>w_status := w_status w @ [404], w_sent := w_sent w @ [(404, w_header w)]\<rparr>"

definition cache_key_for :: "route \<Rightarrow> http_request \<Rightarrow> string" where
  "cache_key_for rt r =
    cache_key (route_short_uuid rt) (route_client_type rt) (header_get (in_header r) ''User-Agent'')
      (header_get (in_header r) ''Accept-Encoding'')"

definition serve_http ::
    "('a, 'p, 'm) libs \<Rightarrow> 'p proxy \<Rightarrow> env \<Rightarrow> bool \<Rightarrow> upstream \<Rightarrow> sub_cache option \<Rightarrow> http_request \<Rightarrow> served" where
  "serve_http l p env can_hijack up c r =
    (if blocked (opt_blocker (px_options p)) (in_path r)
     then \<lparr>answered = Written (refuse new_writer), sent = None, calls_made = [], cache_after = c\<rparr>
     else if \<not> px_observes p then reverse_proxy l p env can_hijack up r None c
     else
       (let rt = parse_route (in_path r) (opt_sub_prefix (px_options p));
            notice = (if route_short_uuid rt \<noteq> []
              then agent_match (opt_user_agents (px_options p)) (header_get (in_header r) ''User-Agent'')
              else None)
        in case notice of
             Some n \<Rightarrow>
               if agent_action (ca_rule n) = Some Agent_Block
               then (case write_block l p env (template_request l p r rt True) (ca_rule n) new_writer of
                       (calls, w) \<Rightarrow>
                         \<lparr>answered = Written w, sent = None, calls_made = calls, cache_after = c\<rparr>)
               else reverse_proxy l p env can_hijack up r
                      (Some \<lparr>ri_request = template_request l p r rt True, ri_cache_key = [],
                             ri_notice = notice\<rparr>) c
           | None \<Rightarrow>
               reverse_proxy l p env can_hijack up r
                 (Some \<lparr>ri_request = template_request l p r rt (px_rewrites p),
                        ri_cache_key = (if c \<noteq> None \<and> route_short_uuid rt \<noteq> []
                          then cache_key_for rt r else []),
                        ri_notice = None\<rparr>) c))"

section \<open>What the upstream is told\<close>

lemma forwarding_keys:
  "canonical_header_key ''X-Forwarded-For'' = ''X-Forwarded-For''"
  "canonical_header_key ''X-Forwarded-Proto'' = ''X-Forwarded-Proto''"
  "canonical_header_key ''X-Forwarded-Host'' = ''X-Forwarded-Host''"
  "canonical_header_key ''Forwarded'' = ''Forwarded''"
  "canonical_header_key ''Accept-Encoding'' = ''Accept-Encoding''"
  "canonical_header_key ''User-Agent'' = ''User-Agent''"
  by code_simp+

definition public_proto :: "'p proxy \<Rightarrow> http_request \<Rightarrow> string" where
  "public_proto p r =
    (if opt_force_https (px_options p) then ''https''
     else if header_get (in_header r) ''X-Forwarded-Proto'' \<noteq> []
       then header_get (in_header r) ''X-Forwarded-Proto''
     else if in_tls r then ''https'' else ''http'')"

definition public_host :: "http_request \<Rightarrow> string" where
  "public_host r =
    (if header_get (in_header r) ''X-Forwarded-Host'' = [] then in_host r
     else header_get (in_header r) ''X-Forwarded-Host'')"

abbreviation resolved :: "('a, 'p, 'm) libs \<Rightarrow> 'p proxy \<Rightarrow> http_request \<Rightarrow> string" where
  "resolved l p r \<equiv> client_ip (lib_netip l) (opt_real_ip (px_options p)) (ip_request_of r)"

lemma forward_headers_alt:
  "forward_headers l p r h =
    (let client = resolved l p r;
         h = (if client \<noteq> [] then header_set h ''X-Forwarded-For'' client else h);
         h = header_set h ''X-Forwarded-Proto'' (public_proto p r)
     in if public_host r \<noteq> [] then header_set h ''X-Forwarded-Host'' (public_host r) else h)"
  by (simp add: forward_headers_def public_proto_def public_host_def Let_def)

lemma forward_at:
  "map_of (forward_headers l p r h) ''X-Forwarded-For'' =
    (if resolved l p r = [] then map_of h ''X-Forwarded-For'' else Some [resolved l p r])"
  "map_of (forward_headers l p r h) ''X-Forwarded-Proto'' = Some [public_proto p r]"
  "map_of (forward_headers l p r h) ''X-Forwarded-Host'' =
    (if public_host r = [] then map_of h ''X-Forwarded-Host'' else Some [public_host r])"
  "map_of (forward_headers l p r h) ''Forwarded'' = map_of h ''Forwarded''"
  "map_of (forward_headers l p r h) ''Accept-Encoding'' = map_of h ''Accept-Encoding''"
  "map_of (forward_headers l p r h) ''User-Agent'' = map_of h ''User-Agent''"
  by (simp_all add: forward_headers_alt Let_def forwarding_keys)

lemma outgoing_at:
  "map_of (outgoing r) ''X-Forwarded-For'' = None"
  "map_of (outgoing r) ''X-Forwarded-Host'' = None"
  "map_of (outgoing r) ''Forwarded'' = None"
  "j \<notin> set dropped_headers \<Longrightarrow> map_of (outgoing r) j = map_of (end_to_end (in_header r)) j"
  by (simp_all add: outgoing_def dropped_headers_def forwarding_keys)

text \<open>A header of the client that the \<open>Connection\<close> header does not name.\<close>

definition kept_header :: "http_request \<Rightarrow> string \<Rightarrow> string list option" where
  "kept_header r k =
    (if k \<in> canonical_header_key ` set (connection_names (in_header r)) then None else map_of (in_header r) k)"

lemma outgoing_kept:
  "j \<notin> set dropped_headers \<Longrightarrow> j \<notin> set hop_headers \<Longrightarrow> map_of (outgoing r) j = kept_header r j"
  by (simp add: outgoing_at end_to_end_at kept_header_def)

definition body_rewritten :: "'p proxy \<Rightarrow> request_info option \<Rightarrow> bool" where
  "body_rewritten p info =
    (case info of Some i \<Rightarrow> shuffles p i \<or> ri_notice i \<noteq> None | None \<Rightarrow> False)"

lemma upstream_agent:
  "map_of (out_header (rewrite_out l p r info)) ''User-Agent'' =
    (case kept_header r ''User-Agent'' of None \<Rightarrow> Some [[]] | Some vs \<Rightarrow> Some vs)"
proof -
  have "map_of (outgoing r) ''User-Agent'' = kept_header r ''User-Agent''"
    by (rule outgoing_kept) (simp_all add: dropped_headers_def hop_headers_def)
  then show ?thesis
    using forward_at [of l p r "outgoing r"]
    by (cases info)
      (simp_all add: rewrite_out_def rewrite_hook_def Let_def map_of_header_del forwarding_keys split: option.split)
qed

text \<open>C6: The upstream is told one client address and nothing a client can add to: \<open>X-Forwarded-For\<close>
  holds exactly the resolved client, the scheme and the host are those of the public side, the
  \<open>Forwarded\<close> header is gone, a body that will be rewritten is never asked for compressed, and the
  user agent is the client's or empty; the method is the client's.\<close>

theorem upstream_sees_one_client:
  "map_of (out_header (rewrite_out l p r info)) ''X-Forwarded-For'' =
     (if resolved l p r = [] then None else Some [resolved l p r])
   \<and> map_of (out_header (rewrite_out l p r info)) ''Forwarded'' = None
   \<and> map_of (out_header (rewrite_out l p r info)) ''X-Forwarded-Proto'' = Some [public_proto p r]
   \<and> map_of (out_header (rewrite_out l p r info)) ''X-Forwarded-Host'' =
     (if public_host r = [] then None else Some [public_host r])
   \<and> map_of (out_header (rewrite_out l p r info)) ''Accept-Encoding'' =
     (if body_rewritten p info then None else kept_header r ''Accept-Encoding'')
   \<and> map_of (out_header (rewrite_out l p r info)) ''User-Agent'' =
     (case kept_header r ''User-Agent'' of None \<Rightarrow> Some [[]] | Some vs \<Rightarrow> Some vs)
   \<and> out_host (rewrite_out l p r info) = in_host r \<and> out_method (rewrite_out l p r info) = in_method r"
proof -
  have "map_of (outgoing r) ''Accept-Encoding'' = kept_header r ''Accept-Encoding''"
    by (rule outgoing_kept) (simp_all add: dropped_headers_def hop_headers_def)
  then show ?thesis
    using forward_at [of l p r "outgoing r"] outgoing_at(1-3) [of r] upstream_agent [of l p r info]
    by (cases info)
      (simp_all add: rewrite_out_def rewrite_hook_def body_rewritten_def Let_def map_of_header_del forwarding_keys)
qed

section \<open>Who is refused\<close>

definition notice_for :: "'p proxy \<Rightarrow> http_request \<Rightarrow> compiled_agent option" where
  "notice_for p r =
    (if px_observes p \<and> route_short_uuid (parse_route (in_path r) (opt_sub_prefix (px_options p))) \<noteq> []
     then agent_match (opt_user_agents (px_options p)) (header_get (in_header r) ''User-Agent'') else None)"

abbreviation forwards :: "http_request \<Rightarrow> bool" where
  "forwards r \<equiv> printable (upgrade_type (in_header r))"

lemma reverse_proxy_sent:
  "sent (reverse_proxy l p env h up r info c) = (if forwards r then Some (rewrite_out l p r info) else None)"
  by (simp add: reverse_proxy_def Let_def split: sum.split prod.split)

lemma write_body_parts [simp]:
  "w_status (write_body env code buf w) = w_status w @ [code]"
  "w_body (write_body env code buf w) = w_body w @ buf"
  by (simp_all add: write_body_def write_bytes_def write_header_def Let_def)

lemma write_block_status: "w_status (snd (write_block l p env rq rule w)) = w_status w @ [200]"
  by (simp add: write_block_def Let_def split_beta)

lemma new_writer_parts [simp]:
  "w_header new_writer = []" "w_status new_writer = []" "w_body new_writer = []" "w_wrote new_writer = False"
  by (simp_all add: new_writer_def)

text \<open>What \<open>ServeHTTP\<close> passes on, once nothing refuses the path.\<close>

definition request_info_for ::
    "('a, 'p, 'm) libs \<Rightarrow> 'p proxy \<Rightarrow> sub_cache option \<Rightarrow> http_request \<Rightarrow> request_info option" where
  "request_info_for l p c r =
    (let rt = parse_route (in_path r) (opt_sub_prefix (px_options p)); n = notice_for p r in
     if \<not> px_observes p then None
     else Some \<lparr>ri_request = template_request l p r rt (px_rewrites p \<or> n \<noteq> None),
                ri_cache_key = (if n = None \<and> c \<noteq> None \<and> route_short_uuid rt \<noteq> []
                  then cache_key_for rt r else []),
                ri_notice = n\<rparr>)"

lemma serve_plain:
  assumes "\<not> blocked (opt_blocker (px_options p)) (in_path r)" "notice_for p r = None"
  shows "serve_http l p env h up c r = reverse_proxy l p env h up r (request_info_for l p c r) c"
  using assms unfolding serve_http_def request_info_for_def Let_def
  by (cases "px_observes p"; cases "route_short_uuid (parse_route (in_path r) (opt_sub_prefix (px_options p))) = []")
    (simp_all add: notice_for_def)

lemma serve_notice:
  assumes "\<not> blocked (opt_blocker (px_options p)) (in_path r)" "notice_for p r = Some n"
  shows "serve_http l p env h up c r =
    (if agent_action (ca_rule n) = Some Agent_Block
     then (case write_block l p env
             (template_request l p r (parse_route (in_path r) (opt_sub_prefix (px_options p))) True)
             (ca_rule n) new_writer of
             (calls, w) \<Rightarrow> \<lparr>answered = Written w, sent = None, calls_made = calls, cache_after = c\<rparr>)
     else reverse_proxy l p env h up r (request_info_for l p c r) c)"
  using assms unfolding serve_http_def request_info_for_def Let_def
  by (cases "px_observes p"; cases "route_short_uuid (parse_route (in_path r) (opt_sub_prefix (px_options p))) = []")
    (simp_all add: notice_for_def)

text \<open>C5: A probe of a scanner and a subscription asked for with a blocked user agent are answered without
  the upstream hearing of them or the cache being touched; every other request is forwarded, unless
  it asks for a protocol whose name cannot be printed.\<close>

theorem only_refused_stay:
  "if blocked (opt_blocker (px_options p)) (in_path r)
   then serve_http l p env h up c r =
     \<lparr>answered = Written \<lparr>w_header = [], w_status = [404], w_sent = [(404, [])], w_body = [], w_wrote = False\<rparr>,
      sent = None, calls_made = [], cache_after = c\<rparr>
   else if (case notice_for p r of Some n \<Rightarrow> agent_action (ca_rule n) = Some Agent_Block | None \<Rightarrow> False)
   then sent (serve_http l p env h up c r) = None \<and> cache_after (serve_http l p env h up c r) = c
     \<and> (\<exists>w. answered (serve_http l p env h up c r) = Written w \<and> w_status w = [200])
   else \<exists>info. sent (serve_http l p env h up c r) = (if forwards r then Some (rewrite_out l p r info) else None)"
proof (cases "blocked (opt_blocker (px_options p)) (in_path r)")
  case True
  then show ?thesis by (simp add: serve_http_def refuse_def new_writer_def)
next
  case False
  show ?thesis
  proof (cases "notice_for p r")
    case None
    with False serve_plain [of p r l env h up c] show ?thesis by (auto simp: reverse_proxy_sent)
  next
    case (Some n)
    with False serve_notice [of p r n l env h up c] show ?thesis
      by (auto simp: reverse_proxy_sent split_beta write_block_status)
  qed
qed

text \<open>
  The key of the fallback cache is made of the headers as they come in.  A client can keep its user
  agent from the upstream by naming it in \<open>Connection\<close>; the answer to such a request is still stored
  for the user agent.
\<close>

lemma hidden_agent_same_key:
  assumes "r' = r\<lparr>in_header := (''Connection'', [''User-Agent'']) # in_header r\<rparr>"
  shows "request_info_for l p c r' = request_info_for l p c r
    \<and> map_of (out_header (rewrite_out l p r' i)) ''User-Agent'' = Some [[]]"
proof
  have "header_get (in_header r') k = header_get (in_header r) k" if "canonical_header_key k \<noteq> ''Connection''" for k
    using that by (simp add: assms header_get_def)
  then have "header_get (in_header r') k = header_get (in_header r) k"
    if "k \<in> {''User-Agent'', ''Accept-Encoding'', ''X-Forwarded-Host'', ''X-Forwarded-Proto''}" for k
    using that by (auto simp: forwarding_keys)
  then show "request_info_for l p c r' = request_info_for l p c r"
    by (simp add: request_info_for_def notice_for_def template_request_def subscription_url_def cache_key_for_def
        ip_request_of_def Let_def assms)
  have "trim_bytes [CHR 0x20, CHR 0x09, CHR 0x0A, CHR 0x0D] ''User-Agent'' = ''User-Agent''"
    "split_byte (CHR '','') ''User-Agent'' = [''User-Agent'']" by code_simp+
  then have "''User-Agent'' \<in> canonical_header_key ` set (connection_names (in_header r'))"
    by (simp add: assms connection_names_def header_values_def forwarding_keys)
  then show "map_of (out_header (rewrite_out l p r' i)) ''User-Agent'' = Some [[]]"
    using upstream_agent [of l p r' i] by (simp add: kept_header_def)
qed

section \<open>Bodies on the way through\<close>

abbreviation text_of :: "response \<Rightarrow> string" where
  "text_of resp \<equiv> fst (unread (resp_body resp))"

text \<open>A body that can be read to its end.\<close>

definition complete :: "response \<Rightarrow> bool" where
  "complete resp \<longleftrightarrow> resp_body resp \<noteq> No_Body \<and> \<not> snd (unread (resp_body resp))"

lemma drain_body_bodyless:
  "resp_body (snd (drain_body g resp m)) = No_Body \<longleftrightarrow> resp_body resp = No_Body"
  by (auto simp: drain_body_def Let_def whole_buffer_def split: option.splits prod.splits body.splits if_splits)

lemma drain_body_facts:
  assumes "0 \<le> m"
  shows "fst (drain_body g resp m) = (if complete resp \<and> int (length (text_of resp)) \<le> m then Some (text_of resp) else None)"
    and "unread (resp_body (snd (drain_body g resp m))) = unread (resp_body resp)"
    and "resp_header (snd (drain_body g resp m)) = resp_header resp"
    and "resp_status (snd (drain_body g resp m)) = resp_status resp"
    and "complete (snd (drain_body g resp m)) = complete resp"
    and "rewritable (snd (drain_body g resp m)) = rewritable resp"
  using drain_body_spec [OF assms, of g resp] drain_body_bodyless [of g resp m]
  by (auto simp: complete_def rewritable_def)

lemma drain_body_header:
  "resp_header (snd (drain_body g resp m)) = resp_header resp
    \<and> resp_status (snd (drain_body g resp m)) = resp_status resp"
  by (auto simp: drain_body_def Let_def split: option.splits prod.splits)

lemma max_shuffle_body_nonneg [simp]: "0 \<le> max_shuffle_body"
  by (simp add: max_shuffle_body_def)

lemma set_body_facts [simp]:
  "unread (resp_body (set_body b resp)) = (b, False)"
  "resp_status (set_body b resp) = resp_status resp"
  "resp_header (set_body b resp) = header_set (resp_header resp) ''Content-Length'' (format_int (int (length b)))"
  "complete (set_body b resp)"
  by (simp_all add: set_body_def unread_def body_reader_def pending_def complete_def)

lemma received_facts [simp]:
  "resp_status (received resp) = resp_status resp" "resp_body (received resp) = resp_body resp"
  by (simp_all add: received_def)

lemma response_header_update [simp]:
  "unread (resp_body (resp\<lparr>resp_header := h\<rparr>)) = unread (resp_body resp)"
  "complete (resp\<lparr>resp_header := h\<rparr>) = complete resp"
  by (simp_all add: complete_def)

lemma body_keys:
  "canonical_header_key ''Content-Length'' = ''Content-Length''"
  "canonical_header_key ''Content-Type'' = ''Content-Type''"
  "canonical_header_key ''Content-Encoding'' = ''Content-Encoding''"
  by code_simp+

lemma framing_keeps [simp]:
  "is_html (header_set h ''Content-Length'' v) = is_html h"
  "is_compressed (header_set h ''Content-Length'' v) = is_compressed h"
  by (simp_all add: is_html_def is_compressed_def header_get_set body_keys)

text \<open>\<open>shuffle\<close> with the draining written out: the body is replaced only when it can be read whole.\<close>

definition shuffle_applies :: "'p proxy \<Rightarrow> request_info \<Rightarrow> response \<Rightarrow> bool" where
  "shuffle_applies p i resp \<longleftrightarrow>
    shuffles p i \<and> rewritable resp \<and> \<not> is_compressed (resp_header resp)
    \<and> complete resp \<and> int (length (text_of resp)) \<le> max_shuffle_body"

lemma shuffle_cases:
  obtains resp' where "resp_status resp' = resp_status resp" "resp_header resp' = resp_header resp"
    "unread (resp_body resp') = unread (resp_body resp)" "complete resp' = complete resp"
    "shuffle l p env i resp =
      (if shuffle_applies p i resp \<and> snd (shuffled l p (text_of resp))
       then set_body (fst (shuffled l p (text_of resp))) resp' else resp')"
proof (cases "\<not> shuffles p i \<or> \<not> rewritable resp \<or> is_compressed (resp_header resp)")
  case True
  then have "shuffle l p env i resp = resp" by (auto simp: shuffle_def)
  with True that [of resp] show thesis by (auto simp: shuffle_applies_def)
next
  case False
  obtain b resp' where d: "drain_body (env_grow env) resp max_shuffle_body = (b, resp')" by fastforce
  note facts = drain_body_facts [OF max_shuffle_body_nonneg, of "env_grow env" resp, unfolded d fst_conv snd_conv]
  from False have "shuffle l p env i resp =
      (case b of None \<Rightarrow> resp'
       | Some buf \<Rightarrow> if snd (shuffled l p buf) then set_body (fst (shuffled l p buf)) resp' else resp')"
    by (simp add: shuffle_def d split_beta split: option.split)
  with False facts(1) that [OF facts(4,3,2,5)] show thesis
    by (auto simp: shuffle_applies_def split: if_splits)
qed

lemma shuffle_status: "resp_status (shuffle l p env i resp) = resp_status resp"
  by (rule shuffle_cases [of resp l p env i]) simp

lemma shuffle_passes:
  "\<not> rewritable resp \<Longrightarrow> shuffle l p env i resp = resp"
  by (simp add: shuffle_def)

lemma shuffle_rewritable [simp]: "rewritable (shuffle l p env i resp) = rewritable resp"
  by (rule shuffle_cases [of resp l p env i]) (simp add: rewritable_def)

section \<open>What is stored\<close>

definition headers_out :: "'p proxy \<Rightarrow> env \<Rightarrow> header \<Rightarrow> request \<Rightarrow> header" where
  "headers_out p env h rq =
    (case px_engine p of
       Some e \<Rightarrow> if px_rewrites p then snd (apply_engine (env_header_order env) e h rq) else h
     | None \<Rightarrow> h)"

lemma rewritten_headers:
  "snd (case px_engine p of
      Some e \<Rightarrow> if px_rewrites p then apply_engine (env_header_order env) e h rq else (None, h)
    | None \<Rightarrow> (None, h)) = headers_out p env h rq"
  by (simp add: headers_out_def split: option.split)

text \<open>\<open>ModifyResponse\<close> apart from the calls to the panel.\<close>

lemma modify_kept:
  assumes "replace_with_cache env i c resp = (None, c')"
  shows "snd (modify_response l p env (Some i) c resp) =
    (let resp1 = resp\<lparr>resp_header := headers_out p env (resp_header resp) (ri_request i)\<rparr>
     in case ri_notice i of
          Some n \<Rightarrow> (apply_notice l env resp1 i (ca_rule n)
            (snd (notice_message p (resp_header resp) (ri_request i) (ca_rule n))), c')
        | None \<Rightarrow> store env i c' (shuffle l p env i resp1))"
proof (cases "ri_notice i")
  case None
  then show ?thesis
    unfolding modify_response_def option.case assms prod.case rewritten_headers [symmetric]
    by (simp add: Let_def split_beta)
next
  case (Some n)
  then show ?thesis
    unfolding modify_response_def option.case assms prod.case rewritten_headers [symmetric]
    by (simp add: Let_def split_beta)
qed

lemma replace_below_500: "resp_status resp < 500 \<Longrightarrow> replace_with_cache env i c resp = (None, c)"
  by (simp add: replace_with_cache_def)

lemma notice_cases:
  assumes "rewritable resp"
  obtains fmt resp' where "resp_status resp' = resp_status resp"
    "resp_header resp' = header_del (header_del (resp_header resp) ''Content-Encoding'') ''ETag''"
    "apply_notice l env resp i rule message =
      (let resp'' = set_body (notice_body (lib_marshaller l) fmt message) resp'
       in resp''\<lparr>resp_header := set_announce (resp_header resp'') rule message\<rparr>)"
proof -
  let ?fallback = "format_for_client_type (rq_client_type (ri_request i))"
  define chosen where "chosen =
    (if is_compressed (resp_header resp) then (?fallback, resp)
     else (case drain_body (env_grow env) resp max_shuffle_body of
         (Some buf, resp) \<Rightarrow> (if sniff buf \<noteq> Format_Unknown then sniff buf else ?fallback, resp)
       | (None, resp) \<Rightarrow> (?fallback, resp)))"
  have "resp_status (snd chosen) = resp_status resp" "resp_header (snd chosen) = resp_header resp"
    using drain_body_header [of "env_grow env" resp max_shuffle_body]
    by (auto simp: chosen_def split: prod.split option.split)
  moreover have "apply_notice l env resp i rule message =
      (let resp' = (snd chosen)\<lparr>resp_header :=
             header_del (header_del (resp_header (snd chosen)) ''Content-Encoding'') ''ETag''\<rparr>;
           resp'' = set_body (notice_body (lib_marshaller l) (fst chosen) message) resp'
       in resp''\<lparr>resp_header := set_announce (resp_header resp'') rule message\<rparr>)"
    using assms by (simp add: apply_notice_def chosen_def Let_def split_beta)
  ultimately show thesis
    using that [of "(snd chosen)\<lparr>resp_header :=
      header_del (header_del (resp_header (snd chosen)) ''Content-Encoding'') ''ETag''\<rparr>" "fst chosen"]
    by (simp add: Let_def)
qed

lemma notice_keys:
  "canonical_header_key ''ETag'' = ''Etag''" "canonical_header_key announce_header = ''Announce''"
  unfolding announce_header_def by code_simp+

lemma notice_delivers:
  "resp_status (apply_notice l env resp i rule message) = resp_status resp
    \<and> (if rewritable resp
       then \<exists>fmt. text_of (apply_notice l env resp i rule message) = notice_body (lib_marshaller l) fmt message
       else text_of (apply_notice l env resp i rule message) = text_of resp)"
proof (cases "rewritable resp")
  case True
  then show ?thesis
    by (rule notice_cases [of resp l env i rule message]) (use True in \<open>auto simp: Let_def\<close>)
qed (simp add: apply_notice_def)

lemma stored_is_shaped:
  assumes "ri_notice i = None" "ri_cache_key i \<noteq> []" "resp_status resp < 500" "0 \<le> max_body sc"
  shows "let (resp', c') = snd (modify_response l p env (Some i) (Some sc) resp)
    in c' = Some
      (if rewritable resp' \<and> complete resp' \<and> int (length (text_of resp')) \<le> max_body sc
       then sub_put (env_entry_order env) sc (env_now env) (ri_cache_key i)
         \<lparr>ent_status = resp_status resp', ent_header = resp_header resp', ent_body = text_of resp',
          stored_at = 0\<rparr>
       else sc)"
proof -
  define resp1 where "resp1 = shuffle l p env i
    (resp\<lparr>resp_header := headers_out p env (resp_header resp) (ri_request i)\<rparr>)"
  have modify: "snd (modify_response l p env (Some i) (Some sc) resp) = store env i (Some sc) resp1"
    using modify_kept [OF replace_below_500 [OF assms(3)], of l p env i "Some sc"] assms(1) by (simp add: resp1_def Let_def)
  obtain b resp2 where d: "drain_body (env_grow env) resp1 (max_body sc) = (b, resp2)" by fastforce
  note facts = drain_body_facts [OF assms(4), of "env_grow env" resp1, unfolded d fst_conv snd_conv]
  show ?thesis
  proof (cases "rewritable resp1")
    case True
    with assms(2) facts show ?thesis by (auto simp: modify store_def d split: option.split if_splits)
  next
    case False
    with assms(2) show ?thesis by (simp add: modify store_def)
  qed
qed

text \<open>C8: What the cache keeps is what the client gets: an answer is stored exactly when it is a success,
  no web page, complete and within the limit, and then with the status, the headers and the whole
  body that are delivered.\<close>

theorem stored_is_delivered:
  assumes "ri_notice i = None" "ri_cache_key i \<noteq> []" "resp_status resp < 500" "0 \<le> max_body sc"
  shows "let (resp', c') = snd (modify_response l p env (Some i) (Some sc) resp)
    in c' = Some
      (if rewritable resp' \<and> complete resp' \<and> int (length (text_of resp')) \<le> max_body sc
       then sub_put (env_entry_order env) sc (env_now env) (ri_cache_key i)
         \<lparr>ent_status = resp_status resp', ent_header = resp_header resp', ent_body = text_of resp',
          stored_at = 0\<rparr>
       else sc)"
  using assms by (rule stored_is_shaped)

lemma fold_update_at:
  assumes "distinct (map_keys es)"
  shows "map_of (fold (\<lambda>(k, vs) h. AList.update k vs h) es h) j =
    (case map_of es j of Some vs \<Rightarrow> Some vs | None \<Rightarrow> map_of h j)"
  using assms
proof (induction es arbitrary: h)
  case (Cons e es)
  obtain k vs where e: "e = (k, vs)" by fastforce
  with Cons.prems have "map_of es k = None" by (auto simp: map_of_eq_None_iff)
  with Cons e show ?case by (auto split: option.split)
qed simp

lemma length_transport: "''Content-Length'' \<in> set transport_headers"
  by (simp add: transport_headers_def)

lemma deliver_parts:
  "w_status (deliver env resp new_writer) = [resp_status resp]"
  "w_body (deliver env resp new_writer) = text_of resp"
  "gomap_ok (resp_header resp) \<Longrightarrow>
    map_of (w_header (deliver env resp new_writer)) ''Content-Length'' = map_of (resp_header resp) ''Content-Length''"
proof -
  show "w_status (deliver env resp new_writer) = [resp_status resp]"
    "w_body (deliver env resp new_writer) = text_of resp"
    by (simp_all add: deliver_def write_header_def write_bytes_def Let_def unread_def)
  assume "gomap_ok (resp_header resp)"
  then show "map_of (w_header (deliver env resp new_writer)) ''Content-Length''
      = map_of (resp_header resp) ''Content-Length''"
    by (simp add: deliver_def write_header_def write_bytes_def Let_def fold_update_at gomap_ok_def
        lowercase_keys_transport length_transport split: option.split)
qed

text \<open>A web page that the header rules leave a web page: none names \<open>Content-Type\<close> and its value has no placeholder.\<close>

definition stays_page :: "'p proxy \<Rightarrow> header \<Rightarrow> bool" where
  "stays_page p h \<longleftrightarrow>
    header_ok h \<and> is_html h
    \<and> (case px_engine p of
         None \<Rightarrow> True
       | Some e \<Rightarrow>
           \<not> list_ex (\<lambda>rl. canonical_header_key (rule_name rl) = ''Content-Type'') (eng_rules e)
           \<and> (case map_of h ''Content-Type'' of
                Some (v # ws) \<Rightarrow> \<not> contains_placeholder (fst (read_value e (Some v))) | _ \<Rightarrow> True))"

lemma stays_page_html:
  assumes "stays_page p h" "is_order (env_header_order env)"
  shows "is_html (headers_out p env h rq)"
proof (cases "px_engine p")
  case None
  with assms(1) show ?thesis by (simp add: stays_page_def headers_out_def)
next
  case (Some e)
  have "canonical_header_key user_info_header \<noteq> ''Content-Type''" by code_simp
  with assms Some have "map_of (snd (apply_engine (env_header_order env) e h rq)) ''Content-Type'' = map_of h ''Content-Type''"
    by (intro other_headers_untouched) (auto simp: stays_page_def list_ex_iff split: option.splits)
  then have "map_of (headers_out p env h rq) ''Content-Type'' = map_of h ''Content-Type''"
    using Some by (simp add: headers_out_def)
  with assms(1) show ?thesis by (simp add: stays_page_def is_html_def header_get_def body_keys)
qed

text \<open>C10: An error answer and the web page reach the client untouched: where the fallback cache does not
  step in (it may for an answer of 500 or more), an answer with a status other than 200, and a web
  page whose \<open>Content-Type\<close> no header rule names or fills in, are delivered with the status and the
  body that the upstream sent and the headers that the header rules make of its own; nothing is
  shuffled, replaced by a message or stored.\<close>

theorem pass_through:
  assumes "fst (replace_with_cache env i c resp) = None"
    and "resp_status resp \<noteq> 200 \<or> stays_page p (resp_header resp) \<and> is_order (env_header_order env)"
  shows "let out = fst (snd (modify_response l p env (Some i) c resp))
    in resp_status out = resp_status resp \<and> resp_body out = resp_body resp
      \<and> resp_header out = headers_out p env (resp_header resp) (ri_request i)
      \<and> snd (snd (modify_response l p env (Some i) c resp)) = snd (replace_with_cache env i c resp)
      \<and> w_status (deliver env out new_writer) = [resp_status resp]
      \<and> w_body (deliver env out new_writer) = text_of resp"
proof -
  obtain c' where r: "replace_with_cache env i c resp = (None, c')"
    using assms(1) by (cases "replace_with_cache env i c resp") auto
  define resp1 where "resp1 = resp\<lparr>resp_header := headers_out p env (resp_header resp) (ri_request i)\<rparr>"
  note modify = modify_kept [OF r, of l p, folded resp1_def, unfolded Let_def]
  have "\<not> rewritable resp1"
    using assms(2) stays_page_html [of p "resp_header resp" env "ri_request i"]
    by (auto simp: rewritable_def resp1_def)
  then have "snd (modify_response l p env (Some i) c resp) = (resp1, c')"
    by (cases "ri_notice i") (simp_all add: modify shuffle_passes store_def apply_notice_def split: option.split)
  then show ?thesis by (simp add: r resp1_def deliver_parts)
qed

section \<open>Notices\<close>

lemma set_announce_length [simp]:
  "map_of (set_announce h rule message) ''Content-Length'' = map_of h ''Content-Length''"
  by (simp add: set_announce_def notice_keys)

lemma no_key_no_cache: "ri_cache_key i = [] \<Longrightarrow> cached env i c = (None, c)"
  by (cases c) (simp_all add: cached_def)

lemma no_key_no_replace: "ri_cache_key i = [] \<Longrightarrow> replace_with_cache env i c resp = (None, c)"
  by (simp add: replace_with_cache_def no_key_no_cache)

text \<open>What a client gets when there is nothing to pass on and nothing in the cache.\<close>

definition plain_failure :: "env \<Rightarrow> bool \<Rightarrow> net_error \<Rightarrow> answer" where
  "plain_failure env can_hijack err =
    (if err = Canceled then No_Answer
     else if can_hijack then Dropped
     else Written (write_header (env_header_order env) 502 new_writer))"

lemma unkeyed_failure:
  "ri_cache_key i = [] \<Longrightarrow> handle_error l p env h (Some i) c err new_writer = (plain_failure env h err, c)"
  by (simp add: handle_error_def write_from_cache_def no_key_no_cache plain_failure_def)

text \<open>C9: A subscription fetched with a broken user agent never meets the fallback cache.  The cache is left
  as it is; where the upstream cannot be reached or cannot be asked the client gets what it would
  get without a cache, no answer when it left, a dropped connection, or status 502 where the
  connection cannot be taken over; and where the upstream answers, be it with an error, the client
  gets the upstream's status and its body, or in place of a subscription the body made from the
  rule's message.\<close>

theorem notice_isolated:
  assumes "\<not> blocked (opt_blocker (px_options p)) (in_path r)" "notice_for p r = Some n"
    and "agent_action (ca_rule n) \<noteq> Some Agent_Block"
  shows "cache_after (serve_http l p env h up c r) = c
    \<and> (if \<not> forwards r then answered (serve_http l p env h up c r) = plain_failure env h Bad_Protocol
       else case up (rewrite_out l p r (request_info_for l p c r)) of
         Inl err \<Rightarrow> answered (serve_http l p env h up c r) = plain_failure env h err
       | Inr resp \<Rightarrow> resp_status resp \<noteq> 101 \<longrightarrow>
           (let rq = ri_request (the (request_info_for l p c r)); resp0 = received resp;
                resp1 = resp0\<lparr>resp_header := headers_out p env (resp_header resp0) rq\<rparr>
            in \<exists>w. answered (serve_http l p env h up c r) = Written w \<and> w_status w = [resp_status resp]
              \<and> (if rewritable resp1
                 then \<exists>fmt. w_body w = notice_body (lib_marshaller l) fmt
                   (snd (notice_message p (resp_header resp0) rq (ca_rule n)))
                 else w_body w = text_of resp)))"
proof -
  have obs: "px_observes p" using assms(2) by (auto simp: notice_for_def split: if_splits)
  define i where "i = the (request_info_for l p c r)"
  have i: "request_info_for l p c r = Some i" "ri_notice i = Some n" "ri_cache_key i = []"
    using obs assms(2) by (simp_all add: i_def request_info_for_def Let_def)
  have serve: "serve_http l p env h up c r = reverse_proxy l p env h up r (Some i) c"
    using serve_notice [OF assms(1,2), of l env h up c] assms(3) i(1) by simp
  note failure = unkeyed_failure [OF i(3), of l p env h c]
  show ?thesis
  proof (cases "forwards r")
    case False
    then show ?thesis by (simp add: serve reverse_proxy_def failure)
  next
    case forwards: True
    show ?thesis
    proof (cases "up (rewrite_out l p r (Some i))")
      case (Inl err)
      with forwards show ?thesis by (simp add: serve i(1) reverse_proxy_def Let_def failure)
    next
      case (Inr resp)
      define resp0 where "resp0 = received resp"
      define resp1 where "resp1 = resp0\<lparr>resp_header := headers_out p env (resp_header resp0) (ri_request i)\<rparr>"
      define m where "m = snd (notice_message p (resp_header resp0) (ri_request i) (ca_rule n))"
      have resp1: "resp_status resp1 = resp_status resp" "text_of resp1 = text_of resp"
        by (simp_all add: resp1_def resp0_def)
      have modify: "snd (modify_response l p env (Some i) c resp0) = (apply_notice l env resp1 i (ca_rule n) m, c)"
        using modify_kept [OF no_key_no_replace [OF i(3)], of l p env c resp0] i(2)
        by (simp add: resp1_def m_def Let_def)
      have "resp_status (apply_notice l env resp1 i (ca_rule n) m) = resp_status resp
          \<and> (if rewritable resp1
             then \<exists>fmt. text_of (apply_notice l env resp1 i (ca_rule n) m) = notice_body (lib_marshaller l) fmt m
             else text_of (apply_notice l env resp1 i (ca_rule n) m) = text_of resp)"
        using notice_delivers [of l env resp1 i "ca_rule n" m] resp1 by simp
      with Inr forwards modify show ?thesis
        by (simp add: serve i(1) reverse_proxy_def Let_def split_beta deliver_parts
            flip: resp0_def resp1_def m_def)
    qed
  qed
qed

section \<open>While the upstream is down\<close>

text \<open>The body replayed for an entry: shuffled afresh, like the one of a live answer.\<close>

definition replayed :: "('a, 'p, 'm) libs \<Rightarrow> 'p proxy \<Rightarrow> request_info \<Rightarrow> entry \<Rightarrow> string" where
  "replayed l p i e =
    (if shuffles p i \<and> \<not> is_compressed (ent_header e) then fst (shuffled l p (ent_body e)) else ent_body e)"

text \<open>A format that reports no change hands the body back.\<close>

lemma formats_unchanged:
  "\<not> snd (apply_xray js sh b) \<Longrightarrow> fst (apply_xray js sh b) = b"
  "\<not> snd (apply_singbox js sh b) \<Longrightarrow> fst (apply_singbox js sh b) = b"
  "\<not> snd (apply_clash yl sh b) \<Longrightarrow> fst (apply_clash yl sh b) = b"
  "\<not> snd (apply_links read_ps sh b) \<Longrightarrow> fst (apply_links read_ps sh b) = b"
  by (auto simp: apply_xray_def Let_def split: option.splits,
      auto simp: apply_singbox_def Let_def split: option.splits,
      auto simp: apply_clash_def split: option.splits list.splits,
      auto simp: apply_links_def Let_def split: option.splits)

lemma shuffled_unchanged: "\<not> snd (shuffled l p b) \<Longrightarrow> fst (shuffled l p b) = b"
  unfolding shuffled_def apply_shuffle_def
  by (cases "px_shuffler p"; cases "sniff b") (auto simp: formats_unchanged)

lemma write_body_length:
  "map_of (w_header (write_body env code buf w)) ''Content-Length'' = Some [format_int (int (length buf))]"
  by (simp add: write_body_def write_bytes_def write_header_def Let_def lowercase_keys_transport
      length_transport body_keys)

lemma entry_headers:
  assumes "is_order ord" "gomap_ok h"
  shows "is_compressed (fold (\<lambda>(k, vs) h. AList.update k vs h) (ord h) []) = is_compressed h"
proof -
  have "map_of (fold (\<lambda>(k, vs) h. AList.update k vs h) (ord h) []) j = map_of h j" for j
  proof -
    have "map_of (ord h) = map_of h"
      using assms by (intro map_of_inject_set [THEN iffD2]) (auto simp: gomap_ok_def order_set dest: order_distinct)
    then show ?thesis using order_distinct [OF assms] by (simp add: fold_update_at split: option.split)
  qed
  then show ?thesis by (simp add: is_compressed_def header_get_def)
qed

lemma replay_unreachable:
  assumes "is_order (env_header_order env)" "gomap_ok (ent_header e)" "cached env i c = (Some e, c')"
  shows "\<exists>w. write_from_cache l p env i c new_writer = (Some w, c') \<and> w_status w = [ent_status e]
    \<and> w_body w = replayed l p i e
    \<and> map_of (w_header w) ''Content-Length'' = Some [format_int (int (length (replayed l p i e)))]"
  using assms
  by (simp add: write_from_cache_def Let_def entry_headers replayed_def write_body_length)

lemma header_ok_keys: "gomap_ok h \<Longrightarrow> gomap_ok (header_set h k v)"
  by (simp add: gomap_ok_def header_set_def AList.distinct_update)

text \<open>In place of an error of the upstream a body is shuffled like a live one, so within the same limit.\<close>

definition replaced :: "('a, 'p, 'm) libs \<Rightarrow> 'p proxy \<Rightarrow> request_info \<Rightarrow> entry \<Rightarrow> string" where
  "replaced l p i e =
    (if int (length (ent_body e)) \<le> max_shuffle_body then replayed l p i e else ent_body e)"

lemma replay_error:
  assumes "gomap_ok (ent_header e)" "cached env i c = (Some e, c')" "500 \<le> resp_status resp"
    and "ent_status e = 200" "\<not> is_html (ent_header e)"
  shows "\<exists>resp'. modify_response l p env (Some i) c resp = ([], resp', c') \<and> resp_status resp' = 200
    \<and> text_of resp' = replaced l p i e \<and> gomap_ok (resp_header resp')
    \<and> map_of (resp_header resp') ''Content-Length'' = Some [format_int (int (length (replaced l p i e)))]"
proof -
  define resp1 where "resp1 = set_body (ent_body e) (resp\<lparr>resp_status := ent_status e, resp_header := ent_header e\<rparr>)"
  have modify: "modify_response l p env (Some i) c resp = ([], shuffle l p env i resp1, c')"
    using assms(2,3) by (simp add: modify_response_def replace_with_cache_def resp1_def)
  have resp1: "resp_status resp1 = 200" "text_of resp1 = ent_body e" "complete resp1" "rewritable resp1"
    "is_compressed (resp_header resp1) = is_compressed (ent_header e)" "gomap_ok (resp_header resp1)"
    "map_of (resp_header resp1) ''Content-Length'' = Some [format_int (int (length (ent_body e)))]"
    using assms(1,4,5) by (simp_all add: resp1_def rewritable_def header_ok_keys body_keys)
  have applies: "shuffle_applies p i resp1 \<longleftrightarrow> shuffles p i \<and> \<not> is_compressed (ent_header e)
      \<and> int (length (ent_body e)) \<le> max_shuffle_body"
    using resp1 by (simp add: shuffle_applies_def)
  show ?thesis
    by (rule shuffle_cases [of resp1 l p env i])
      (use resp1 applies shuffled_unchanged [of l p "ent_body e"] in
        \<open>auto simp: modify replayed_def replaced_def header_ok_keys body_keys\<close>)
qed

text \<open>The two ways in which the page can be down.\<close>

definition unreachable ::
    "('a, 'p, 'm) libs \<Rightarrow> 'p proxy \<Rightarrow> upstream \<Rightarrow> http_request \<Rightarrow> request_info \<Rightarrow> bool" where
  "unreachable l p up r i \<longleftrightarrow>
    \<not> forwards r \<or> (\<exists>err. up (rewrite_out l p r (Some i)) = Inl err \<and> err \<noteq> Canceled)"

definition answers_error ::
    "('a, 'p, 'm) libs \<Rightarrow> 'p proxy \<Rightarrow> upstream \<Rightarrow> http_request \<Rightarrow> request_info \<Rightarrow> bool" where
  "answers_error l p up r i \<longleftrightarrow>
    forwards r \<and> (\<exists>resp. up (rewrite_out l p r (Some i)) = Inr resp \<and> 500 \<le> resp_status resp)"

text \<open>C7: While the page is down, a client whose last subscription is in the cache gets that subscription with
  status 200 and a length that is true to its body.  Where shuffling is on and the body is not
  compressed, its hosts are shuffled: whatever its size where the page cannot be reached (or the
  request cannot be passed on), and up to the limit of 8 MiB where the page answers with an error
  of its own; a larger body is then sent as it was stored.\<close>

theorem outage_replay:
  assumes "\<not> blocked (opt_blocker (px_options p)) (in_path r)" "notice_for p r = None"
    and "request_info_for l p (Some sc) r = Some i" "ri_cache_key i \<noteq> []"
    and "fst (sub_get sc (env_now env) (ri_cache_key i)) = Some e"
    and "ent_status e = 200" "\<not> is_html (ent_header e)" "gomap_ok (ent_header e)"
    and "is_order (env_header_order env)"
    and "unreachable l p up r i \<or> answers_error l p up r i"
  shows "\<exists>w. answered (serve_http l p env h up (Some sc) r) = Written w \<and> w_status w = [200]
    \<and> w_body w = (if unreachable l p up r i then replayed l p i e else replaced l p i e)
    \<and> map_of (w_header w) ''Content-Length'' = Some [format_int (int (length (w_body w)))]"
proof -
  obtain c' where c: "cached env i (Some sc) = (Some e, c')"
    using assms(4,5) by (simp add: cached_def split_beta)
  have serve: "serve_http l p env h up (Some sc) r = reverse_proxy l p env h up r (Some i) (Some sc)"
    using serve_plain [OF assms(1,2), of l env h up "Some sc"] assms(3) by simp
  show ?thesis
  proof (cases "unreachable l p up r i")
    case True
    then obtain err where "err \<noteq> Canceled" "answered (reverse_proxy l p env h up r (Some i) (Some sc))
        = fst (handle_error l p env h (Some i) (Some sc) err new_writer)"
      by (cases "forwards r") (auto simp: unreachable_def reverse_proxy_def Let_def split_beta)
    with replay_unreachable [OF assms(9,8) c, of l p] assms(6) True show ?thesis
      by (auto simp: serve handle_error_def Let_def)
  next
    case False
    with assms(10) obtain resp where up: "forwards r" "up (rewrite_out l p r (Some i)) = Inr resp"
      and failed: "500 \<le> resp_status (received resp)" by (auto simp: answers_error_def)
    from replay_error [OF assms(8) c failed assms(6,7), of l p] obtain resp' where
      "modify_response l p env (Some i) (Some sc) (received resp) = ([], resp', c')" "resp_status resp' = 200"
      "text_of resp' = replaced l p i e" "gomap_ok (resp_header resp')"
      "map_of (resp_header resp') ''Content-Length'' = Some [format_int (int (length (replaced l p i e)))]"
      by blast
    moreover have "resp_status resp \<noteq> 101" using failed by auto
    ultimately show ?thesis using up False by (simp add: serve reverse_proxy_def Let_def deliver_parts)
  qed
qed

section \<open>Instances\<close>

definition sample_libs :: "(string, string, nat) libs" where
  "sample_libs =
    \<lparr>lib_netip = sample_netip,
     lib_json = \<lparr>js_array = (\<lambda>_. None), js_members = (\<lambda>_. None), js_remarks = (\<lambda>_. None),
       js_node = (\<lambda>_. (\<lparr>node_tag = [], node_server = [], node_outbounds = []\<rparr>, False)), js_string = id,
       js_strings = concat, js_check = Some, js_compact = Some, js_indent = (\<lambda>_ s. Some s)\<rparr>,
     lib_yaml = \<lparr>yaml_read = (\<lambda>_. None), yaml_write = (\<lambda>_. None)\<rparr>,
     lib_read_ps = (\<lambda>_. None), lib_marshaller = \<lparr>to_json = (\<lambda>_. ''{}''), to_yaml = (\<lambda>_. ''{}'')\<rparr>\<rparr>"

definition sample_env :: env where
  "sample_env = \<lparr>env_now = 5, env_header_order = rev, env_entry_order = rev, env_grow = (\<lambda>n. 2 * n)\<rparr>"

definition pasted_link :: compiled_agent where
  "pasted_link =
    \<lparr>ca_rule = \<lparr>agent_name = ''link'', agent_pattern = ''^http'', agent_action = Some Agent_Notice,
       agent_message = ''Fix your client'', agent_announce = True\<rparr>,
     ca_regexp = (\<lambda>s. has_prefix s ''http'')\<rparr>"

definition sample_proxy :: "string proxy" where
  "sample_proxy = new_proxy
    \<lparr>opt_upstream = \<lparr>url_scheme = ''http'', url_host = ''page'', url_path = []\<rparr>, opt_sub_prefix = [],
     opt_engine = None, opt_real_ip = no_trust,
     opt_blocker = Some \<lparr>blk_enabled = True, blk_prefix = [], blk_patterns = []\<rparr>,
     opt_sub_cache = Some (new_sub_cache 100 50 10), opt_shuffler = None,
     opt_user_agents = Some \<lparr>af_rules = [pasted_link], af_disabled = []\<rparr>, opt_force_https = False\<rparr>"

definition sample_get :: "string \<Rightarrow> http_request" where
  "sample_get ua =
    \<lparr>in_method = ''GET'', in_path = ''/aB3'', in_header = [(''User-Agent'', [ua])], in_host = ''sub.example'', in_tls = False,
     in_remote = ''10.0.0.1:80''\<rparr>"

definition sample_response :: "nat \<Rightarrow> string \<Rightarrow> response" where
  "sample_response code b =
    \<lparr>resp_status = code, resp_header = [], resp_body = Streaming \<lparr>chunks = [b], fails = False\<rparr>,
     resp_length = -1, resp_transfer = []\<rparr>"

definition sample_info :: request_info where
  "sample_info =
    \<lparr>ri_request = \<lparr>rq_short_uuid = ''aB3'', rq_client_type = [], rq_user_agent = ''Happ'', rq_client_ip = [],
       rq_subscription_url = []\<rparr>, ri_cache_key = ''k'', ri_notice = None\<rparr>"

theorem stored_is_delivered_witness:
  "snd (snd (modify_response sample_libs sample_proxy sample_env (Some sample_info)
      (Some (new_sub_cache 100 50 10)) (sample_response 200 ''hosts'')))
    = Some (sub_put rev (new_sub_cache 100 50 10) 5 ''k''
        \<lparr>ent_status = 200, ent_header = [], ent_body = ''hosts'', stored_at = 0\<rparr>)"
proof -
  have "fst (snd (modify_response sample_libs sample_proxy sample_env (Some sample_info)
      (Some (new_sub_cache 100 50 10)) (sample_response 200 ''hosts'')))
    = (sample_response 200 ''hosts'')\<lparr>resp_body := Buffered ''hosts'' 0\<rparr>"
    by code_simp
  moreover have "rewritable ((sample_response 200 ''hosts'')\<lparr>resp_body := Buffered ''hosts'' 0\<rparr>)"
    by code_simp
  ultimately show ?thesis
    using stored_is_delivered [where l = sample_libs and p = sample_proxy and env = sample_env
        and i = sample_info and sc = "new_sub_cache 100 50 10" and resp = "sample_response 200 ''hosts''"]
    by (simp add: sample_info_def sample_response_def new_sub_cache_def split_beta complete_def unread_def
        body_reader_def pending_def sample_env_def)
qed

definition sample_page :: response where
  "sample_page = (sample_response 200 ''page'')\<lparr>resp_header := [(''Content-Type'', [''text/html; charset=utf-8''])]\<rparr>"

theorem pass_through_witness:
  "w_body (deliver sample_env (fst (snd (modify_response sample_libs sample_proxy sample_env (Some sample_info)
      (Some (new_sub_cache 100 50 10)) (sample_response 503 ''down'')))) new_writer) = ''down''
   \<and> w_body (deliver sample_env (fst (snd (modify_response sample_libs sample_proxy sample_env (Some sample_info)
      (Some (new_sub_cache 100 50 10)) sample_page))) new_writer) = ''page''"
proof -
  have "fst (replace_with_cache sample_env sample_info (Some (new_sub_cache 100 50 10)) (sample_response 503 ''down'')) = None"
    "fst (replace_with_cache sample_env sample_info (Some (new_sub_cache 100 50 10)) sample_page) = None"
    "resp_status (sample_response 503 ''down'') \<noteq> 200" "stays_page sample_proxy (resp_header sample_page)"
    by code_simp+
  moreover have "is_order (env_header_order sample_env)" by (simp add: sample_env_def)
  moreover have "text_of (sample_response 503 ''down'') = ''down''" "text_of sample_page = ''page''" by code_simp+
  ultimately show ?thesis
    using pass_through [where env = sample_env and i = sample_info and p = sample_proxy and l = sample_libs
        and c = "Some (new_sub_cache 100 50 10)"] by (simp add: Let_def)
qed

definition filled_cache :: sub_cache where
  "filled_cache = sub_put rev (new_sub_cache 100 500 100) 3
    (cache_key_for \<lparr>route_short_uuid = ''aB3'', route_client_type = []\<rparr> (sample_get ''Happ'')) sample_entry"

theorem notice_isolated_witness:
  "cache_after (serve_http sample_libs sample_proxy sample_env True (\<lambda>_. Inr (sample_response 200 ''hosts''))
      (Some filled_cache) (sample_get ''https://sub.example/aB3'')) = Some filled_cache
   \<and> answered (serve_http sample_libs sample_proxy sample_env True (\<lambda>_. Inl Round_Trip_Failed)
      (Some filled_cache) (sample_get ''https://sub.example/aB3'')) = Dropped"
proof -
  have "\<not> blocked (opt_blocker (px_options sample_proxy)) (in_path (sample_get ''https://sub.example/aB3''))"
    "forwards (sample_get ''https://sub.example/aB3'')"
    by code_simp+
  moreover have "\<not> Option.is_none (notice_for sample_proxy (sample_get ''https://sub.example/aB3''))"
    "agent_action (ca_rule (the (notice_for sample_proxy (sample_get ''https://sub.example/aB3'')))) \<noteq> Some Agent_Block"
    by code_simp+
  ultimately show ?thesis
    using notice_isolated [where p = sample_proxy and r = "sample_get ''https://sub.example/aB3''"
        and n = "the (notice_for sample_proxy (sample_get ''https://sub.example/aB3''))" and l = sample_libs and env = sample_env and h = True
        and c = "Some filled_cache", of "\<lambda>_. Inr (sample_response 200 ''hosts'')"]
      notice_isolated [where p = sample_proxy and r = "sample_get ''https://sub.example/aB3''"
        and n = "the (notice_for sample_proxy (sample_get ''https://sub.example/aB3''))" and l = sample_libs and env = sample_env and h = True
        and c = "Some filled_cache", of "\<lambda>_. Inl Round_Trip_Failed"]
    by (simp add: Option.is_none_def plain_failure_def)
qed

theorem outage_replay_witness:
  "(\<exists>w. answered (serve_http sample_libs sample_proxy sample_env True (\<lambda>_. Inl Round_Trip_Failed)
      (Some filled_cache) (sample_get ''Happ'')) = Written w \<and> w_status w = [200] \<and> w_body w = ''body'')
   \<and> (\<exists>w. answered (serve_http sample_libs sample_proxy sample_env True (\<lambda>_. Inr (sample_response 502 ''down''))
      (Some filled_cache) (sample_get ''Happ'')) = Written w \<and> w_status w = [200] \<and> w_body w = ''body'')"
proof -
  let ?i = "the (request_info_for sample_libs sample_proxy (Some filled_cache) (sample_get ''Happ''))"
  have some: "\<not> Option.is_none (request_info_for sample_libs sample_proxy (Some filled_cache) (sample_get ''Happ''))"
    "Option.is_none (notice_for sample_proxy (sample_get ''Happ''))"
    by code_simp+
  then have info: "request_info_for sample_libs sample_proxy (Some filled_cache) (sample_get ''Happ'') = Some ?i"
    "notice_for sample_proxy (sample_get ''Happ'') = None"
    by (simp_all add: Option.is_none_def)
  have i: "\<not> blocked (opt_blocker (px_options sample_proxy)) (in_path (sample_get ''Happ''))" "ri_cache_key ?i \<noteq> []"
    "fst (sub_get filled_cache 5 (ri_cache_key ?i)) = Some (sample_entry\<lparr>stored_at := 3\<rparr>)"
    "\<not> is_html (ent_header sample_entry)" "replayed sample_libs sample_proxy ?i sample_entry = ''body''"
    "forwards (sample_get ''Happ'')"
    by code_simp+
  have e: "is_order (env_header_order sample_env)" "env_now sample_env = 5"
    "gomap_ok (ent_header sample_entry)" "ent_status sample_entry = 200"
    "int (length (ent_body sample_entry)) \<le> max_shuffle_body"
    by (simp_all add: sample_env_def sample_entry_def gomap_ok_def max_shuffle_body_def)
  note replay = outage_replay [where l = sample_libs and p = sample_proxy and env = sample_env and h = True
      and r = "sample_get ''Happ''" and sc = filled_cache and i = ?i and e = "sample_entry\<lparr>stored_at := 3\<rparr>"]
  have "unreachable sample_libs sample_proxy (\<lambda>_. Inl Round_Trip_Failed) (sample_get ''Happ'') ?i"
    by (simp add: unreachable_def)
  with info i e replay [of "\<lambda>_. Inl Round_Trip_Failed"]
  have "\<exists>w. answered (serve_http sample_libs sample_proxy sample_env True (\<lambda>_. Inl Round_Trip_Failed)
      (Some filled_cache) (sample_get ''Happ'')) = Written w \<and> w_status w = [200] \<and> w_body w = ''body''"
    by (auto simp: replayed_def)
  moreover have "answers_error sample_libs sample_proxy (\<lambda>_. Inr (sample_response 502 ''down'')) (sample_get ''Happ'') ?i"
    "\<not> unreachable sample_libs sample_proxy (\<lambda>_. Inr (sample_response 502 ''down'')) (sample_get ''Happ'') ?i"
    using i(6) by (simp_all add: answers_error_def unreachable_def sample_response_def)
  with info i e replay [of "\<lambda>_. Inr (sample_response 502 ''down'')"]
  have "\<exists>w. answered (serve_http sample_libs sample_proxy sample_env True (\<lambda>_. Inr (sample_response 502 ''down''))
      (Some filled_cache) (sample_get ''Happ'')) = Written w \<and> w_status w = [200] \<and> w_body w = ''body''"
    by (auto simp: replayed_def replaced_def)
  ultimately show ?thesis by (rule conjI)
qed

text \<open>
  The two limits differ: past 8 MiB a body is shuffled when the page cannot be reached and not when
  it answers with an error.
\<close>

lemma large_replays_differ:
  assumes "max_shuffle_body < int (length (ent_body e))" "shuffles p i" "\<not> is_compressed (ent_header e)"
  shows "replayed l p i e = fst (shuffled l p (ent_body e))" "replaced l p i e = ent_body e"
  using assms by (simp_all add: replayed_def replaced_def)

end
