(* ===== verification/Env_Values.thy ===== *)
theory Env_Values
  imports Case_Facts Config_Types Go_Float
begin

text \<open>
  File \<open>internal/config/env.go\<close>: reading values from the environment.  Each reader yields its value and
  the problems it adds to the list that is reported at once; a problem is named by what is wrong
  and the variable it is wrong with.  \<open>strconv.ParseBool\<close> and \<open>time.ParseDuration\<close> are written out, the
  latter with its unsigned 64-bit sums and its float arithmetic for fractions.
\<close>

section \<open>Durations\<close>

text \<open>\<open>leadingInt\<close>: the value of the digits in front, \<open>None\<close> when it is over \<open>2 ^ 63\<close>.\<close>

fun leading_int :: "nat \<Rightarrow> string \<Rightarrow> (nat \<times> string) option" where
  "leading_int x [] = Some (x, [])"
| "leading_int x (c # s) =
    (if \<not> is_digit c then Some (x, c # s)
     else if x > 2 ^ 63 div 10 then None
     else (let y = x * 10 + (byte c - 48) in if y > 2 ^ 63 then None else leading_int y s))"

text \<open>\<open>leadingFraction\<close>: digits that no longer fit are skipped.\<close>

fun leading_fraction :: "nat \<Rightarrow> nat \<Rightarrow> bool \<Rightarrow> string \<Rightarrow> nat \<times> nat \<times> string" where
  "leading_fraction x sc over [] = (x, sc, [])"
| "leading_fraction x sc over (c # s) =
    (if \<not> is_digit c then (x, sc, c # s)
     else if over \<or> x > (2 ^ 63 - 1) div 10 then leading_fraction x sc True s
     else (let y = x * 10 + (byte c - 48)
           in if y > 2 ^ 63 then leading_fraction x sc True s else leading_fraction y (sc * 10) over s))"

definition micro_sign :: string where
  "micro_sign = [CHR 0xC2, CHR 0xB5]"

definition mu_sign :: string where
  "mu_sign = [CHR 0xCE, CHR 0xBC]"

definition duration_units :: "(string, nat) gomap" where
  "duration_units =
    [(''ns'', 1), (''us'', 1000), (micro_sign @ ''s'', 1000), (mu_sign @ ''s'', 1000),
     (''ms'', 1000000), (''s'', 1000000000), (''m'', 60000000000), (''h'', 3600000000000)]"

definition number_byte :: "char \<Rightarrow> bool" where
  "number_byte c \<longleftrightarrow> c = CHR ''.'' \<or> is_digit c"

text \<open>The number, its fraction and the unit of one round: \<open>(v, f, scale, unit, rest)\<close>.\<close>

definition duration_part :: "string \<Rightarrow> (nat \<times> nat \<times> nat \<times> nat \<times> string) option" where
  "duration_part s =
    (if s = [] \<or> \<not> number_byte (hd s) then None
     else
       (case leading_int 0 s of
          None \<Rightarrow> None
        | Some (v, s1) \<Rightarrow>
            (let pre = length s1 \<noteq> length s;
                 (f, sc, s2, post) =
                   (if s1 \<noteq> [] \<and> hd s1 = CHR ''.''
                    then (case leading_fraction 0 1 False (tl s1) of
                        (f, sc, s2) \<Rightarrow> (f, sc, s2, length s2 \<noteq> length (tl s1)))
                    else (0, 1, s1, False));
                 u = takeWhile (\<lambda>c. \<not> number_byte c) s2
             in if \<not> pre \<and> \<not> post then None
                else if u = [] then None
                else map_option (\<lambda>unit. (v, f, sc, unit, drop (length u) s2)) (map_of duration_units u))))"

text \<open>The nanoseconds of one round, \<open>None\<close> on overflow.\<close>

definition part_value :: "nat \<Rightarrow> nat \<Rightarrow> nat \<Rightarrow> nat \<Rightarrow> nat option" where
  "part_value v f sc unit =
    (if v > 2 ^ 63 div unit then None
     else if f = 0 then Some (v * unit)
     else
       (let x = f64_mult (f64_of_nat f) (f64_div (f64_of_nat unit) (f64_of_nat sc));
            n = v * unit + fst x div snd x
        in if n > 2 ^ 63 then None else Some n))"

definition duration_round :: "nat \<Rightarrow> string \<Rightarrow> (nat \<times> string) option" where
  "duration_round d s =
    (case duration_part s of
       None \<Rightarrow> None
     | Some (v, f, sc, unit, rest) \<Rightarrow>
         (case part_value v f sc unit of
            None \<Rightarrow> None
          | Some n \<Rightarrow>
              (let d = (d + n) mod 2 ^ 64 in if d > 2 ^ 63 then None else Some (d, rest))))"

lemma leading_int_shorter: "leading_int x s = Some (v, r) \<Longrightarrow> length r \<le> length s"
  by (induction x s rule: leading_int.induct) (auto simp: Let_def split: if_splits)

lemma leading_fraction_shorter: "leading_fraction x sc ov s = (f, sc', r) \<Longrightarrow> length r \<le> length s"
  by (induction x sc ov s rule: leading_fraction.induct) (fastforce simp: Let_def split: if_splits)+

lemma duration_part_shorter:
  assumes "duration_part s = Some (v, f, sc, unit, rest)" shows "length rest < length s"
proof -
  obtain w s1 where i: "leading_int 0 s = Some (w, s1)"
    using assms by (auto simp: duration_part_def split: if_splits option.splits)
  define s2 where "s2 = (if s1 \<noteq> [] \<and> hd s1 = CHR ''.'' then snd (snd (leading_fraction 0 1 False (tl s1))) else s1)"
  have "length s2 \<le> length s1"
    using leading_fraction_shorter [of 0 1 False "tl s1"] by (cases "leading_fraction 0 1 False (tl s1)")
      (fastforce simp: s2_def)
  then have "length s2 \<le> length s" using leading_int_shorter [OF i] by simp
  moreover have "takeWhile (\<lambda>c. \<not> number_byte c) s2 \<noteq> []"
    "rest = drop (length (takeWhile (\<lambda>c. \<not> number_byte c) s2)) s2"
    using assms by (auto simp: duration_part_def i s2_def Let_def split_beta split: if_splits)
  ultimately show ?thesis by (cases s2) auto
qed

lemma duration_round_shorter: "duration_round d s = Some (d', rest) \<Longrightarrow> length rest < length s"
  using duration_part_shorter by (auto simp: duration_round_def Let_def split: option.splits if_splits)

function duration_sum :: "nat \<Rightarrow> string \<Rightarrow> nat option" where
  "duration_sum d s =
    (if s = [] then Some d
     else (case duration_round d s of None \<Rightarrow> None | Some (d, rest) \<Rightarrow> duration_sum d rest))"
  by pat_completeness auto
termination
  by (relation "measure (length \<circ> snd)") (auto dest: duration_round_shorter)

declare duration_sum.simps [simp del]

definition parse_duration :: "string \<Rightarrow> duration option" where
  "parse_duration str =
    (let neg = (str \<noteq> [] \<and> hd str = CHR ''-'');
         s = (if str \<noteq> [] \<and> (hd str = CHR ''-'' \<or> hd str = CHR ''+'') then tl str else str)
     in if s = ''0'' then Some 0
        else if s = [] then None
        else
          (case duration_sum 0 s of
             None \<Rightarrow> None
           | Some d \<Rightarrow> if neg then Some (- int d)
               else if d > 2 ^ 63 - 1 then None else Some (int d)))"

section \<open>Sizes and truth values\<close>

definition parse_bool :: "string \<Rightarrow> bool option" where
  "parse_bool s =
    (if s \<in> set [''1'', ''t'', ''T'', ''TRUE'', ''true'', ''True''] then Some True
     else if s \<in> set [''0'', ''f'', ''F'', ''FALSE'', ''false'', ''False''] then Some False
     else None)"

definition size_units :: "(string \<times> int) list" where
  "size_units =
    [(''KIB'', 2 ^ 10), (''MIB'', 2 ^ 20), (''GIB'', 2 ^ 30),
     (''KB'', 1000), (''MB'', 1000 * 1000), (''GB'', 1000 * 1000 * 1000),
     (''K'', 2 ^ 10), (''M'', 2 ^ 20), (''G'', 2 ^ 30),
     (''B'', 1)]"

text \<open>The loop over the units: the first suffix that fits is taken off.\<close>

fun split_unit :: "(string \<times> int) list \<Rightarrow> string \<Rightarrow> string \<times> int" where
  "split_unit [] s = (s, 1)"
| "split_unit ((sfx, factor) # us) s =
    (case cut_suffix s sfx of
       Some rest \<Rightarrow> (trim_space rest, factor)
     | None \<Rightarrow> split_unit us s)"

definition parse_size :: "string \<Rightarrow> int option" where
  "parse_size raw =
    (let (s, factor) = split_unit size_units (to_upper (trim_space raw))
     in map_option (\<lambda>n. wrap64 (n * factor)) (parse_int s))"

section \<open>The readers\<close>

type_synonym environ = "string \<Rightarrow> string option"

datatype problem =
    Required string
  | Not_A_Duration string string
  | Not_An_Integer string string
  | Not_A_Bool string string
  | Not_A_Size string string
  | Negative_Value string string
  | Invalid_Url string
  | Wrong_Scheme string string
  | Missing_Host string string
  | Wrong_Choice string string
  | Out_Of_Range string

text \<open>\<open>orNil\<close>: no error when there is no problem; and how an error reads, given the texts of its problems.\<close>

definition or_nil :: "problem list \<Rightarrow> problem list option" where
  "or_nil problems = (if problems = [] then None else Some problems)"

definition error_text :: "(problem \<Rightarrow> string) \<Rightarrow> problem list \<Rightarrow> string" where
  "error_text describe problems =
    ''invalid configuration:'' @ CHR 0x0A # ''  - '' @ join (CHR 0x0A # ''  - '') (map describe problems)"

definition lookup_env :: "environ \<Rightarrow> string \<Rightarrow> string option" where
  "lookup_env env key =
    (case env key of
       None \<Rightarrow> None
     | Some raw \<Rightarrow> if trim_space raw = [] then None else Some (trim_space raw))"

definition env_string :: "environ \<Rightarrow> string \<Rightarrow> string \<Rightarrow> string" where
  "env_string env key def = (case lookup_env env key of Some raw \<Rightarrow> raw | None \<Rightarrow> def)"

definition required_string :: "environ \<Rightarrow> string \<Rightarrow> string \<times> problem list" where
  "required_string env key =
    (case lookup_env env key of Some raw \<Rightarrow> (raw, []) | None \<Rightarrow> ([], [Required key]))"

definition duration_val :: "environ \<Rightarrow> string \<Rightarrow> duration \<Rightarrow> duration \<times> problem list" where
  "duration_val env key def =
    (case lookup_env env key of
       None \<Rightarrow> (def, [])
     | Some raw \<Rightarrow>
         (case parse_int raw of
            Some secs \<Rightarrow>
              if secs < 0 then (def, [Negative_Value key raw]) else (wrap64 (secs * second), [])
          | None \<Rightarrow>
              (case parse_duration raw of
                 None \<Rightarrow> (def, [Not_A_Duration key raw])
               | Some d \<Rightarrow> if d < 0 then (def, [Negative_Value key raw]) else (d, []))))"

definition int_val :: "environ \<Rightarrow> string \<Rightarrow> int \<Rightarrow> int \<times> problem list" where
  "int_val env key def =
    (case lookup_env env key of
       None \<Rightarrow> (def, [])
     | Some raw \<Rightarrow> (case parse_int raw of Some n \<Rightarrow> (n, []) | None \<Rightarrow> (def, [Not_An_Integer key raw])))"

definition bool_val :: "environ \<Rightarrow> string \<Rightarrow> bool \<Rightarrow> bool \<times> problem list" where
  "bool_val env key def =
    (case lookup_env env key of
       None \<Rightarrow> (def, [])
     | Some raw \<Rightarrow> (case parse_bool raw of Some b \<Rightarrow> (b, []) | None \<Rightarrow> (def, [Not_A_Bool key raw])))"

definition size_val :: "environ \<Rightarrow> string \<Rightarrow> int \<Rightarrow> int \<times> problem list" where
  "size_val env key def =
    (case lookup_env env key of
       None \<Rightarrow> (def, [])
     | Some raw \<Rightarrow>
         (case parse_size raw of
            None \<Rightarrow> (def, [Not_A_Size key raw])
          | Some n \<Rightarrow> if n < 0 then (def, [Negative_Value key raw]) else (n, [])))"

section \<open>Sizes read back\<close>

lemma has_suffix_prefix: "has_suffix s p \<longleftrightarrow> prefix (rev p) (rev s)"
proof
  assume "has_suffix s p"
  then have "s = take (length s - length p) s @ p" by (metis append_take_drop_id has_suffix_def)
  then show "prefix (rev p) (rev s)" by (metis prefixI rev_append)
next
  assume "prefix (rev p) (rev s)"
  then obtain r where "rev s = rev p @ r" by (auto simp: prefix_def)
  then have "s = rev r @ p" by (metis rev_append rev_rev_ident)
  then show "has_suffix s p" by (simp add: has_suffix_def)
qed

lemma cut_suffix_append [simp]: "cut_suffix (a @ b) b = Some a"
  by (simp add: cut_suffix_def has_suffix_def)

lemma digit_byte: "is_digit c \<Longrightarrow> 48 \<le> byte c \<and> byte c \<le> 57"
  by (simp add: is_digit_def)

lemma digit_no_letter: "is_digit d \<Longrightarrow> d \<notin> set ''KIMGB''"
  by (auto dest: digit_byte simp: byte_def)

lemma list_member_elims:
  assumes "x \<in> set (y # ys)" obtains "x = y" | "x \<in> set ys"
  using assms by auto

lemma split_unit_digits:
  assumes "is_digit d" "(u, m) \<in> set size_units"
  shows "split_unit size_units ((ds @ [d]) @ u) = (trim_space (ds @ [d]), m)"
proof -
  have k: "d \<noteq> CHR ''K''" "d \<noteq> CHR ''M''" "d \<noteq> CHR ''G''" "d \<noteq> CHR ''I''" "d \<noteq> CHR ''B''"
    using digit_no_letter [OF assms(1)] by auto
  have "split_unit size_units ((ds @ [d]) @ ''KIB'') = (trim_space (ds @ [d]), 2 ^ 10)"
    "split_unit size_units ((ds @ [d]) @ ''MIB'') = (trim_space (ds @ [d]), 2 ^ 20)"
    "split_unit size_units ((ds @ [d]) @ ''GIB'') = (trim_space (ds @ [d]), 2 ^ 30)"
    "split_unit size_units ((ds @ [d]) @ ''KB'') = (trim_space (ds @ [d]), 1000)"
    "split_unit size_units ((ds @ [d]) @ ''MB'') = (trim_space (ds @ [d]), 1000 * 1000)"
    "split_unit size_units ((ds @ [d]) @ ''GB'') = (trim_space (ds @ [d]), 1000 * 1000 * 1000)"
    "split_unit size_units ((ds @ [d]) @ ''K'') = (trim_space (ds @ [d]), 2 ^ 10)"
    "split_unit size_units ((ds @ [d]) @ ''M'') = (trim_space (ds @ [d]), 2 ^ 20)"
    "split_unit size_units ((ds @ [d]) @ ''G'') = (trim_space (ds @ [d]), 2 ^ 30)"
    "split_unit size_units ((ds @ [d]) @ ''B'') = (trim_space (ds @ [d]), 1)"
    by (simp_all add: size_units_def cut_suffix_def has_suffix_prefix k k [symmetric])
  with assms(2) show ?thesis unfolding size_units_def by (elim list_member_elims) simp_all
qed

lemma ascii_upper_word:
  "ascii_upper c = u \<Longrightarrow> is_upper u \<Longrightarrow> 33 \<le> byte c \<and> byte c < 128"
  by (auto simp: ascii_upper_def is_upper_def is_lower_def split: if_splits)

lemma size_unit_upper: "(u, m) \<in> set size_units \<Longrightarrow> \<forall>c \<in> set u. is_upper c"
proof -
  have "list_all (\<lambda>(u, m). \<forall>c \<in> set u. is_upper c) size_units" by code_simp
  then show "(u, m) \<in> set size_units \<Longrightarrow> ?thesis" by (auto simp: list_all_iff)
qed

lemma digits_graphic: "\<forall>c \<in> set ds. is_digit c \<Longrightarrow> c \<in> set ds \<Longrightarrow> 33 \<le> byte c \<and> byte c < 128"
  using digit_byte [of c] by fastforce

lemma upper_digits: "\<forall>c \<in> set ds. is_digit c \<Longrightarrow> map ascii_upper ds = ds"
  by (induction ds) (auto simp: ascii_upper_def is_lower_def dest: digit_byte)

lemma parse_int_nat_digits: "int n \<le> int64_max \<Longrightarrow> parse_int (nat_digits n) = Some (int n)"
  using parse_format_int [of "int n"] by (simp add: format_int_def in_int64_def int64_min_def)

lemma parse_size_unit:
  assumes "(u, m) \<in> set size_units" "map ascii_upper w = u" "int n \<le> int64_max"
  shows "parse_size (nat_digits n @ w) = Some (wrap64 (int n * m))"
proof -
  have d: "\<forall>c \<in> set (nat_digits n). is_digit c" using nat_digits_digit by blast
  have w: "33 \<le> byte c \<and> byte c < 128" if "c \<in> set w" for c
    using that size_unit_upper [OF assms(1)] ascii_upper_word [of c "ascii_upper c"] assms(2) by auto
  have g: "33 \<le> byte c \<and> byte c < 128" if "c \<in> set (nat_digits n @ w)" for c
    using that w digits_graphic [OF d] by auto
  then have "is_ascii (nat_digits n @ w)" by (auto simp: is_ascii_def)
  moreover have "trim_space (nat_digits n @ w) = nat_digits n @ w" using g by (rule trim_space_graphic)
  ultimately have "to_upper (trim_space (nat_digits n @ w)) = nat_digits n @ u"
    using assms(2) by (simp add: to_upper_ascii upper_digits [OF d])
  moreover have "nat_digits n = butlast (nat_digits n) @ [last (nat_digits n)]" by simp
  moreover have "is_digit (last (nat_digits n))" using d by simp
  moreover have "trim_space (nat_digits n) = nat_digits n"
    using digits_graphic [OF d] by (intro trim_space_graphic) blast
  ultimately have "split_unit size_units (to_upper (trim_space (nat_digits n @ w))) = (nat_digits n, m)"
    using split_unit_digits [OF _ assms(1)] by metis
  then show ?thesis using assms(3) by (simp add: parse_size_def parse_int_nat_digits)
qed

text \<open>A size reads as its number times its unit, the unit in any letter case, as long as the product
  fits an int64; and whatever is read is an int64.\<close>

theorem parse_size_correct:
  "(\<forall>(u, m) \<in> set size_units. \<forall>n w. map ascii_upper w = u \<and> int n * m \<le> int64_max \<longrightarrow>
      parse_size (nat_digits n @ w) = Some (int n * m))
   \<and> (\<forall>s v. parse_size s = Some v \<longrightarrow> in_int64 v)"
proof (intro conjI ballI allI impI)
  fix um n w assume um: "um \<in> set size_units"
  obtain u m where [simp]: "um = (u, m)" by fastforce
  have "list_all (\<lambda>(u, m). 1 \<le> m) size_units" by code_simp
  with um have m: "1 \<le> m" by (auto simp: list_all_iff)
  show "case um of (u, m) \<Rightarrow> \<forall>n w. map ascii_upper w = u \<and> int n * m \<le> int64_max \<longrightarrow>
      parse_size (nat_digits n @ w) = Some (int n * m)"
  proof (simp, intro allI impI, elim conjE)
    fix n :: nat and w assume *: "map ascii_upper w = u" "int n * m \<le> int64_max"
    have "int n * 1 \<le> int n * m" using m by (intro mult_left_mono) auto
    with *(2) have "int n \<le> int64_max" by simp
    moreover have "0 \<le> int n * m" using m by simp
    ultimately show "parse_size (nat_digits n @ w) = Some (int n * m)"
      using parse_size_unit [of u m w n] um * by (simp add: wrap64_id in_int64_def int64_min_def)
  qed
next
  fix s v assume "parse_size s = Some v"
  then show "in_int64 v" by (auto simp: parse_size_def wrap64_in_int64 split: prod.splits)
qed

theorem parse_size_correct_witness:
  "parse_size ''64MiB'' = Some 67108864"
proof -
  have "map ascii_upper ''MiB'' = ''MIB''" "nat_digits 64 = ''64''" by code_simp+
  moreover have "(''MIB'', 2 ^ 20) \<in> set size_units" by (simp add: size_units_def)
  ultimately have "parse_size (nat_digits 64 @ ''MiB'') = Some (int 64 * 2 ^ 20)"
    using conjunct1 [OF parse_size_correct, THEN bspec, of "(''MIB'', 2 ^ 20)", unfolded prod.case,
        THEN spec, THEN spec, of "''MiB''" 64] by (simp add: int64_max_def)
  then show ?thesis using \<open>nat_digits 64 = ''64''\<close> by simp
qed

text \<open>Beyond the range the product wraps around: a number of eighteen quadrillions reads as one.\<close>

lemma parse_size_wraps: "parse_size ''18014398509481985K'' = Some 1024"
  by code_simp

section \<open>Durations read back\<close>

lemma fold_digits_mono: "x \<le> fold (\<lambda>c n. n * 10 + (byte c - 48)) ds (x :: nat)"
proof (induction ds arbitrary: x)
  case (Cons c ds)
  have "x \<le> x * 10 + (byte c - 48)" by simp
  also have "\<dots> \<le> fold (\<lambda>c n. n * 10 + (byte c - 48)) ds (x * 10 + (byte c - 48))" by (rule Cons.IH)
  finally show ?case by simp
qed simp

lemma leading_int_digits:
  assumes "\<forall>c \<in> set ds. is_digit c" "r = [] \<or> \<not> is_digit (hd r)"
    and "fold (\<lambda>c n. n * 10 + (byte c - 48)) ds x \<le> 2 ^ 63"
  shows "leading_int x (ds @ r) = Some (fold (\<lambda>c n. n * 10 + (byte c - 48)) ds x, r)"
  using assms
proof (induction ds arbitrary: x)
  case Nil
  then show ?case by (cases r) auto
next
  case (Cons c ds)
  let ?y = "x * 10 + (byte c - 48)"
  from Cons.prems(3) have "?y \<le> 2 ^ 63" using fold_digits_mono [of ?y ds] by simp
  then have "x \<le> 2 ^ 63 div 10" by simp
  with Cons \<open>?y \<le> 2 ^ 63\<close> show ?case by (simp add: Let_def)
qed

lemma duration_units_facts:
  assumes "(u, m) \<in> set duration_units"
  shows "u \<noteq> []" "\<forall>c \<in> set u. \<not> number_byte c" "0 < m" "map_of duration_units u = Some m"
proof -
  have "list_all (\<lambda>(u, m). u \<noteq> [] \<and> (\<forall>c \<in> set u. \<not> number_byte c) \<and> 0 < m
      \<and> map_of duration_units u = Some m) duration_units"
    by code_simp
  with assms show "u \<noteq> []" "\<forall>c \<in> set u. \<not> number_byte c" "0 < m" "map_of duration_units u = Some m"
    by (auto simp: list_all_iff)
qed

text \<open>The text of a duration given as numbers with their units.\<close>

definition duration_text :: "(nat \<times> string) list \<Rightarrow> string" where
  "duration_text ps = concat (map (\<lambda>(n, u). nat_digits n @ u) ps)"

definition duration_total :: "(nat \<times> string) list \<Rightarrow> nat" where
  "duration_total ps = sum_list (map (\<lambda>(n, u). n * the (map_of duration_units u)) ps)"

lemma duration_text_start: "duration_text ps = [] \<or> is_digit (hd (duration_text ps))"
proof (cases ps)
  case (Cons p ps')
  have "is_digit (hd (nat_digits n))" for n using nat_digits_digit hd_in_set nat_digits_nonempty by blast
  with Cons show ?thesis by (cases p) (simp add: duration_text_def)
qed (simp add: duration_text_def)

lemma duration_round_text:
  assumes "(u, m) \<in> set duration_units" "rest = [] \<or> is_digit (hd rest)" "d + n * m \<le> 2 ^ 63"
  shows "duration_round d (nat_digits n @ u @ rest) = Some (d + n * m, rest)"
proof -
  note u = duration_units_facts [OF assms(1)]
  have "n \<le> n * m" using u(3) by simp
  then have "n \<le> 2 ^ 63" using assms(3) by linarith
  then have n: "n \<le> 2 ^ 63" "n \<le> 2 ^ 63 div m"
    using assms(3) u(3) by (auto simp: less_eq_div_iff_mult_less_eq)
  have u0: "number_byte (hd u) = False" using u(1,2) by (cases u) auto
  have "leading_int 0 (nat_digits n @ u @ rest) = Some (n, u @ rest)"
    using leading_int_digits [of "nat_digits n" "u @ rest" 0] nat_digits_digit u(1) u0 n(1)
    by (auto simp: number_byte_def simp flip: digits_value_def)
  moreover have "takeWhile (\<lambda>c. \<not> number_byte c) (u @ rest) = u"
    using u(2) assms(2) by (cases rest) (auto simp: number_byte_def takeWhile_append)
  moreover have "number_byte (hd (nat_digits n @ u @ rest))"
    using nat_digits_digit [of "hd (nat_digits n)" n] by (simp add: number_byte_def hd_append)
  moreover have "hd (u @ rest) \<noteq> CHR ''.''" using u(1) u0 by (auto simp: number_byte_def)
  ultimately have "duration_part (nat_digits n @ u @ rest) = Some (n, 0, 1, m, rest)"
    using u(1,4) by (simp add: duration_part_def)
  then show ?thesis using n(2) assms(3) by (simp add: duration_round_def part_value_def)
qed

lemma duration_sum_text:
  assumes "\<forall>(n, u) \<in> set ps. u \<in> fst ` set duration_units" "d + duration_total ps \<le> 2 ^ 63"
  shows "duration_sum d (duration_text ps) = Some (d + duration_total ps)"
  using assms
proof (induction ps arbitrary: d)
  case Nil
  then show ?case by (simp add: duration_sum.simps duration_text_def duration_total_def)
next
  case (Cons p ps)
  obtain n u where p: "p = (n, u)" by fastforce
  with Cons.prems(1) obtain m where m: "(u, m) \<in> set duration_units" by auto
  then have um: "map_of duration_units u = Some m" by (rule duration_units_facts(4))
  have total: "duration_total (p # ps) = n * m + duration_total ps"
    by (simp add: duration_total_def p um)
  have shown: "duration_text (p # ps) = nat_digits n @ u @ duration_text ps" by (simp add: duration_text_def p)
  have "d + n * m \<le> 2 ^ 63" using Cons.prems(2) total by simp
  from duration_round_text [OF m duration_text_start this] Cons total show ?case
    by (subst duration_sum.simps) (simp add: shown add.assoc)
qed

text \<open>A duration written as numbers with units reads as the sum of its parts, to the nanosecond, when
  that fits; and no reading lies outside an int64.\<close>

lemma parse_duration_text:
  "(ps \<noteq> [] \<and> (\<forall>(n, u) \<in> set ps. u \<in> fst ` set duration_units)
      \<and> int (duration_total ps) \<le> int64_max \<longrightarrow>
      parse_duration (duration_text ps) = Some (int (duration_total ps)))
   \<and> (\<forall>s d. parse_duration s = Some d \<longrightarrow> in_int64 d)"
proof (intro conjI impI allI)
  assume *: "ps \<noteq> [] \<and> (\<forall>(n, u) \<in> set ps. u \<in> fst ` set duration_units)
      \<and> int (duration_total ps) \<le> int64_max"
  then have total: "duration_total ps \<le> 2 ^ 63 - 1" by (simp add: int64_max_def)
  obtain n u ps' where ps: "ps = (n, u) # ps'" using * by (cases ps) auto
  with * obtain m where m: "(u, m) \<in> set duration_units" by auto
  have shown: "duration_text ps = nat_digits n @ u @ duration_text ps'" by (simp add: duration_text_def ps)
  have hd: "hd (duration_text ps) \<noteq> CHR ''-''" "hd (duration_text ps) \<noteq> CHR ''+''"
    using nat_digits_no_sign [of n] by (simp_all add: shown)
  have "length (nat_digits n) > 0" "length u > 0" using duration_units_facts(1) [OF m] by auto
  then have "length (duration_text ps) > 1" using shown by (cases "nat_digits n") auto
  then have "duration_text ps \<noteq> ''0''" "duration_text ps \<noteq> []" by auto
  with hd show "parse_duration (duration_text ps) = Some (int (duration_total ps))"
    using duration_sum_text [of ps 0] * total by (simp add: parse_duration_def)
next
  fix s d assume d: "parse_duration s = Some d"
  have "n \<le> 2 ^ 63" if "duration_sum k t = Some n" "k \<le> 2 ^ 63" for k t n
    using that
  proof (induction k t rule: duration_sum.induct)
    case (1 k t)
    show ?case
    proof (cases "t = []")
      case True
      with 1 show ?thesis by (simp add: duration_sum.simps)
    next
      case False
      with "1.prems"(1) obtain k' rest where r: "duration_round k t = Some (k', rest)"
        "duration_sum k' rest = Some n"
        by (auto simp: duration_sum.simps [of k t] split: option.splits)
      then have "k' \<le> 2 ^ 63" by (auto simp: duration_round_def Let_def split: option.splits if_splits)
      with "1.IH" [OF False r(1) refl] r(2) show ?thesis by simp
    qed
  qed
  from this [of 0] d show "in_int64 d"
    by (auto simp: parse_duration_def Let_def in_int64_def int64_min_def int64_max_def
        split: if_splits option.splits)
qed

lemma duration_text_no_int:
  assumes "ps \<noteq> []" "\<forall>(n, u) \<in> set ps. u \<in> fst ` set duration_units"
  shows "parse_int (duration_text ps) = None"
proof -
  obtain n u ps' where ps: "ps = (n, u) # ps'" using assms(1) by (cases ps) auto
  with assms(2) obtain m where "(u, m) \<in> set duration_units" by auto
  note u = duration_units_facts(1,2) [OF this]
  have shown: "duration_text ps = nat_digits n @ u @ duration_text ps'" by (simp add: duration_text_def ps)
  from u have "hd u \<in> set (duration_text ps) \<and> \<not> is_digit (hd u)" by (simp add: shown number_byte_def)
  then have "parse_digits (duration_text ps) = None" by (auto simp: parse_digits_def)
  moreover obtain c r where cr: "nat_digits n = c # r" by (cases "nat_digits n") auto
  moreover have "c \<noteq> CHR ''-''" "c \<noteq> CHR ''+''" using nat_digits_no_sign [of n] cr by simp_all
  ultimately show ?thesis by (simp add: parse_int_def shown)
qed

text \<open>A duration variable is read as documented: a bare number counts seconds, numbers with units add
  up, exactly when the sum fits an int64; a variable that is refused keeps its default, and apart
  from bare seconds, whose product can wrap around, no value read is negative.\<close>

theorem duration_val_correct:
  assumes "lookup_env env key = Some raw"
  shows "(raw = nat_digits n \<and> int n * second \<le> int64_max \<longrightarrow>
      duration_val env key def = (int n * second, []))
    \<and> (ps \<noteq> [] \<and> raw = duration_text ps \<and> (\<forall>(n, u) \<in> set ps. u \<in> fst ` set duration_units)
        \<and> int (duration_total ps) \<le> int64_max \<longrightarrow>
      duration_val env key def = (int (duration_total ps), []))
    \<and> (snd (duration_val env key def) \<noteq> [] \<longrightarrow> fst (duration_val env key def) = def)
    \<and> (snd (duration_val env key def) = [] \<longrightarrow> in_int64 (fst (duration_val env key def))
        \<and> (parse_int raw = None \<longrightarrow> 0 \<le> fst (duration_val env key def)))"
proof (intro conjI impI, goal_cases)
  case 1
  then have "int n \<le> int64_max" by (simp add: second_def)
  then show ?case
    using assms 1 by (simp add: duration_val_def parse_int_nat_digits wrap64_id in_int64_def
        int64_min_def second_def)
next
  case 2
  then show ?case
    using assms duration_text_no_int [of ps] parse_duration_text [of ps] by (simp add: duration_val_def)
qed (use assms parse_duration_text in \<open>auto simp: duration_val_def wrap64_in_int64 split: option.splits if_splits\<close>)

theorem duration_val_correct_witness:
  "duration_val (\<lambda>_. Some ''1h30m'') ''CACHE_TTL'' 0 = (5400000000000, [])
    \<and> duration_val (\<lambda>_. Some ''45'') ''CACHE_TTL'' 0 = (45000000000, [])
    \<and> fst (duration_val (\<lambda>_. Some ''soon'') ''CACHE_TTL'' 7) = 7"
proof -
  have looked: "lookup_env (\<lambda>_. Some ''1h30m'') ''CACHE_TTL'' = Some ''1h30m''"
    "lookup_env (\<lambda>_. Some ''45'') ''CACHE_TTL'' = Some ''45''"
    "lookup_env (\<lambda>_. Some ''soon'') ''CACHE_TTL'' = Some ''soon''"
    "snd (duration_val (\<lambda>_. Some ''soon'') ''CACHE_TTL'' 7) \<noteq> []" by code_simp+
  have shown: "duration_text [(1, ''h''), (30, ''m'')] = ''1h30m''" "nat_digits 45 = ''45''"
    "duration_total [(1, ''h''), (30, ''m'')] = 5400000000000"
    "list_all (\<lambda>(n, u). u \<in> fst ` set duration_units) [(1 :: nat, ''h''), (30, ''m'')]"
    by code_simp+
  have "duration_val (\<lambda>_. Some ''1h30m'') ''CACHE_TTL'' 0 = (5400000000000, [])"
    using duration_val_correct [OF looked(1), of 0 _ "[(1, ''h''), (30, ''m'')]"] shown
    by (simp add: int64_max_def)
  moreover have "duration_val (\<lambda>_. Some ''45'') ''CACHE_TTL'' 0 = (45000000000, [])"
    using duration_val_correct [OF looked(2), of 45 0 "[]"] shown(2) by (simp add: int64_max_def second_def)
  moreover have "fst (duration_val (\<lambda>_. Some ''soon'') ''CACHE_TTL'' 7) = 7"
    using duration_val_correct [OF looked(3), of 0 7 "[]"] looked(4) by blast
  ultimately show ?thesis by blast
qed

end
