(* ===== verification/Config_File.thy ===== *)
theory Config_File
  imports Patterns
begin

text \<open>
  File \<open>internal/config/file.go\<close>: decoding the enumerations of the YAML file, loading the file and
  checking it.  The file system, the YAML decoder, the compiler of patterns and the table of time
  zones are parameters.  The decoder works on the record it is given, as \<open>yaml.Decode\<close> does, so keys
  that are left out keep their defaults.  A key that is absent and one that says the default are
  told apart only where the code depends on it; for \<open>encode\<close> and \<open>template.unknown\<close> it does not.
\<close>

section \<open>Enumerations\<close>

text \<open>\<open>decodeEnum\<close>: a blank text is the first name, any other must be one of them; the error is the text.\<close>

definition decode_enum :: "string list \<Rightarrow> string \<Rightarrow> string + string" where
  "decode_enum allowed raw =
    (let v = to_lower (trim_space raw)
     in if v = [] then Inr (hd allowed) else if v \<in> set allowed then Inr v else Inl raw)"

definition encoding_names :: "(string \<times> encoding_mode) list" where
  "encoding_names =
    [(''auto'', Encode_Auto), (''none'', Encode_None), (''base64'', Encode_Base64),
     (''base64-prefixed'', Encode_Base64_Prefixed)]"

definition unknown_names :: "(string \<times> unknown_policy) list" where
  "unknown_names = [(''keep'', Unknown_Keep), (''blank'', Unknown_Blank)]"

definition action_names :: "(string \<times> user_agent_action) list" where
  "action_names = [(''notice'', Agent_Notice), (''block'', Agent_Block)]"

definition unmarshal_enum :: "(string \<times> 'a) list \<Rightarrow> string \<Rightarrow> string + 'a" where
  "unmarshal_enum table raw =
    (case decode_enum (map fst table) raw of Inl e \<Rightarrow> Inl e | Inr v \<Rightarrow> Inr (the (map_of table v)))"

section \<open>Unknown keys\<close>

datatype yaml_error = Type_Errors "string list" | Yaml_Failure string

definition unknown_suffix :: string where
  "unknown_suffix = '' not found in type config.File''"

text \<open>The regular expression \<open>^line \d+: field .+ not found in type config\.File$\<close>; a dot is any rune but
  the line feed.\<close>

definition unknown_section :: "string \<Rightarrow> bool" where
  "unknown_section e =
    (case cut_prefix e ''line '' of
       None \<Rightarrow> False
     | Some r \<Rightarrow>
         (let ds = takeWhile is_digit r in
          ds \<noteq> [] \<and>
          (case cut_prefix (drop (length ds) r) '': field '' of
             None \<Rightarrow> False
           | Some t \<Rightarrow>
               (case cut_suffix t unknown_suffix of
                  None \<Rightarrow> False
                | Some field \<Rightarrow> field \<noteq> [] \<and> CHR 0x0A \<notin> set field))))"

definition split_unknown_fields :: "yaml_error \<Rightarrow> string list \<times> yaml_error option" where
  "split_unknown_fields err =
    (case err of
       Yaml_Failure _ \<Rightarrow> ([], Some err)
     | Type_Errors es \<Rightarrow>
         (let skipped = filter unknown_section es; fatal = filter (\<lambda>e. \<not> unknown_section e) es
          in (skipped, if fatal = [] then None else Some (Type_Errors fatal))))"

section \<open>Checking\<close>

datatype file_problem =
    Bad_Decimals int
  | Few_Units nat
  | Bad_Timezone string
  | Bad_Width int
  | Bad_Pattern string
  | Bad_Var_Name string
  | Nameless_Rule nat
  | Unreachable_Rule nat string nat
  | Remove_And_Template nat string
  | Negative_Max_Length nat string
  | Bad_Rule_Agent nat string string

definition or_default :: "string \<Rightarrow> string \<Rightarrow> string" where
  "or_default def s = (if s = [] then def else s)"

definition valid_var_name :: "string \<Rightarrow> bool" where
  "valid_var_name name \<longleftrightarrow>
    name \<noteq> [] \<and> list_all (\<lambda>c. is_upper c \<or> is_digit c \<or> c = CHR ''_'') name"

text \<open>One round of the loop over the rules: problems, the shadowed names and the rule as it is kept.\<close>

definition check_rule ::
    "compiler \<Rightarrow> nat \<Rightarrow> (string, nat) gomap \<Rightarrow> header_rule
      \<Rightarrow> file_problem list \<times> (string, nat) gomap \<times> header_rule" where
  "check_rule cc i shadowed r0 =
    (let name = trim_space (rule_name r0); r = r0\<lparr>rule_name := name\<rparr>; key = to_lower name in
     if name = [] then ([Nameless_Rule i], shadowed, r)
     else
       (let (unreachable, shadowed) = (case map_of shadowed key of
              Some prev \<Rightarrow> ([Unreachable_Rule i name prev], shadowed)
            | None \<Rightarrow> ([], if condition_empty (rule_when r) then AList.update key i shadowed else shadowed));
            both = (if rule_remove r \<and> rule_template r \<noteq> None then [Remove_And_Template i name] else []);
            negative = (if rule_max_length r < 0 then [Negative_Max_Length i name] else []);
            c = rule_when r;
            (agent, re) = (if trim_space (cond_user_agent c) = [] then ([], user_agent_re c)
              else (case compile_pattern cc (cond_user_agent c) of
                  Inl e \<Rightarrow> ([Bad_Rule_Agent i name e], None)
                | Inr re \<Rightarrow> ([], Some re)));
            c = c\<lparr>user_agent_re := re, user_statuses := map (to_upper \<circ> trim_space) (user_statuses c),
                  client_types := map (to_lower \<circ> trim_space) (client_types c)\<rparr>
        in (unreachable @ both @ negative @ agent, shadowed, r\<lparr>rule_when := c\<rparr>)))"

fun check_rules ::
    "compiler \<Rightarrow> nat \<Rightarrow> (string, nat) gomap \<Rightarrow> header_rule list \<Rightarrow> file_problem list \<times> header_rule list" where
  "check_rules cc i shadowed [] = ([], [])"
| "check_rules cc i shadowed (r # rs) =
    (case check_rule cc i shadowed r of
       (ps, shadowed, r) \<Rightarrow>
         (case check_rules cc (Suc i) shadowed rs of (qs, rs) \<Rightarrow> (ps @ qs, r # rs)))"

definition validate ::
    "compiler \<Rightarrow> (string \<Rightarrow> string option) \<Rightarrow> (string, string) iter_order \<Rightarrow> config_file
      \<Rightarrow> file_problem list \<times> config_file" where
  "validate cc load_zone ord f =
    (let t = traffic_opt f; d = datetime_opt f; b = bar_opt f;
         t = t\<lparr>unlimited := or_default infinity_sign (unlimited t)\<rparr>;
         n = length (units t);
         zone = or_default ''UTC'' (timezone d);
         d = d\<lparr>layout := or_default ''02.01.2006'' (layout d), time_layout := or_default ''15:04'' (time_layout d),
               timezone := zone, never := or_default infinity_sign (never d),
               location := Some (case load_zone zone of Some z \<Rightarrow> z | None \<Rightarrow> ''UTC'')\<rparr>;
         b = b\<lparr>bar_filled := or_default bar_full_sign (bar_filled b),
               bar_empty := or_default bar_empty_sign (bar_empty b)\<rparr>;
         (rule_problems, rules) = check_rules cc 0 [] (headers_opt f);
         problems =
           (if decimals t < 0 \<or> decimals t > 6 then [Bad_Decimals (decimals t)] else [])
           @ (if n \<noteq> 0 \<and> n < 5 then [Few_Units n] else [])
           @ (if load_zone zone = None then [Bad_Timezone zone] else [])
           @ (if bar_width b < 0 \<or> bar_width b > 100 then [Bad_Width (bar_width b)] else [])
           @ map Bad_Pattern (problem_list (compile_block cc (block_opt f))
               @ problem_list (compile_hosts cc (hosts_opt f))
               @ problem_list (compile_user_agents cc (user_agents_opt f)))
           @ map Bad_Var_Name (filter (\<lambda>name. \<not> valid_var_name name) (map_keys (ord (vars_opt f))))
           @ rule_problems
     in (problems, f\<lparr>traffic_opt := t, datetime_opt := d, bar_opt := b, headers_opt := rules\<rparr>))"

section \<open>Loading\<close>

datatype read_result = File_Text string | File_Missing | File_Unreadable

type_synonym decoder = "string \<Rightarrow> config_file \<Rightarrow> config_file \<times> yaml_error option"

datatype load_error = Cannot_Read | Cannot_Parse yaml_error | Invalid_File "string list" "file_problem list"

definition decode_file ::
    "decoder \<Rightarrow> string \<Rightarrow> load_error + (config_file \<times> string list)" where
  "decode_file dec raw =
    (case dec raw default_file of
       (f, None) \<Rightarrow> Inr (f, [])
     | (f, Some err) \<Rightarrow>
         if err = Yaml_Failure ''EOF'' then Inr (f, [])
         else (case split_unknown_fields err of
             (skipped, None) \<Rightarrow> Inr (f, skipped)
           | (_, Some fatal) \<Rightarrow> Inl (Cannot_Parse fatal)))"

definition load_file ::
    "compiler \<Rightarrow> (string \<Rightarrow> string option) \<Rightarrow> (string, string) iter_order \<Rightarrow> decoder \<Rightarrow> read_result \<Rightarrow> bool
      \<Rightarrow> load_error + (config_file \<times> string list)" where
  "load_file cc load_zone ord dec read explicit =
    (case read of
       File_Missing \<Rightarrow> if explicit then Inl Cannot_Read else Inr (default_file, [])
     | File_Unreadable \<Rightarrow> Inl Cannot_Read
     | File_Text raw \<Rightarrow>
         (case decode_file dec raw of
            Inl e \<Rightarrow> Inl e
          | Inr (f, skipped) \<Rightarrow>
              (case validate cc load_zone ord f of
                 (problems, f) \<Rightarrow>
                   if problems \<noteq> [] then Inl (Invalid_File skipped problems) else Inr (f, skipped))))"

section \<open>What a file that is accepted satisfies\<close>

definition rule_ok :: "compiler \<Rightarrow> header_rule \<Rightarrow> bool" where
  "rule_ok cc r \<longleftrightarrow>
    rule_name r \<noteq> [] \<and> trim_space (rule_name r) = rule_name r
    \<and> \<not> (rule_remove r \<and> rule_template r \<noteq> None) \<and> 0 \<le> rule_max_length r
    \<and> (trim_space (cond_user_agent (rule_when r)) \<noteq> [] \<longrightarrow>
         (\<exists>re. user_agent_re (rule_when r) = Some re
            \<and> compile_pattern cc (cond_user_agent (rule_when r)) = Inr re))"

text \<open>No rule follows one for the same header that always applies.\<close>

definition reachable_rules :: "header_rule list \<Rightarrow> bool" where
  "reachable_rules rs \<longleftrightarrow>
    sorted_wrt (\<lambda>r r'. condition_empty (rule_when r) \<longrightarrow> to_lower (rule_name r) \<noteq> to_lower (rule_name r')) rs"

definition valid_file :: "compiler \<Rightarrow> config_file \<Rightarrow> bool" where
  "valid_file cc f \<longleftrightarrow>
    (0 \<le> decimals (traffic_opt f) \<and> decimals (traffic_opt f) \<le> 6)
    \<and> (units (traffic_opt f) = [] \<or> 5 \<le> length (units (traffic_opt f))) \<and> unlimited (traffic_opt f) \<noteq> []
    \<and> layout (datetime_opt f) \<noteq> [] \<and> time_layout (datetime_opt f) \<noteq> [] \<and> never (datetime_opt f) \<noteq> []
    \<and> location (datetime_opt f) \<noteq> None
    \<and> (0 \<le> bar_width (bar_opt f) \<and> bar_width (bar_opt f) \<le> 100)
    \<and> bar_filled (bar_opt f) \<noteq> [] \<and> bar_empty (bar_opt f) \<noteq> []
    \<and> (\<exists>res. compile_block cc (block_opt f) = Inr res) \<and> (\<exists>res. compile_hosts cc (hosts_opt f) = Inr res)
    \<and> (\<exists>agents. compile_user_agents cc (user_agents_opt f) = Inr agents)
    \<and> (\<forall>name \<in> set (map_keys (vars_opt f)). valid_var_name name)
    \<and> (\<forall>r \<in> set (headers_opt f). rule_ok cc r) \<and> reachable_rules (headers_opt f)"

lemma or_default_nonempty: "def \<noteq> [] \<Longrightarrow> or_default def s \<noteq> []"
  by (simp add: or_default_def)

lemma problem_list_Nil: "problem_list r = [] \<longleftrightarrow> (\<exists>v. r = Inr v)"
  by (cases r) (simp_all add: problem_list_def)

lemma check_rule_accepts:
  assumes "check_rule cc i sh r0 = ([], sh', r)"
  shows "rule_ok cc r" "map_of sh (to_lower (rule_name r)) = None"
    "sh' = (if condition_empty (rule_when r) then AList.update (to_lower (rule_name r)) i sh else sh)"
proof -
  let ?name = "trim_space (rule_name r0)" and ?c = "rule_when r0"
  have name: "?name \<noteq> []" using assms by (auto simp: check_rule_def Let_def)
  have unseen: "map_of sh (to_lower ?name) = None"
    using assms name by (cases "map_of sh (to_lower ?name)") (auto simp: check_rule_def Let_def split_beta)
  have same: "condition_empty (c\<lparr>user_agent_re := re, user_statuses := map g (user_statuses c),
      client_types := map k (client_types c)\<rparr>) = condition_empty c" for c re g k
    by (simp add: condition_empty_def)
  note defs = check_rule_def Let_def unseen name
  have r: "rule_name r = ?name" "condition_empty (rule_when r) = condition_empty ?c"
    "cond_user_agent (rule_when r) = cond_user_agent ?c"
    "rule_remove r = rule_remove r0" "rule_template r = rule_template r0" "rule_max_length r = rule_max_length r0"
    using assms by (auto simp: defs same split_beta)
  have agent: "\<exists>re. user_agent_re (rule_when r) = Some re \<and> compile_pattern cc (cond_user_agent ?c) = Inr re"
    if "trim_space (cond_user_agent ?c) \<noteq> []"
    using assms that by (cases "compile_pattern cc (cond_user_agent ?c)") (auto simp: defs split_beta)
  have "\<not> (rule_remove r0 \<and> rule_template r0 \<noteq> None)" "0 \<le> rule_max_length r0"
    using assms by (auto simp: defs split_beta split: if_splits)
  with r name agent show "rule_ok cc r" by (simp add: rule_ok_def)
  from r(1) unseen show "map_of sh (to_lower (rule_name r)) = None" by simp
  show "sh' = (if condition_empty (rule_when r) then AList.update (to_lower (rule_name r)) i sh else sh)"
    using assms r(1,2) by (auto simp: defs split_beta)
qed

lemma check_rules_accepts:
  assumes "fst (check_rules cc i sh rs) = []"
  shows "(\<forall>r \<in> set (snd (check_rules cc i sh rs)). rule_ok cc r \<and> map_of sh (to_lower (rule_name r)) = None)
    \<and> reachable_rules (snd (check_rules cc i sh rs))"
  using assms
proof (induction rs arbitrary: i sh)
  case (Cons r0 rs)
  obtain ps sh' r where c: "check_rule cc i sh r0 = (ps, sh', r)" by (cases "check_rule cc i sh r0") auto
  with Cons.prems have "ps = []" and rest: "fst (check_rules cc (Suc i) sh' rs) = []"
    by (simp_all add: split_beta)
  note r = check_rule_accepts [OF c [unfolded \<open>ps = []\<close>]]
  from Cons.IH [OF rest] have ih:
    "\<forall>q \<in> set (snd (check_rules cc (Suc i) sh' rs)). rule_ok cc q \<and> map_of sh' (to_lower (rule_name q)) = None"
    "reachable_rules (snd (check_rules cc (Suc i) sh' rs))" by auto
  have fresh: "map_of sh (to_lower (rule_name q)) = None
      \<and> (condition_empty (rule_when r) \<longrightarrow> to_lower (rule_name r) \<noteq> to_lower (rule_name q))"
    if "map_of sh' (to_lower (rule_name q)) = None" for q
    using that r(3) by (auto split: if_splits)
  have all: "\<forall>q \<in> set (snd (check_rules cc (Suc i) sh' rs)). rule_ok cc q
      \<and> map_of sh (to_lower (rule_name q)) = None
      \<and> (condition_empty (rule_when r) \<longrightarrow> to_lower (rule_name r) \<noteq> to_lower (rule_name q))"
    using ih(1) fresh by blast
  have "snd (check_rules cc i sh (r0 # rs)) = r # snd (check_rules cc (Suc i) sh' rs)"
    by (simp add: c split_beta)
  with all ih(2) r(1,2) show ?case by (simp add: reachable_rules_def)
qed (simp add: reachable_rules_def)

lemma signs_nonempty: "infinity_sign \<noteq> []" "bar_full_sign \<noteq> []" "bar_empty_sign \<noteq> []"
  by (simp_all add: infinity_sign_def bar_full_sign_def bar_empty_sign_def)

lemma validate_accepts:
  assumes "fst (validate cc load_zone ord f) = []" "is_order ord"
  shows "valid_file cc (snd (validate cc load_zone ord f))"
proof -
  obtain ps rs where rules: "check_rules cc 0 [] (headers_opt f) = (ps, rs)" by fastforce
  with assms(1) have none: "ps = []"
    "0 \<le> decimals (traffic_opt f) \<and> decimals (traffic_opt f) \<le> 6"
    "units (traffic_opt f) = [] \<or> 5 \<le> length (units (traffic_opt f))"
    "0 \<le> bar_width (bar_opt f) \<and> bar_width (bar_opt f) \<le> 100"
    "problem_list (compile_block cc (block_opt f)) = []"
    "problem_list (compile_hosts cc (hosts_opt f)) = []"
    "problem_list (compile_user_agents cc (user_agents_opt f)) = []"
    "filter (\<lambda>name. \<not> valid_var_name name) (map_keys (ord (vars_opt f))) = []"
    by (auto simp: validate_def Let_def not_less split: if_splits)
  from none(8) have vars: "\<forall>name \<in> set (map_keys (vars_opt f)). valid_var_name name"
    using order_keys [OF assms(2), of "vars_opt f"] by (auto simp only: filter_empty_conv not_not)
  have "\<forall>r \<in> set rs. rule_ok cc r" "reachable_rules rs"
    using check_rules_accepts [of cc 0 "[]" "headers_opt f"] rules none(1) by auto
  with none vars show ?thesis
    by (simp add: valid_file_def validate_def Let_def rules problem_list_Nil or_default_nonempty signs_nonempty)
qed

lemma default_file_valid: "valid_file cc default_file"
  by (simp add: valid_file_def default_file_def signs_nonempty reachable_rules_def compile_block_def
      compile_hosts_def compile_patterns_def compile_user_agents_def)

lemma decode_file_skips:
  "decode_file dec raw = Inr (f, skipped) \<Longrightarrow> e \<in> set skipped \<Longrightarrow> unknown_section e"
  by (auto simp: decode_file_def split_unknown_fields_def Let_def split: prod.splits option.splits if_splits
      yaml_error.splits)

lemma load_file_valid:
  assumes "load_file cc load_zone ord dec read explicit = Inr (f, skipped)" "is_order ord"
  shows "valid_file cc f \<and> (\<forall>e \<in> set skipped. unknown_section e)"
proof (cases read)
  case (File_Text raw)
  with assms(1) obtain f0 where d: "decode_file dec raw = Inr (f0, skipped)"
    and v: "validate cc load_zone ord f0 = ([], f)"
    by (auto simp: load_file_def split: sum.splits prod.splits if_splits)
  from validate_accepts [of cc load_zone ord f0] v assms(2) have "valid_file cc f" by simp
  with decode_file_skips [OF d] show ?thesis by blast
qed (use assms default_file_valid in \<open>auto simp: load_file_def split: if_splits\<close>)

text \<open>A configuration file that passes the check is fit for use: every number in its range, every text
  that must not be blank filled in, every pattern compiled, every variable named as a placeholder
  can name it, and every header rule named, consistent and within reach.\<close>

theorem loaded_file_valid:
  assumes "load_file cc load_zone ord dec read explicit = Inr (f, skipped)" "is_order ord"
  shows "valid_file cc f \<and> (\<forall>e \<in> set skipped. unknown_section e)"
  using assms by (rule load_file_valid)

theorem loaded_file_valid_witness:
  "valid_file (\<lambda>p. Inr (\<lambda>s. s = p)) (default_file\<lparr>vars_opt := [(''SUPPORT'', ''x'')]\<rparr>)"
proof -
  let ?dec = "\<lambda>raw f. (f\<lparr>vars_opt := [(''SUPPORT'', raw)]\<rparr>, Some (Type_Errors
    [''line 3: field telemetry not found in type config.File'']))"
  have "valid_var_name ''SUPPORT''"
    "unknown_section ''line 3: field telemetry not found in type config.File''" by code_simp+
  then have "load_file (\<lambda>p. Inr (\<lambda>s. s = p)) Some rev ?dec (File_Text ''x'') True
      = Inr (default_file\<lparr>vars_opt := [(''SUPPORT'', ''x'')]\<rparr>,
          [''line 3: field telemetry not found in type config.File''])"
    by (simp add: load_file_def decode_file_def split_unknown_fields_def validate_def default_file_def
        or_default_def signs_nonempty compile_block_def compile_hosts_def compile_patterns_def
        compile_user_agents_def problem_list_def Let_def)
  from loaded_file_valid [OF this] show ?thesis by simp
qed

text \<open>A file that is missing where the operator named it, or that cannot be read, is an error; only at
  the default path does a missing file mean the defaults.\<close>

lemma load_file_missing:
  "load_file cc load_zone ord dec File_Missing explicit =
    (if explicit then Inl Cannot_Read else Inr (default_file, []))"
  "load_file cc load_zone ord dec File_Unreadable explicit = Inl Cannot_Read"
  by (simp_all add: load_file_def)

end
