(* ===== verification/Config_Load.thy ===== *)
theory Config_Load
  imports Env_Values Config_File Panel_Client
begin

text \<open>
  File \<open>internal/config/config.go\<close>: the configuration as a whole.  \<open>Load\<close> reads every variable, collects
  what is wrong with any of them, and only then reads the file.  \<open>url.Parse\<close> is a parameter; the
  default of each variable is the code's.
\<close>

record http_conf =
  http_addr :: string
  read_timeout :: duration
  write_timeout :: duration
  idle_timeout :: duration
  shutdown_timeout :: duration
  health_addr :: string

record upstream_conf =
  up_url :: "url option"
  up_timeout :: duration
  sub_prefix :: string
  trust_proxy :: string
  force_https :: bool

record panel_conf =
  pn_url :: "url option"
  pn_token :: string
  pn_timeout :: duration
  pn_enabled :: bool
  pn_always_fetch :: bool
  pn_forward_real_ip :: bool
  pn_caddy :: string
  pn_cloudflare_id :: string
  pn_cloudflare_secret :: string

record cache_conf =
  ca_ttl :: duration
  ca_negative_ttl :: duration
  ca_max_entries :: int

record sub_cache_conf =
  sc_enabled :: bool
  sc_ttl :: duration
  sc_max_bytes :: int
  sc_max_body :: int

record log_conf =
  log_level :: string
  log_format :: string

record config =
  cfg_http :: http_conf
  cfg_upstream :: upstream_conf
  cfg_panel :: panel_conf
  cfg_cache :: cache_conf
  cfg_sub_cache :: sub_cache_conf
  cfg_log :: log_conf
  cfg_file :: config_file
  cfg_path :: string
  cfg_skipped :: "string list"

definition host_port :: "string \<Rightarrow> int \<Rightarrow> string" where
  "host_port host port = host @ '':'' @ format_int port"

definition parse_url :: "(string \<Rightarrow> url option) \<Rightarrow> string \<Rightarrow> string \<Rightarrow> url option \<times> problem list" where
  "parse_url url_parse key raw =
    (if raw = [] then (None, [])
     else
       (case url_parse raw of
          None \<Rightarrow> (None, [Invalid_Url key])
        | Some u \<Rightarrow>
            if url_scheme u \<noteq> ''http'' \<and> url_scheme u \<noteq> ''https'' then (None, [Wrong_Scheme key raw])
            else if url_host u = [] then (None, [Missing_Host key raw])
            else (Some (u\<lparr>url_path := trim_suffix (url_path u) ''/''\<rparr>), [])))"

text \<open>A required URL: both readings may add a problem.\<close>

definition required_url :: "(string \<Rightarrow> url option) \<Rightarrow> environ \<Rightarrow> string \<Rightarrow> url option \<times> problem list" where
  "required_url url_parse env key =
    (case required_string env key of
       (raw, ps) \<Rightarrow> (case parse_url url_parse key raw of (u, qs) \<Rightarrow> (u, ps @ qs)))"

definition load_http :: "environ \<Rightarrow> http_conf \<times> problem list" where
  "load_http env =
    (let port = int_val env ''APP_PORT'' 3020;
         r = duration_val env ''HTTP_READ_TIMEOUT'' (30 * second);
         w = duration_val env ''HTTP_WRITE_TIMEOUT'' (90 * second);
         i = duration_val env ''HTTP_IDLE_TIMEOUT'' (120 * second);
         s = duration_val env ''HTTP_SHUTDOWN_TIMEOUT'' (15 * second)
     in (\<lparr>http_addr = host_port (env_string env ''APP_HOST'' ''0.0.0.0'') (fst port),
          read_timeout = fst r, write_timeout = fst w, idle_timeout = fst i, shutdown_timeout = fst s,
          health_addr = []\<rparr>,
         snd port @ snd r @ snd w @ snd i @ snd s))"

definition load_upstream :: "environ \<Rightarrow> upstream_conf \<times> problem list" where
  "load_upstream env =
    (let t = duration_val env ''UPSTREAM_TIMEOUT'' (60 * second);
         f = bool_val env ''UPSTREAM_FORCE_HTTPS'' False
     in (\<lparr>up_url = None, up_timeout = fst t,
          sub_prefix = trim_byte (CHR ''/'') (env_string env ''CUSTOM_SUB_PREFIX'' []),
          trust_proxy = env_string env ''TRUST_PROXY'' ''1'', force_https = fst f\<rparr>,
         snd t @ snd f))"

definition load_panel :: "environ \<Rightarrow> panel_conf \<times> problem list" where
  "load_panel env =
    (let t = duration_val env ''PANEL_TIMEOUT'' (10 * second);
         e = bool_val env ''PANEL_ENABLED'' True;
         a = bool_val env ''PANEL_ALWAYS_FETCH'' False;
         f = bool_val env ''PANEL_FORWARD_REAL_IP'' True
     in (\<lparr>pn_url = None, pn_token = [], pn_timeout = fst t, pn_enabled = fst e, pn_always_fetch = fst a,
          pn_forward_real_ip = fst f, pn_caddy = env_string env ''CADDY_AUTH_API_TOKEN'' [],
          pn_cloudflare_id = env_string env ''CLOUDFLARE_ZERO_TRUST_CLIENT_ID'' [],
          pn_cloudflare_secret = env_string env ''CLOUDFLARE_ZERO_TRUST_CLIENT_SECRET'' []\<rparr>,
         snd t @ snd e @ snd a @ snd f))"

definition load_cache :: "environ \<Rightarrow> cache_conf \<times> problem list" where
  "load_cache env =
    (let t = duration_val env ''CACHE_TTL'' (30 * second);
         n = duration_val env ''CACHE_NEGATIVE_TTL'' (10 * second);
         m = int_val env ''CACHE_MAX_ENTRIES'' 10000
     in (\<lparr>ca_ttl = fst t, ca_negative_ttl = fst n, ca_max_entries = fst m\<rparr>, snd t @ snd n @ snd m))"

definition load_sub_cache :: "environ \<Rightarrow> sub_cache_conf \<times> problem list" where
  "load_sub_cache env =
    (let e = bool_val env ''SUBSCRIPTION_CACHE_ENABLED'' False;
         t = duration_val env ''SUBSCRIPTION_CACHE_TTL'' (3600 * second);
         b = size_val env ''SUBSCRIPTION_CACHE_MAX_BYTES'' (64 * 2 ^ 20);
         m = size_val env ''SUBSCRIPTION_CACHE_MAX_BODY'' (2 ^ 20)
     in (\<lparr>sc_enabled = fst e, sc_ttl = fst t, sc_max_bytes = fst b, sc_max_body = fst m\<rparr>,
         snd e @ snd t @ snd b @ snd m))"

definition load_log :: "environ \<Rightarrow> log_conf" where
  "load_log env =
    \<lparr>log_level = to_lower (env_string env ''LOG_LEVEL'' ''info''),
     log_format = to_lower (env_string env ''LOG_FORMAT'' ''text'')\<rparr>"

text \<open>The health listener has an address of its own unless its port is zero or less.\<close>

definition load_health :: "environ \<Rightarrow> string \<times> problem list" where
  "load_health env =
    (case int_val env ''HEALTH_PORT'' 3021 of
       (port, ps) \<Rightarrow>
         (if port > 0 then host_port (env_string env ''HEALTH_HOST'' ''0.0.0.0'') port else [], ps))"

definition load_panel_access ::
    "(string \<Rightarrow> url option) \<Rightarrow> environ \<Rightarrow> panel_conf \<Rightarrow> panel_conf \<times> problem list" where
  "load_panel_access url_parse env p =
    (if pn_enabled p then
       (let u = required_url url_parse env ''REMNAWAVE_PANEL_URL'';
            t = required_string env ''REMNAWAVE_API_TOKEN''
        in (p\<lparr>pn_url := fst u, pn_token := fst t\<rparr>, snd u @ snd t))
     else (p, []))"

text \<open>The checks at the end, over the values read.\<close>

definition check_values :: "cache_conf \<Rightarrow> sub_cache_conf \<Rightarrow> log_conf \<Rightarrow> problem list" where
  "check_values c s l =
    (if log_format l \<in> {''text'', ''json''} then [] else [Wrong_Choice ''LOG_FORMAT'' (log_format l)])
    @ (if log_level l \<in> {''debug'', ''info'', ''warn'', ''error''} then []
       else [Wrong_Choice ''LOG_LEVEL'' (log_level l)])
    @ (if ca_max_entries c < 0 then [Out_Of_Range ''CACHE_MAX_ENTRIES''] else [])
    @ (if sc_enabled s then
         (if sc_ttl s \<le> 0 then [Out_Of_Range ''SUBSCRIPTION_CACHE_TTL''] else [])
         @ (if sc_max_body s \<le> 0 then [Out_Of_Range ''SUBSCRIPTION_CACHE_MAX_BODY''] else [])
         @ (if sc_max_bytes s < sc_max_body s then [Out_Of_Range ''SUBSCRIPTION_CACHE_MAX_BYTES''] else [])
       else [])"

definition load_values :: "(string \<Rightarrow> url option) \<Rightarrow> environ \<Rightarrow> config \<times> problem list" where
  "load_values url_parse env =
    (let h = load_http env; u = load_upstream env; p = load_panel env; c = load_cache env;
         s = load_sub_cache env; l = load_log env; hp = load_health env;
         up = required_url url_parse env ''UPSTREAM_URL'';
         pa = load_panel_access url_parse env (fst p)
     in (\<lparr>cfg_http = (fst h)\<lparr>health_addr := fst hp\<rparr>, cfg_upstream = (fst u)\<lparr>up_url := fst up\<rparr>,
          cfg_panel = fst pa, cfg_cache = fst c, cfg_sub_cache = fst s, cfg_log = l,
          cfg_file = default_file, cfg_path = [], cfg_skipped = []\<rparr>,
         snd h @ snd u @ snd p @ snd c @ snd s @ snd hp @ snd up @ snd pa
         @ check_values (fst c) (fst s) l))"

datatype startup_error = Bad_Environment "problem list" | Bad_File load_error

definition load_config ::
    "(string \<Rightarrow> url option) \<Rightarrow> compiler \<Rightarrow> (string \<Rightarrow> string option) \<Rightarrow> (string, string) iter_order \<Rightarrow> decoder
      \<Rightarrow> (string \<Rightarrow> read_result) \<Rightarrow> environ \<Rightarrow> startup_error + config" where
  "load_config url_parse cc load_zone ord dec read_file env =
    (let (cfg, problems) = load_values url_parse env;
         (path, explicit) = (case lookup_env env ''CONFIG_PATH'' of
           Some p \<Rightarrow> (p, True) | None \<Rightarrow> (''config.yaml'', False))
     in case or_nil problems of
          Some ps \<Rightarrow> Inl (Bad_Environment ps)
        | None \<Rightarrow>
            (case load_file cc load_zone ord dec (read_file path) explicit of
               Inl e \<Rightarrow> Inl (Bad_File e)
             | Inr (f, skipped) \<Rightarrow>
                 Inr (cfg\<lparr>cfg_file := f, cfg_path := path, cfg_skipped := skipped\<rparr>)))"

section \<open>What a loaded configuration satisfies\<close>

definition good_url :: "url \<Rightarrow> bool" where
  "good_url u \<longleftrightarrow> (url_scheme u = ''http'' \<or> url_scheme u = ''https'') \<and> url_host u \<noteq> []"

definition good_config :: "compiler \<Rightarrow> config \<Rightarrow> bool" where
  "good_config cc cfg \<longleftrightarrow>
    (\<exists>u. up_url (cfg_upstream cfg) = Some u \<and> good_url u)
    \<and> (pn_enabled (cfg_panel cfg) \<longrightarrow>
         (\<exists>u. pn_url (cfg_panel cfg) = Some u \<and> good_url u) \<and> pn_token (cfg_panel cfg) \<noteq> [])
    \<and> 0 \<le> ca_max_entries (cfg_cache cfg)
    \<and> (sc_enabled (cfg_sub_cache cfg) \<longrightarrow>
         0 < sc_ttl (cfg_sub_cache cfg) \<and> 0 < sc_max_body (cfg_sub_cache cfg)
         \<and> sc_max_body (cfg_sub_cache cfg) \<le> sc_max_bytes (cfg_sub_cache cfg))
    \<and> log_format (cfg_log cfg) \<in> {''text'', ''json''}
    \<and> log_level (cfg_log cfg) \<in> {''debug'', ''info'', ''warn'', ''error''}
    \<and> valid_file cc (cfg_file cfg)"

lemma required_url_good:
  "required_url url_parse env key = (u, []) \<Longrightarrow> \<exists>v. u = Some v \<and> good_url v"
  by (auto simp: required_url_def required_string_def parse_url_def lookup_env_def good_url_def
      split: option.splits prod.splits if_splits)

lemma required_string_good: "required_string env key = (s, []) \<Longrightarrow> s \<noteq> []"
  by (auto simp: required_string_def lookup_env_def split: option.splits if_splits)

lemma check_values_good:
  "check_values c s l = [] \<longleftrightarrow>
    log_format l \<in> {''text'', ''json''} \<and> log_level l \<in> {''debug'', ''info'', ''warn'', ''error''}
    \<and> 0 \<le> ca_max_entries c
    \<and> (sc_enabled s \<longrightarrow> 0 < sc_ttl s \<and> 0 < sc_max_body s \<and> sc_max_body s \<le> sc_max_bytes s)"
  by (simp add: check_values_def)

lemma loaded_values:
  assumes "load_config url_parse cc load_zone ord dec read_file env = Inr cfg"
  obtains f skipped path explicit where "snd (load_values url_parse env) = []"
    "load_file cc load_zone ord dec (read_file path) explicit = Inr (f, skipped)"
    "cfg = (fst (load_values url_parse env))\<lparr>cfg_file := f, cfg_path := path, cfg_skipped := skipped\<rparr>"
  using assms by (auto simp: load_config_def or_nil_def split_beta split: option.splits sum.splits if_splits)

lemma load_config_good:
  assumes "load_config url_parse cc load_zone ord dec read_file env = Inr cfg" "is_order ord"
  shows "good_config cc cfg"
proof -
  from loaded_values [OF assms(1)] obtain f skipped path explicit where
    none: "snd (load_values url_parse env) = []"
    and loaded: "load_file cc load_zone ord dec (read_file path) explicit = Inr (f, skipped)"
    and cfg: "cfg = (fst (load_values url_parse env))\<lparr>cfg_file := f, cfg_path := path, cfg_skipped := skipped\<rparr>" .
  have "valid_file cc f" using load_file_valid [OF loaded assms(2)] by blast
  obtain u ps where up: "required_url url_parse env ''UPSTREAM_URL'' = (u, ps)" by fastforce
  obtain p qs where pa: "load_panel_access url_parse env (fst (load_panel env)) = (p, qs)" by fastforce
  from none have parts: "ps = []" "qs = []"
    "check_values (fst (load_cache env)) (fst (load_sub_cache env)) (load_log env) = []"
    by (simp_all add: load_values_def Let_def up pa)
  from parts(2) have "pn_enabled p \<longrightarrow> (\<exists>u. pn_url p = Some u \<and> good_url u) \<and> pn_token p \<noteq> []"
    using pa required_url_good [of url_parse env "''REMNAWAVE_PANEL_URL''"]
      required_string_good [of env "''REMNAWAVE_API_TOKEN''"]
    by (auto simp: load_panel_access_def Let_def prod_eq_iff split: if_splits)
  with parts required_url_good [of url_parse env "''UPSTREAM_URL''" u] up \<open>valid_file cc f\<close> show ?thesis
    by (simp add: good_config_def cfg load_values_def Let_def pa check_values_good)
qed

text \<open>C34: Starting with a configuration means starting with a sound one: an upstream to talk to, the
  panel's address and token when it is to be asked, cache limits that make sense together, a known
  log level and format, and a file that passed its own check.\<close>

theorem loaded_config_good:
  assumes "load_config url_parse cc load_zone ord dec read_file env = Inr cfg" "is_order ord"
  shows "good_config cc cfg"
  using assms by (rule load_config_good)

definition sample_environ :: environ where
  "sample_environ = map_of [(''UPSTREAM_URL'', '' http://page:3010/ ''), (''PANEL_ENABLED'', ''false'')]"

definition sample_url :: "string \<Rightarrow> url option" where
  "sample_url raw =
    (if raw = ''http://page:3010/'' then Some \<lparr>url_scheme = ''http'', url_host = ''page:3010'', url_path = ''/''\<rparr>
     else None)"

theorem loaded_config_good_witness:
  "\<exists>cfg. load_config sample_url (\<lambda>p. Inr (\<lambda>s. s = p)) Some rev (\<lambda>_ f. (f, None)) (\<lambda>_. File_Missing) sample_environ
      = Inr cfg \<and> up_url (cfg_upstream cfg) \<noteq> None"
proof -
  let ?load = "load_config sample_url (\<lambda>p. Inr (\<lambda>s. s = p)) Some rev (\<lambda>_ f. (f, None)) (\<lambda>_. File_Missing) sample_environ"
  have "snd (load_values sample_url sample_environ) = []" by code_simp
  then have "\<exists>cfg. ?load = Inr cfg"
    by (auto simp: load_config_def or_nil_def load_file_def split_beta sample_environ_def lookup_env_def)
  then obtain cfg where "?load = Inr cfg" by blast
  moreover from loaded_config_good [OF this] have "up_url (cfg_upstream cfg) \<noteq> None"
    by (auto simp: good_config_def)
  ultimately show ?thesis by blast
qed

section \<open>Problems\<close>

definition duration_keys :: "string list" where
  "duration_keys =
    [''HTTP_READ_TIMEOUT'', ''HTTP_WRITE_TIMEOUT'', ''HTTP_IDLE_TIMEOUT'', ''HTTP_SHUTDOWN_TIMEOUT'',
     ''UPSTREAM_TIMEOUT'', ''PANEL_TIMEOUT'', ''CACHE_TTL'', ''CACHE_NEGATIVE_TTL'', ''SUBSCRIPTION_CACHE_TTL'']"

definition int_keys :: "string list" where
  "int_keys = [''APP_PORT'', ''CACHE_MAX_ENTRIES'', ''HEALTH_PORT'']"

definition bool_keys :: "string list" where
  "bool_keys =
    [''UPSTREAM_FORCE_HTTPS'', ''PANEL_ENABLED'', ''PANEL_ALWAYS_FETCH'', ''PANEL_FORWARD_REAL_IP'',
     ''SUBSCRIPTION_CACHE_ENABLED'']"

definition size_keys :: "string list" where
  "size_keys = [''SUBSCRIPTION_CACHE_MAX_BYTES'', ''SUBSCRIPTION_CACHE_MAX_BODY'']"

text \<open>What is wrong with one value, by the kind of its variable.\<close>

definition value_problems :: "string \<Rightarrow> string \<Rightarrow> problem list" where
  "value_problems key raw =
    (if key \<in> set duration_keys then snd (duration_val (\<lambda>_. Some raw) key 0)
     else if key \<in> set int_keys then snd (int_val (\<lambda>_. Some raw) key 0)
     else if key \<in> set bool_keys then snd (bool_val (\<lambda>_. Some raw) key False)
     else if key \<in> set size_keys then snd (size_val (\<lambda>_. Some raw) key 0)
     else [])"

lemma lookup_trimmed: "lookup_env env key = Some raw \<Longrightarrow> lookup_env (\<lambda>_. Some raw) key = Some raw"
  by (auto simp: lookup_env_def split: option.splits if_splits)

lemma reader_problems:
  assumes "lookup_env env key = Some raw"
  shows "snd (duration_val env key d) = snd (duration_val (\<lambda>_. Some raw) key 0)"
    "snd (int_val env key n) = snd (int_val (\<lambda>_. Some raw) key 0)"
    "snd (bool_val env key b) = snd (bool_val (\<lambda>_. Some raw) key False)"
    "snd (size_val env key n) = snd (size_val (\<lambda>_. Some raw) key 0)"
  using assms lookup_trimmed [OF assms]
  by (simp_all add: duration_val_def int_val_def bool_val_def size_val_def split: option.split)

lemma load_sets:
  "set (snd (load_http env)) = set (snd (int_val env ''APP_PORT'' 3020))
    \<union> set (snd (duration_val env ''HTTP_READ_TIMEOUT'' (30 * second)))
    \<union> set (snd (duration_val env ''HTTP_WRITE_TIMEOUT'' (90 * second)))
    \<union> set (snd (duration_val env ''HTTP_IDLE_TIMEOUT'' (120 * second)))
    \<union> set (snd (duration_val env ''HTTP_SHUTDOWN_TIMEOUT'' (15 * second)))"
  "set (snd (load_upstream env)) = set (snd (duration_val env ''UPSTREAM_TIMEOUT'' (60 * second)))
    \<union> set (snd (bool_val env ''UPSTREAM_FORCE_HTTPS'' False))"
  "set (snd (load_panel env)) = set (snd (duration_val env ''PANEL_TIMEOUT'' (10 * second)))
    \<union> set (snd (bool_val env ''PANEL_ENABLED'' True)) \<union> set (snd (bool_val env ''PANEL_ALWAYS_FETCH'' False))
    \<union> set (snd (bool_val env ''PANEL_FORWARD_REAL_IP'' True))"
  "set (snd (load_cache env)) = set (snd (duration_val env ''CACHE_TTL'' (30 * second)))
    \<union> set (snd (duration_val env ''CACHE_NEGATIVE_TTL'' (10 * second)))
    \<union> set (snd (int_val env ''CACHE_MAX_ENTRIES'' 10000))"
  "set (snd (load_sub_cache env)) = set (snd (bool_val env ''SUBSCRIPTION_CACHE_ENABLED'' False))
    \<union> set (snd (duration_val env ''SUBSCRIPTION_CACHE_TTL'' (3600 * second)))
    \<union> set (snd (size_val env ''SUBSCRIPTION_CACHE_MAX_BYTES'' (64 * 2 ^ 20)))
    \<union> set (snd (size_val env ''SUBSCRIPTION_CACHE_MAX_BODY'' (2 ^ 20)))"
  "set (snd (load_health env)) = set (snd (int_val env ''HEALTH_PORT'' 3021))"
  by (simp_all add: load_http_def load_upstream_def load_panel_def load_cache_def load_sub_cache_def
      load_health_def Let_def split_beta Un_assoc)

lemma load_problems:
  "set (snd (load_values url_parse env)) \<supseteq>
    set (snd (load_http env)) \<union> set (snd (load_upstream env)) \<union> set (snd (load_panel env))
    \<union> set (snd (load_cache env)) \<union> set (snd (load_sub_cache env)) \<union> set (snd (load_health env))
    \<union> set (snd (required_url url_parse env ''UPSTREAM_URL''))"
  by (auto simp: load_values_def Let_def)

text \<open>C35: No mistake hides another: every variable with a value of the wrong kind is in the one report
  that \<open>Load\<close> fails with, and so is a missing upstream URL.\<close>

theorem every_problem_reported:
  assumes "lookup_env env key = Some raw" "pr \<in> set (value_problems key raw)"
  shows "\<exists>ps. load_config url_parse cc load_zone ord dec read_file env = Inl (Bad_Environment ps) \<and> pr \<in> set ps
    \<and> (lookup_env env ''UPSTREAM_URL'' = None \<longrightarrow> Required ''UPSTREAM_URL'' \<in> set ps)"
proof -
  let ?ps = "snd (load_values url_parse env)"
  note readers = reader_problems [OF assms(1)]
  have "pr \<in> set (snd (load_http env)) \<union> set (snd (load_upstream env)) \<union> set (snd (load_panel env))
    \<union> set (snd (load_cache env)) \<union> set (snd (load_sub_cache env)) \<union> set (snd (load_health env))"
  proof -
    consider "key \<in> set duration_keys" "pr \<in> set (snd (duration_val (\<lambda>_. Some raw) key 0))"
      | "key \<in> set int_keys" "pr \<in> set (snd (int_val (\<lambda>_. Some raw) key 0))"
      | "key \<in> set bool_keys" "pr \<in> set (snd (bool_val (\<lambda>_. Some raw) key False))"
      | "key \<in> set size_keys" "pr \<in> set (snd (size_val (\<lambda>_. Some raw) key 0))"
      using assms(2) by (auto simp: value_problems_def split: if_splits)
    then show ?thesis
    proof cases
      case 1
      then have "pr \<in> set (snd (duration_val env key d))" for d using readers(1) by simp
      with 1(1) show ?thesis unfolding duration_keys_def list.set insert_iff empty_iff
        by (elim disjE FalseE) (simp_all only: load_sets Un_iff simp_thms)
    next
      case 2
      then have "pr \<in> set (snd (int_val env key d))" for d using readers(2) by simp
      with 2(1) show ?thesis unfolding int_keys_def list.set insert_iff empty_iff
        by (elim disjE FalseE) (simp_all only: load_sets Un_iff simp_thms)
    next
      case 3
      then have "pr \<in> set (snd (bool_val env key d))" for d using readers(3) by simp
      with 3(1) show ?thesis unfolding bool_keys_def list.set insert_iff empty_iff
        by (elim disjE FalseE) (simp_all only: load_sets Un_iff simp_thms)
    next
      case 4
      then have "pr \<in> set (snd (size_val env key d))" for d using readers(4) by simp
      with 4(1) show ?thesis unfolding size_keys_def list.set insert_iff empty_iff
        by (elim disjE FalseE) (simp_all only: load_sets Un_iff simp_thms)
    qed
  qed
  then have pr: "pr \<in> set ?ps" by (intro load_problems [THEN subsetD]) simp
  moreover have "Required ''UPSTREAM_URL'' \<in> set ?ps" if "lookup_env env ''UPSTREAM_URL'' = None"
  proof -
    have "Required ''UPSTREAM_URL'' \<in> set (snd (required_url url_parse env ''UPSTREAM_URL''))"
      using that by (simp add: required_url_def required_string_def split_beta)
    then show ?thesis by (intro load_problems [THEN subsetD]) simp
  qed
  moreover have "load_config url_parse cc load_zone ord dec read_file env = Inl (Bad_Environment ?ps)"
    using pr by (auto simp: load_config_def or_nil_def split_beta)
  ultimately show ?thesis by (intro exI [of _ ?ps] conjI impI)
qed

theorem every_problem_reported_witness:
  "\<exists>ps. load_config (\<lambda>_. None) (\<lambda>p. Inl p) Some rev (\<lambda>_ f. (f, None)) (\<lambda>_. File_Missing)
      (map_of [(''CACHE_TTL'', ''soon'')]) = Inl (Bad_Environment ps)
    \<and> Not_A_Duration ''CACHE_TTL'' ''soon'' \<in> set ps \<and> Required ''UPSTREAM_URL'' \<in> set ps"
proof -
  have "lookup_env (map_of [(''CACHE_TTL'', ''soon'')]) ''CACHE_TTL'' = Some ''soon''"
    "value_problems ''CACHE_TTL'' ''soon'' = [Not_A_Duration ''CACHE_TTL'' ''soon'']"
    "lookup_env (map_of [(''CACHE_TTL'', ''soon'')]) ''UPSTREAM_URL'' = None"
    by code_simp+
  then show ?thesis
    using every_problem_reported [of "map_of [(''CACHE_TTL'', ''soon'')]" "''CACHE_TTL''" "''soon''"
        "Not_A_Duration ''CACHE_TTL'' ''soon''" "\<lambda>_. None" "\<lambda>p. Inl p" Some rev "\<lambda>_ f. (f, None)" "\<lambda>_. File_Missing"]
    by simp
qed

text \<open>A bare number of seconds is multiplied without a check of its range: a positive one can become a
  negative duration, which the reader otherwise refuses.\<close>

lemma duration_val_wraps:
  "duration_val (\<lambda>_. Some ''9223372037'') key def = (-9223372036709551616, [])"
proof -
  have "trim_space ''9223372037'' = ''9223372037''" "parse_int ''9223372037'' = Some 9223372037" by code_simp+
  then show ?thesis by (simp add: duration_val_def lookup_env_def wrap64_def second_def)
qed

end
