(* ===== verification/Panel_Access.thy ===== *)
theory Panel_Access
  imports Panel_Cache Engine
begin

text \<open>
  The panel cache as the header engine uses it: one caller's way through \<open>SubscriptionInfo\<close> of
  \<open>internal/panel/cache.go\<close> as a function of the cache, which is a run of the step relation of
  Panel_Cache, and the header engine over a history of such calls.
\<close>

text \<open>
  The moments at which one call reads the clock, the order in which it visits the entries, and what
  the panel would answer.
\<close>

record moment =
  mo_looked :: time
  mo_locked :: time
  mo_stored :: time
  mo_order :: "(string, panel_entry) iter_order"
  mo_panel :: fetcher

text \<open>A call that meets no other one in flight for its key.\<close>

definition cached_info :: "moment \<Rightarrow> panel_cache \<Rightarrow> string \<Rightarrow> string \<Rightarrow> answer \<times> panel_cache" where
  "cached_info w c k ip =
    (case pc_lookup c (mo_looked w) k of
       Some r \<Rightarrow> (r, c)
     | None \<Rightarrow>
         (case pc_lookup c (mo_locked w) k of
            Some r \<Rightarrow> (r, c)
          | None \<Rightarrow> (let r = mo_panel w k ip in (r, pc_store (mo_order w) c (mo_stored w) k r))))"

lemma delete_fresh: "map_of m k = None \<Longrightarrow> AList.delete k (AList.update k v m) = m"
  by (induction m) (auto split: if_splits)

text \<open>C20: A call on its own is a run of the concurrent cache: from any state in which nobody fetches
  its key, a caller that arrives can finish with the answer of the function, leaving the cache of
  the function.\<close>

theorem lone_call_is_run:
  assumes "reachable c0 s" "st_callers s i = Idle" "map_of (pc_in_flight (st_cache s)) k = None"
    and "is_order (mo_order w)" "cached_info w (st_cache s) k ip = (r, c')"
  shows "\<exists>s'. reachable c0 s' \<and> st_callers s' i = Finished k (Answer r) \<and> st_cache s' = c'
    \<and> (\<forall>j. j \<noteq> i \<longrightarrow> st_callers s' j = st_callers s j)"
proof -
  note s1 = reachable.step [OF assms(1) arrive [OF assms(2), of k]]
  let ?s1 = "move i (Start k) s"
  show ?thesis
  proof (cases "pc_lookup (st_cache s) (mo_looked w) k")
    case (Some x)
    with assms(5) have x: "x = r" "c' = st_cache s" by (simp_all add: cached_info_def)
    have "cache_step ?s1 (move i (Finished k (Answer r)) ?s1)"
      by (rule hit [of _ _ _ "mo_looked w"]) (simp_all add: Some x)
    note s2 = reachable.step [OF s1 this]
    show ?thesis by (rule exI, rule conjI, rule s2) (simp add: x)
  next
    case None
    have "cache_step ?s1 (move i (Missed k) ?s1)"
      by (rule miss [of _ _ _ "mo_looked w"]) (simp_all add: None)
    note s2 = reachable.step [OF s1 this]
    let ?s2 = "move i (Missed k) ?s1"
    show ?thesis
    proof (cases "pc_lookup (st_cache s) (mo_locked w) k")
      case (Some x)
      with None assms(5) have x: "x = r" "c' = st_cache s" by (simp_all add: cached_info_def)
      have "cache_step ?s2 (move i (Finished k (Answer r)) ?s2)"
        by (rule late_hit [of _ _ _ "mo_locked w"]) (simp_all add: Some x)
      note s3 = reachable.step [OF s2 this]
      show ?thesis by (rule exI, rule conjI, rule s3) (simp add: x)
    next
      case late: None
      with None assms(5) have r: "r = mo_panel w k ip" "c' = pc_store (mo_order w) (st_cache s) (mo_stored w) k r"
        by (auto simp: cached_info_def Let_def)
      note s3 = reachable.step [OF s2 new_call [of ?s2 i k "mo_locked w"]]
      note s4 = reachable.step [OF s3 fetched [of _ i k "st_next s" r]]
      note s5 = reachable.step [OF s4 settle [of _ i k "st_next s" r "mo_order w" "mo_stored w"]]
      note s6 = reachable.step [OF s5 close [of _ i k "st_next s" r]]
      show ?thesis
        by (rule exI, rule conjI, rule s6)
          (simp_all add: late assms(3,4) delete_fresh [OF assms(3)] r)
    qed
  qed
qed

section \<open>A history of calls\<close>

type_synonym query = "moment \<times> string \<times> string"

fun cache_before :: "panel_cache \<Rightarrow> query list \<Rightarrow> panel_cache" where
  "cache_before c [] = c"
| "cache_before c ((w, k, ip) # qs) = cache_before (snd (cached_info w c k ip)) qs"

text \<open>What the call does to the cache, as an event.\<close>

definition query_event ::
    "panel_cache \<Rightarrow> query \<Rightarrow> ((string, panel_entry) iter_order, string, answer) cache_event" where
  "query_event c q =
    (case q of (w, k, ip) \<Rightarrow>
      (mo_order w, mo_stored w, k,
       if pc_lookup c (mo_looked w) k = None \<and> pc_lookup c (mo_locked w) k = None
       then Some (mo_panel w k ip) else None))"

fun query_events ::
    "panel_cache \<Rightarrow> query list \<Rightarrow> ((string, panel_entry) iter_order, string, answer) cache_event list" where
  "query_events c [] = []"
| "query_events c (q # qs) = query_event c q # query_events (run_event pc_touch pc_store (query_event c q) c) qs"

lemma cached_info_event:
  "snd (cached_info w c k ip) = run_event pc_touch pc_store (query_event c (w, k, ip)) c"
  by (auto simp: cached_info_def query_event_def pc_touch_def Let_def split: option.split)

lemma cache_before_events: "cache_before c qs = fold (run_event pc_touch pc_store) (query_events c qs) c"
  by (induction c qs rule: cache_before.induct) (simp_all add: cached_info_event)

lemma query_events_stored:
  "(ord, t, k, Some r) \<in> set (query_events c qs) \<Longrightarrow>
    \<exists>(w, k', ip) \<in> set qs. k' = k \<and> t = mo_stored w \<and> r = mo_panel w k ip"
  by (induction c qs rule: query_events.induct) (auto simp: query_event_def split: if_splits prod.splits)

definition alive :: "duration \<Rightarrow> duration \<Rightarrow> answer \<Rightarrow> time \<Rightarrow> time \<Rightarrow> bool" where
  "alive ttl neg r t t' \<longleftrightarrow> t' < t + (case r of Inr _ \<Rightarrow> ttl | Inl _ \<Rightarrow> neg)"

text \<open>
  The panel's own answer about the key: given now, or to an earlier call about the same key, and
  then not longer ago than its time to live.
\<close>

definition genuine :: "duration \<Rightarrow> duration \<Rightarrow> query list \<Rightarrow> query \<Rightarrow> answer \<Rightarrow> bool" where
  "genuine ttl neg qs q r \<longleftrightarrow>
    (case q of (w, k, ip) \<Rightarrow>
      r = mo_panel w k ip
      \<or> (\<exists>(w', k', ip') \<in> set qs. k' = k \<and> r = mo_panel w' k ip'
          \<and> (alive ttl neg r (mo_stored w') (mo_looked w) \<or> alive ttl neg r (mo_stored w') (mo_locked w))))"

lemma lookup_genuine:
  assumes "pc_lookup (cache_before (new_panel_cache ttl neg m) qs) t k = Some r"
  shows "\<exists>(w, k', ip) \<in> set qs. k' = k \<and> r = mo_panel w k ip \<and> alive ttl neg r (mo_stored w) t"
proof -
  let ?evs = "query_events (new_panel_cache ttl neg m) qs"
  from assms panel.look_history obtain t0 where
    t0: "last_kept (pc_keeps ttl neg) ?evs k = Some (t0, r)" "pc_fresh ttl neg r t0 t"
    by (fastforce simp: cache_before_events)
  from t0(1) obtain ev where ev: "find (\<lambda>(_, _, k', v). k' = k \<and> v \<noteq> None \<and> pc_keeps ttl neg (the v)) (rev ?evs) = Some ev"
    "(t0, r) = (case ev of (_, t, _, v) \<Rightarrow> (t, the v))"
    by (auto simp: last_kept_def)
  obtain ord t' k' v where e: "ev = (ord, t', k', v)" by (cases ev)
  from find_Some_split [OF ev(1)] obtain ys zs where
    "rev ?evs = ys @ ev # zs" "(case ev of (_, _, k', v) \<Rightarrow> k' = k \<and> v \<noteq> None \<and> pc_keeps ttl neg (the v))" by blast
  then have "ev \<in> set (rev ?evs)" "k' = k" "v \<noteq> None" by (simp_all add: e)
  with ev(2) e have "(ord, t0, k, Some r) \<in> set ?evs" by auto
  from query_events_stored [OF this] t0(2) show ?thesis by (auto simp: alive_def pc_fresh_def)
qed

lemma answer_genuine:
  "genuine ttl neg qs (w, k, ip)
    (fst (cached_info w (cache_before (new_panel_cache ttl neg m) qs) k ip))"
proof -
  let ?c = "cache_before (new_panel_cache ttl neg m) qs"
  show ?thesis
  proof (cases "pc_lookup ?c (mo_looked w) k")
    case (Some r)
    with lookup_genuine [OF Some] show ?thesis by (fastforce simp: genuine_def cached_info_def)
  next
    case None
    show ?thesis
    proof (cases "pc_lookup ?c (mo_locked w) k")
      case (Some r)
      with None lookup_genuine [OF Some] show ?thesis by (fastforce simp: genuine_def cached_info_def)
    qed (use None in \<open>simp add: genuine_def cached_info_def Let_def\<close>)
  qed
qed

section \<open>The engine behind the cache\<close>

definition behind_cache :: "engine \<Rightarrow> moment \<Rightarrow> panel_cache \<Rightarrow> engine" where
  "behind_cache e w c = e\<lparr>eng_fetcher := Some (\<lambda>k ip. fst (cached_info w c k ip))\<rparr>"

lemma fetch_info_at:
  "fetch_info (e\<lparr>eng_fetcher := Some f\<rparr>) rq needed
    = fetch_info (e\<lparr>eng_fetcher := Some (\<lambda>_ _. f (rq_short_uuid rq) (if eng_forward_real_ip e then rq_client_ip rq else []))\<rparr>) rq needed"
  by (simp add: fetch_info_def Let_def)

lemma apply_engine_at:
  "apply_engine ord (e\<lparr>eng_fetcher := Some f\<rparr>) h rq
    = apply_engine ord (e\<lparr>eng_fetcher := Some (\<lambda>_ _. f (rq_short_uuid rq) (if eng_forward_real_ip e then rq_client_ip rq else []))\<rparr>) h rq"
  using fetch_info_at [where e = e and f = f and rq = rq] by (simp add: apply_engine_def Let_def split_beta)

lemma engine_genuine:
  "\<exists>r. genuine ttl neg qs (w, rq_short_uuid rq, if eng_forward_real_ip e then rq_client_ip rq else []) r
    \<and> apply_engine ord (behind_cache e w (cache_before (new_panel_cache ttl neg m) qs)) h rq
      = apply_engine ord (e\<lparr>eng_fetcher := Some (\<lambda>_ _. r)\<rparr>) h rq"
  unfolding behind_cache_def
  by (subst apply_engine_at) (intro exI conjI, rule answer_genuine, rule refl)

text \<open>The headers of a subscription are rewritten as if the panel had answered the engine directly
  with a genuine answer about that subscription: the cache never brings in another user's data or
  data older than its time to live.\<close>

theorem engine_sees_genuine:
  "\<exists>r. genuine ttl neg qs (w, rq_short_uuid rq, if eng_forward_real_ip e then rq_client_ip rq else []) r
    \<and> apply_engine ord (behind_cache e w (cache_before (new_panel_cache ttl neg m) qs)) h rq
      = apply_engine ord (e\<lparr>eng_fetcher := Some (\<lambda>_ _. r)\<rparr>) h rq"
  by (rule engine_genuine)

section \<open>Instances\<close>

definition not_found_moment :: moment where
  "not_found_moment =
    \<lparr>mo_looked = 1, mo_locked = 2, mo_stored = 3, mo_order = rev, mo_panel = (\<lambda>_ _. Inl Not_Found)\<rparr>"

theorem lone_call_is_run_witness:
  "\<exists>s'. reachable (new_panel_cache 30 10 5) s' \<and> st_callers s' 7 = Finished ''a'' (Answer (Inl Not_Found))
    \<and> pc_len (st_cache s') = 1"
proof -
  let ?s = "initial_state (new_panel_cache 30 10 5)"
  have info: "cached_info not_found_moment (st_cache ?s) ''a'' [] = (Inl Not_Found,
      pc_store rev (new_panel_cache 30 10 5) 3 ''a'' (Inl Not_Found))"
    by (simp add: cached_info_def not_found_moment_def initial_state_def new_panel_cache_def pc_lookup_def Let_def)
  have "is_order (mo_order not_found_moment)" by (simp add: not_found_moment_def)
  then obtain s' where "reachable (new_panel_cache 30 10 5) s'" "st_callers s' 7 = Finished ''a'' (Answer (Inl Not_Found))"
    "st_cache s' = pc_store rev (new_panel_cache 30 10 5) 3 ''a'' (Inl Not_Found)"
    using lone_call_is_run [OF reachable.start _ _ _ info, of 7] by (auto simp: initial_state_def new_panel_cache_def)
  then show ?thesis
    by (intro exI [of _ s'])
      (simp add: pc_store_def answer_ttl_def pc_evict_def new_panel_cache_def pc_len_def)
qed

end
