(* ===== verification/Netip.thy ===== *)
theory Netip
  imports Realip "HOL-Library.Word"
begin

text \<open>
  The part of Go's \<open>net/netip\<close> that \<open>internal/realip\<close> uses: reading, printing, unwrapping and matching
  IP addresses, as an instance of the interface \<open>netip\<close> of Realip.  An IPv4 address is a 32 bit word,
  an IPv6 address a 128 bit word with a zone, which is empty when there is none.
\<close>

unbundle bit_operations_syntax

section \<open>Words and their parts\<close>

text \<open>The \<open>m\<close> parts of \<open>k\<close> bits of a number, the highest first, and the number they make.\<close>

fun parts_of :: "nat \<Rightarrow> nat \<Rightarrow> nat \<Rightarrow> nat list" where
  "parts_of k 0 n = []"
| "parts_of k (Suc m) n = parts_of k m (n div 2 ^ k) @ [n mod 2 ^ k]"

definition of_parts :: "nat \<Rightarrow> nat list \<Rightarrow> nat" where
  "of_parts k = foldl (\<lambda>n x. n * 2 ^ k + x) 0"

lemma of_parts_snoc [simp]: "of_parts k (xs @ [x]) = of_parts k xs * 2 ^ k + x"
  and of_parts_Nil [simp]: "of_parts k [] = 0"
  by (simp_all add: of_parts_def)

lemma length_parts_of [simp]: "length (parts_of k m n) = m"
  by (induction m arbitrary: n) auto

lemma nth_parts_of: "i < m \<Longrightarrow> parts_of k m n ! i = n div 2 ^ (k * (m - 1 - i)) mod 2 ^ k"
proof (induction m arbitrary: n)
  case (Suc m)
  show ?case
  proof (cases "i = m")
    case False
    with Suc.prems have "k + k * (m - 1 - i) = k * (Suc m - 1 - i)"
      by (simp add: Suc_diff_Suc flip: mult_Suc_right)
    then have "n div 2 ^ k div 2 ^ (k * (m - 1 - i)) = n div 2 ^ (k * (Suc m - 1 - i))"
      by (metis div_mult2_eq power_add)
    with False Suc show ?thesis by (simp add: nth_append)
  qed (simp add: nth_append)
qed simp

lemma parts_of_less: "x \<in> set (parts_of k m n) \<Longrightarrow> x < 2 ^ k"
  by (induction m arbitrary: n) auto

lemma of_parts_of: "of_parts k (parts_of k m n) = n mod 2 ^ (k * m)"
proof (induction m arbitrary: n)
  case (Suc m)
  then show ?case
    by (simp add: power_add mod_mult2_eq mult.commute)
qed simp

lemma of_parts_less: "\<forall>x \<in> set xs. x < 2 ^ k \<Longrightarrow> of_parts k xs < 2 ^ (k * length xs)"
proof (induction xs rule: rev_induct)
  case (snoc x xs)
  then have "of_parts k xs + 1 \<le> 2 ^ (k * length xs)" and "x < 2 ^ k" by simp_all
  then have "of_parts k xs * 2 ^ k + x < (of_parts k xs + 1) * 2 ^ k" by simp
  also have "\<dots> \<le> 2 ^ (k * length xs) * 2 ^ k"
    using \<open>of_parts k xs + 1 \<le> 2 ^ (k * length xs)\<close> by (rule mult_le_mono1)
  finally show ?case by (simp add: power_add mult.commute)
qed simp

lemma of_parts_zeros: "of_parts k (replicate m 0) = 0"
  by (induction m) (simp_all add: of_parts_def)

lemma parts_of_parts: "\<forall>x \<in> set xs. x < 2 ^ k \<Longrightarrow> parts_of k (length xs) (of_parts k xs) = xs"
  by (induction xs rule: rev_induct) auto

section \<open>Addresses\<close>

datatype address = V4 "32 word" | V6 "128 word" string

definition octets :: "32 word \<Rightarrow> nat list" where
  "octets w = parts_of 8 4 (unat w)"

definition v6_groups :: "128 word \<Rightarrow> nat list" where
  "v6_groups w = parts_of 16 8 (unat w)"

definition of_octets :: "nat list \<Rightarrow> 32 word" where
  "of_octets bs = of_nat (of_parts 8 bs)"

definition of_groups :: "nat list \<Rightarrow> 128 word" where
  "of_groups gs = of_nat (of_parts 16 gs)"

fun is_4in6 :: "address \<Rightarrow> bool" where
  "is_4in6 (V4 _) = False"
| "is_4in6 (V6 w _) = (drop_bit 32 w = 0xFFFF)"

fun unmap_addr :: "address \<Rightarrow> address" where
  "unmap_addr (V4 w) = V4 w"
| "unmap_addr (V6 w zone) = (if is_4in6 (V6 w zone) then V4 (ucast w) else V6 w zone)"

fun zoneless :: "address \<Rightarrow> address" where
  "zoneless (V4 w) = V4 w"
| "zoneless (V6 w _) = V6 w []"

fun has_zone :: "address \<Rightarrow> bool" where
  "has_zone (V4 _) = False"
| "has_zone (V6 _ zone) = (zone \<noteq> [])"

fun bit_len :: "address \<Rightarrow> nat" where
  "bit_len (V4 _) = 32"
| "bit_len (V6 _ _) = 128"

section \<open>Reading\<close>

definition parse_octet :: "string \<Rightarrow> nat option" where
  "parse_octet s =
    (if s = [] \<or> \<not> list_all is_digit s \<or> (length s > 1 \<and> hd s = CHR ''0'') \<or> digits_value s > 255
     then None else Some (digits_value s))"

text \<open>\<open>parseIPv4Fields\<close>: exactly four octets.\<close>

definition parse_octets :: "string \<Rightarrow> nat list option" where
  "parse_octets s =
    (let vs = map parse_octet (split_byte (CHR ''.'') s) in
     if length vs \<noteq> 4 \<or> None \<in> set vs then None else Some (map the vs))"

definition is_hex :: "char \<Rightarrow> bool" where
  "is_hex c \<longleftrightarrow> hex_value c \<noteq> None"

definition group_value :: "string \<Rightarrow> nat" where
  "group_value s = fold (\<lambda>c n. n * 16 + the (hex_value c)) s 0"

text \<open>
  The loop of \<open>parseIPv6\<close>: the groups read so far and the place of the \<open>::\<close> among them, if it has been
  seen.  A group that a dot follows starts an IPv4 address, which stands for the last two.
\<close>

function parse_groups :: "nat list \<Rightarrow> nat option \<Rightarrow> string \<Rightarrow> (nat list \<times> nat option) option" where
  "parse_groups gs ell s =
    (if 8 \<le> length gs then (if s = [] then Some (gs, ell) else None)
     else
       (let d = takeWhile is_hex s; g = group_value d in
        if d = [] \<or> 4 < length d then None
        else
          (case dropWhile is_hex s of
             [] \<Rightarrow> Some (gs @ [g], ell)
           | c # r \<Rightarrow>
               if c = CHR ''.'' then
                 (if (ell = None \<and> length gs \<noteq> 6) \<or> 8 < length gs + 2 then None
                  else map_option (\<lambda>bs. (gs @ [bs ! 0 * 256 + bs ! 1, bs ! 2 * 256 + bs ! 3], ell))
                    (parse_octets s))
               else if c \<noteq> CHR '':'' \<or> r = [] then None
               else if hd r = CHR '':'' then
                 (if ell \<noteq> None then None
                  else if tl r = [] then Some (gs @ [g], Some (length gs + 1))
                  else parse_groups (gs @ [g]) (Some (length gs + 1)) (tl r))
               else parse_groups (gs @ [g]) ell r)))"
  by pat_completeness auto
termination by (relation "measure (\<lambda>(gs, _, _). 8 - length gs)") auto

declare parse_groups.simps [simp del]

definition fill_groups :: "nat list \<Rightarrow> nat option \<Rightarrow> nat list option" where
  "fill_groups gs ell =
    (case ell of
       None \<Rightarrow> if length gs = 8 then Some gs else None
     | Some e \<Rightarrow>
         if length gs < 8 then Some (take e gs @ replicate (8 - length gs) 0 @ drop e gs) else None)"

definition parse_v6 :: "string \<Rightarrow> 128 word option" where
  "parse_v6 s =
    (if s = ''::'' then Some 0
     else
       (case (if has_prefix s ''::'' then parse_groups [] (Some 0) (drop 2 s) else parse_groups [] None s) of
          None \<Rightarrow> None
        | Some (gs, ell) \<Rightarrow> map_option of_groups (fill_groups gs ell)))"

text \<open>\<open>ParseAddr\<close>: the first of the bytes \<open>.\<close>, \<open>:\<close> and \<open>%\<close> decides; an IPv6 zone must not be empty.\<close>

definition parse_address :: "string \<Rightarrow> address option" where
  "parse_address s =
    (case find (\<lambda>c. c \<in> set ''.:%'') s of
       None \<Rightarrow> None
     | Some c \<Rightarrow>
         if c = CHR ''.'' then map_option (\<lambda>bs. V4 (of_octets bs)) (parse_octets s)
         else if c = CHR '':'' then
           (case cut ''%'' s of
              None \<Rightarrow> map_option (\<lambda>w. V6 w []) (parse_v6 s)
            | Some (a, zone) \<Rightarrow> if zone = [] then None else map_option (\<lambda>w. V6 w zone) (parse_v6 a))
         else None)"

section \<open>Printing\<close>

fun hex_digits :: "nat \<Rightarrow> string" where
  "hex_digits n = (if n < 16 then [hex_lower n] else hex_digits (n div 16) @ [hex_lower (n mod 16)])"

declare hex_digits.simps [simp del]

definition show_octets :: "nat list \<Rightarrow> string" where
  "show_octets bs = join ''.'' (map nat_digits bs)"

definition show_groups :: "nat list \<Rightarrow> string" where
  "show_groups gs = join '':'' (map hex_digits gs)"

text \<open>The first of the longest runs of at least two zero groups, as the loop of \<open>appendTo6\<close> finds it.\<close>

definition longer_run :: "nat list \<Rightarrow> nat \<times> nat \<Rightarrow> nat \<Rightarrow> nat \<times> nat" where
  "longer_run gs best i =
    (let n = length (takeWhile (\<lambda>g. g = 0) (drop i gs)) in
     if 2 \<le> n \<and> snd best - fst best < n then (i, i + n) else best)"

definition zero_run :: "nat list \<Rightarrow> nat \<times> nat" where
  "zero_run gs = foldl (longer_run gs) (255, 255) [0..<8]"

definition show_v6 :: "nat list \<Rightarrow> string" where
  "show_v6 gs =
    (let (s, e) = zero_run gs in
     if s = 255 then show_groups gs
     else show_groups (take s gs) @ ''::'' @ show_groups (drop e gs))"

definition show_zone :: "string \<Rightarrow> string" where
  "show_zone zone = (if zone = [] then [] else CHR ''%'' # zone)"

fun show_address :: "address \<Rightarrow> string" where
  "show_address (V4 w) = show_octets (octets w)"
| "show_address (V6 w zone) =
    (if is_4in6 (V6 w zone) then ''::ffff:'' @ show_octets (octets (ucast w)) else show_v6 (v6_groups w))
     @ show_zone zone"

section \<open>Prefixes\<close>

record prefix_range =
  range_addr :: address
  range_bits :: nat

text \<open>\<open>PrefixFrom\<close> for a number of bits that is in range, as it is in the two calls.\<close>

definition prefix_from :: "address \<Rightarrow> nat \<Rightarrow> prefix_range" where
  "prefix_from a bits = \<lparr>range_addr = zoneless a, range_bits = bits\<rparr>"

definition parse_range :: "string \<Rightarrow> prefix_range option" where
  "parse_range s =
    (case last_index (CHR ''/'') s of
       None \<Rightarrow> None
     | Some i \<Rightarrow>
         (case parse_address (take i s) of
            None \<Rightarrow> None
          | Some a \<Rightarrow>
              let bits = drop (i + 1) s in
              if has_zone a then None
              else if length bits > 1 \<and> \<not> (CHR ''1'' \<le> hd bits \<and> hd bits \<le> CHR ''9'') then None
              else
                (case parse_int bits of
                   None \<Rightarrow> None
                 | Some n \<Rightarrow> if n < 0 \<or> int (bit_len a) < n then None else Some (prefix_from a (nat n)))))"

fun same_network :: "nat \<Rightarrow> address \<Rightarrow> address \<Rightarrow> bool" where
  "same_network bits (V4 v) (V4 w) = (drop_bit (32 - bits) (v XOR w) = 0)"
| "same_network bits (V6 v _) (V6 w _) = (drop_bit (128 - bits) (v XOR w) = 0)"
| "same_network bits _ _ = False"

definition range_contains :: "prefix_range \<Rightarrow> address \<Rightarrow> bool" where
  "range_contains p a \<longleftrightarrow> \<not> has_zone a \<and> same_network (range_bits p) (range_addr p) a"

definition go_netip :: "(address, prefix_range) netip" where
  "go_netip =
    \<lparr>parse_addr = parse_address, unmap = unmap_addr, without_zone = zoneless, show_addr = show_address,
     parse_prefix = parse_range, single = (\<lambda>a. prefix_from a (bit_len a)), prefix_contains = range_contains\<rparr>"

section \<open>Words survive their parts\<close>

lemma length_octets [simp]: "length (octets w) = 4"
  and length_groups [simp]: "length (v6_groups v) = 8"
  by (simp_all add: octets_def v6_groups_def)

lemma octets_less: "b \<in> set (octets w) \<Longrightarrow> b < 256"
  and groups_less: "g \<in> set (v6_groups v) \<Longrightarrow> g < 65536"
  using parts_of_less [of b 8 4 "unat w"] parts_of_less [of g 16 8 "unat v"]
  by (simp_all add: octets_def v6_groups_def)

lemma of_octets_octets [simp]: "of_octets (octets w) = w"
proof -
  have "unat w < 2 ^ 32" using unsigned_less [of w] by simp
  then show ?thesis by (simp add: of_octets_def octets_def of_parts_of)
qed

lemma of_groups_groups [simp]: "of_groups (v6_groups w) = w"
proof -
  have "unat w < 2 ^ 128" using unsigned_less [of w] by simp
  then show ?thesis by (simp add: of_groups_def v6_groups_def of_parts_of)
qed

lemma mapped_groups:
  assumes "drop_bit 32 w = (0xFFFF :: 128 word)" and "octets (ucast w) = bs"
  shows "of_groups [0, 0, 0, 0, 0, 65535, bs ! 0 * 256 + bs ! 1, bs ! 2 * 256 + bs ! 3] = w"
proof -
  have "drop_bit 32 (unat w) = unat (0xFFFF :: 128 word)"
    using assms(1) by (simp only: unat_drop_bit_eq [symmetric])
  then have "unat w div 2 ^ 32 = 65535" by (simp add: drop_bit_eq_div)
  then have "unat w = 65535 * 2 ^ 32 + unat w mod 2 ^ 32" by (metis div_mult_mod_eq)
  moreover have "unat (ucast w :: 32 word) = unat w mod 2 ^ 32"
    by (simp add: unsigned_ucast_eq take_bit_eq_mod)
  then have "of_parts 8 bs = unat w mod 2 ^ 32"
    using assms(2) by (simp add: octets_def of_parts_of flip: assms(2))
  moreover obtain a b c d where "bs = [a, b, c, d]"
  proof -
    have "length bs = 4" using assms(2) by auto
    then show thesis by (auto simp: numeral_eq_Suc length_Suc_conv intro: that)
  qed
  ultimately have "of_parts 16 [0, 0, 0, 0, 0, 65535, bs ! 0 * 256 + bs ! 1, bs ! 2 * 256 + bs ! 3] = unat w"
    by (simp add: of_parts_def)
  then show ?thesis by (simp add: of_groups_def)
qed

section \<open>Reading what was printed\<close>

lemma hd_nat_digits: "0 < n \<Longrightarrow> hd (nat_digits n) \<noteq> CHR ''0''"
proof (induction n rule: nat_digits.induct)
  case (1 n)
  show ?case
  proof (cases "n < 10")
    case True
    with 1 have "byte (char_of (48 + n)) \<noteq> 48" by simp
    moreover have "byte (CHR ''0'') = 48" by (simp add: byte_def)
    ultimately have "char_of (48 + n) \<noteq> CHR ''0''" by metis
    with True show ?thesis by (simp add: nat_digits.simps [of n])
  next
    case False
    with 1 show ?thesis by (simp add: nat_digits.simps [of n])
  qed
qed

lemma parse_octet_digits: "n < 256 \<Longrightarrow> parse_octet (nat_digits n) = Some n"
proof (cases "n = 0")
  case True
  have "parse_octet (nat_digits 0) = Some 0" by code_simp
  with True show ?thesis by simp
next
  case False
  then show "n < 256 \<Longrightarrow> ?thesis"
    using hd_nat_digits [of n] nat_digits_digit [of _ n] by (auto simp: parse_octet_def list_all_iff)
qed

lemma dot_no_digit [simp]: "\<not> is_digit (CHR ''.'')"
  by (simp add: is_digit_def byte_def)

lemma split_show_octets: "length bs = 4 \<Longrightarrow> split_byte (CHR ''.'') (show_octets bs) = map nat_digits bs"
  unfolding show_octets_def by (rule split_join) (auto dest: nat_digits_digit)

lemma parse_show_octets:
  assumes "length bs = 4" and "\<And>b. b \<in> set bs \<Longrightarrow> b < 256"
  shows "parse_octets (show_octets bs) = Some bs"
proof -
  have "map parse_octet (map nat_digits bs) = map Some bs"
    using assms(2) by (simp add: parse_octet_digits)
  moreover have "map (the \<circ> Some) bs = bs" by (rule map_idI) simp
  ultimately show ?thesis using assms(1)
    by (simp only: parse_octets_def Let_def split_show_octets length_map map_map) auto
qed

lemma hex_digits_nonempty [simp]: "hex_digits n \<noteq> []"
  by (subst hex_digits.simps) simp

lemma hex_digits_hex: "c \<in> set (hex_digits n) \<Longrightarrow> is_hex c"
proof (induction n arbitrary: c rule: hex_digits.induct)
  case (1 n)
  then show ?case
    by (cases "n < 16") (auto simp: hex_digits.simps [of n] is_hex_def hex_value_lower)
qed

lemma group_value_hex [simp]: "group_value (hex_digits n) = n"
proof (induction n rule: hex_digits.induct)
  case (1 n)
  then show ?case
    by (cases "n < 16") (simp_all add: hex_digits.simps [of n] group_value_def hex_value_lower)
qed

lemma length_hex_digits: "n < 16 ^ Suc k \<Longrightarrow> length (hex_digits n) \<le> Suc k"
proof (induction k arbitrary: n)
  case 0
  then show ?case by (simp add: hex_digits.simps [of n])
next
  case (Suc k)
  then have "n div 16 < 16 ^ Suc k" by (simp add: less_mult_imp_div_less)
  with Suc.IH have "length (hex_digits (n div 16)) \<le> Suc k" by blast
  then show ?case by (simp add: hex_digits.simps [of n])
qed

lemma colon_no_hex [simp]: "\<not> is_hex (CHR '':'')"
  and dot_no_hex [simp]: "\<not> is_hex (CHR ''.'')"
  by (simp_all add: is_hex_def hex_value_def is_digit_def byte_def)

text \<open>One group and what follows it.\<close>

lemma parse_group:
  assumes "length gs < 8" and "g < 65536" and "r = [] \<or> \<not> is_hex (hd r)"
  shows "parse_groups gs ell (hex_digits g @ r) =
    (case r of
       [] \<Rightarrow> Some (gs @ [g], ell)
     | c # t \<Rightarrow>
         if c = CHR ''.'' then
           (if (ell = None \<and> length gs \<noteq> 6) \<or> 8 < length gs + 2 then None
            else map_option (\<lambda>bs. (gs @ [bs ! 0 * 256 + bs ! 1, bs ! 2 * 256 + bs ! 3], ell))
              (parse_octets (hex_digits g @ r)))
         else if c \<noteq> CHR '':'' \<or> t = [] then None
         else if hd t = CHR '':'' then
           (if ell \<noteq> None then None
            else if tl t = [] then Some (gs @ [g], Some (length gs + 1))
            else parse_groups (gs @ [g]) (Some (length gs + 1)) (tl t))
         else parse_groups (gs @ [g]) ell t)"
proof -
  have parts: "takeWhile is_hex (hex_digits g @ r) = hex_digits g"
    "dropWhile is_hex (hex_digits g @ r) = r"
    using assms(3) hex_digits_hex [of _ g]
    by (cases r; simp add: takeWhile_append2 dropWhile_append2)+
  moreover have "length (hex_digits g) \<le> 4"
    using length_hex_digits [of g 3] assms(2) by simp
  ultimately show ?thesis
    using assms(1)
    by (subst parse_groups.simps) (unfold Let_def parts group_value_hex, simp add: not_le [symmetric])
qed

lemma show_groups_Cons: "gs \<noteq> [] \<Longrightarrow> show_groups (g # gs) = hex_digits g @ CHR '':'' # show_groups gs"
  by (cases gs) (simp_all add: show_groups_def)

lemma show_groups_single [simp]: "show_groups [g] = hex_digits g"
  and show_groups_Nil [simp]: "show_groups [] = []"
  by (simp_all add: show_groups_def)

lemma show_groups_hd:
  assumes "gs \<noteq> []" shows "show_groups gs \<noteq> []" and "is_hex (hd (show_groups gs))"
proof -
  obtain g gs' where "gs = g # gs'" using assms by (cases gs) auto
  then show "show_groups gs \<noteq> []" and "is_hex (hd (show_groups gs))"
    using hex_digits_hex [of "hd (hex_digits g)" g]
    by (cases "gs' = []"; simp add: show_groups_Cons)+
qed

lemma parse_more_groups:
  assumes "hs \<noteq> []" and "length gs + length hs \<le> 8" and "\<forall>g \<in> set hs. g < 65536"
  shows "parse_groups gs ell (show_groups hs) = Some (gs @ hs, ell)"
  using assms
proof (induction hs arbitrary: gs)
  case (Cons g hs)
  show ?case
  proof (cases "hs = []")
    case True
    with Cons.prems show ?thesis using parse_group [of gs g "[]" ell] by simp
  next
    case False
    with show_groups_hd [OF False] have "hd (show_groups hs) \<noteq> CHR '':''" by auto
    moreover have "length gs < 8" using Cons.prems False by (cases hs) auto
    ultimately show ?thesis
      using Cons False parse_group [of gs g "CHR '':'' # show_groups hs" ell]
      by (simp add: show_groups_Cons show_groups_hd)
  qed
qed simp

lemma parse_until_gap:
  assumes "hs \<noteq> []" and "length gs + length hs < 8" and "\<forall>g \<in> set hs. g < 65536"
  shows "parse_groups gs None (show_groups hs @ ''::'' @ t) =
    (if t = [] then Some (gs @ hs, Some (length (gs @ hs)))
     else parse_groups (gs @ hs) (Some (length (gs @ hs))) t)"
  using assms
proof (induction hs arbitrary: gs)
  case (Cons g hs)
  show ?case
  proof (cases "hs = []")
    case True
    with Cons.prems show ?thesis using parse_group [of gs g "CHR '':'' # CHR '':'' # t" None] by simp
  next
    case False
    with show_groups_hd [OF False] have "hd (show_groups hs @ ''::'' @ t) \<noteq> CHR '':''" by auto
    moreover have "length gs < 8" using Cons.prems False by (cases hs) auto
    ultimately show ?thesis
      using Cons False parse_group [of gs g "CHR '':'' # show_groups hs @ ''::'' @ t" None]
      by (simp add: show_groups_Cons show_groups_hd)
  qed
qed simp

text \<open>The run that printing leaves out is a run of zeros.\<close>

lemma longer_run_zeros:
  assumes "best = (255, 255) \<or> fst best + 2 \<le> snd best \<and> snd best \<le> length gs
      \<and> (\<forall>j. fst best \<le> j \<and> j < snd best \<longrightarrow> gs ! j = 0)" and "i < length gs"
  shows "longer_run gs best i = (255, 255)
    \<or> fst (longer_run gs best i) + 2 \<le> snd (longer_run gs best i) \<and> snd (longer_run gs best i) \<le> length gs
      \<and> (\<forall>j. fst (longer_run gs best i) \<le> j \<and> j < snd (longer_run gs best i) \<longrightarrow> gs ! j = 0)"
proof -
  define n where "n = length (takeWhile (\<lambda>g. g = 0) (drop i gs))"
  have "n \<le> length (drop i gs)" unfolding n_def by (rule length_takeWhile_le)
  then have "i + n \<le> length gs" using assms(2) by simp
  moreover have "gs ! j = 0" if "i \<le> j" "j < i + n" for j
  proof -
    have *: "j - i < n" using that by simp
    then have "takeWhile (\<lambda>g. g = 0) (drop i gs) ! (j - i) = drop i gs ! (j - i)"
      unfolding n_def by (rule takeWhile_nth)
    moreover have "takeWhile (\<lambda>g. g = 0) (drop i gs) ! (j - i) = 0"
      using * nth_mem [of "j - i" "takeWhile (\<lambda>g. g = 0) (drop i gs)"] set_takeWhileD
      unfolding n_def by metis
    ultimately show ?thesis using that assms(2) by simp
  qed
  ultimately show ?thesis using assms(1) by (auto simp: longer_run_def Let_def n_def [symmetric])
qed

lemma zero_run_zeros:
  assumes "length gs = 8" and "zero_run gs = (s, e)"
  shows "s = 255 \<or> s + 2 \<le> e \<and> e \<le> 8 \<and> (\<forall>j. s \<le> j \<and> j < e \<longrightarrow> gs ! j = 0)"
proof -
  let ?ok = "\<lambda>best. best = (255, 255) \<or> fst best + 2 \<le> snd best \<and> snd best \<le> length gs
      \<and> (\<forall>j. fst best \<le> j \<and> j < snd best \<longrightarrow> gs ! j = (0::nat))"
  have "?ok (foldl (longer_run gs) best is)" if "?ok best" "\<forall>i \<in> set is. i < length gs" for best "is"
    using that
  proof (induction "is" arbitrary: best)
    case (Cons i "is")
    from Cons.prems have "?ok (longer_run gs best i)" using longer_run_zeros [of best gs i] by simp
    with Cons show ?case by simp
  qed simp
  from this [of "(255, 255)" "[0..<8]"] assms show ?thesis by (auto simp: zero_run_def)
qed

lemma cut_zeros:
  assumes "s \<le> e" "e \<le> length gs" and "\<forall>j. s \<le> j \<and> j < e \<longrightarrow> gs ! j = 0"
  shows "take s gs @ replicate (e - s) 0 @ drop e gs = gs"
proof (rule nth_equalityI)
  fix i assume "i < length (take s gs @ replicate (e - s) 0 @ drop e gs)"
  with assms show "(take s gs @ replicate (e - s) 0 @ drop e gs) ! i = gs ! i"
    by (auto simp: nth_append)
qed (use assms in simp)

lemma has_prefix_gap: "has_prefix (''::'' @ t) ''::''"
  by (simp add: has_prefix_def)

lemma has_prefix_hd: "has_prefix (c # s) (d # p) \<Longrightarrow> c = d"
  by (simp add: has_prefix_def)

lemma show_groups_no_gap:
  assumes "gs \<noteq> []"
  shows "\<not> has_prefix (show_groups gs @ t) ''::''" and "show_groups gs @ t \<noteq> ''::''"
  using show_groups_hd [OF assms] by (cases "show_groups gs"; auto simp: has_prefix_def)+

lemma parse_show_v6:
  assumes len: "length gs = 8" and small: "\<forall>g \<in> set gs. g < 65536"
  shows "parse_v6 (show_v6 gs) = Some (of_groups gs)"
proof -
  obtain s e where run: "zero_run gs = (s, e)" by fastforce
  show ?thesis
  proof (cases "s = 255")
    case True
    have "gs \<noteq> []" using len by auto
    with True run show ?thesis
      using show_groups_no_gap [of gs "[]"] parse_more_groups [of gs "[]" None] len small
      by (simp add: show_v6_def parse_v6_def fill_groups_def)
  next
    case False
    with zero_run_zeros [OF len run] have bounds: "s + 2 \<le> e" "e \<le> 8"
      and zeros: "\<forall>j. s \<le> j \<and> j < e \<longrightarrow> gs ! j = 0" by auto
    let ?a = "take s gs" and ?b = "drop e gs"
    have small2: "\<forall>g \<in> set ?a. g < 65536" "\<forall>g \<in> set ?b. g < 65536"
      using small set_take_subset set_drop_subset by (metis subsetD)+
    have fill: "fill_groups (?a @ ?b) (Some s) = Some gs"
      using cut_zeros [of s e gs] bounds zeros len by (simp add: fill_groups_def)
    have shown: "show_v6 gs = show_groups ?a @ ''::'' @ show_groups ?b"
      using False run by (simp add: show_v6_def)
    have tail: "parse_groups ?a (Some s) (show_groups ?b) = Some (?a @ ?b, Some s)" if "?b \<noteq> []"
      using parse_more_groups [OF that, of ?a "Some s"] small2 bounds len by simp
    show ?thesis
    proof (cases "?a = []")
      case True
      with len bounds have "s = 0" by auto
      show ?thesis
      proof (cases "?b = []")
        case True
        with fill \<open>s = 0\<close> have "gs = replicate 8 0" by (simp add: fill_groups_def)
        then have "of_groups gs = 0" by (simp only: of_groups_def of_parts_zeros) simp
        with True \<open>s = 0\<close> show ?thesis by (simp add: shown parse_v6_def)
      next
        case False
        with tail fill \<open>s = 0\<close> show_groups_hd [OF False] show ?thesis
          by (simp add: shown parse_v6_def has_prefix_gap [simplified])
      qed
    next
      case a: False
      have "parse_groups [] None (show_v6 gs) = Some (?a @ ?b, Some s)"
        using parse_until_gap [OF a, of "[]" "show_groups ?b"] small2 bounds len tail
        by (cases "?b = []") (simp_all add: shown show_groups_hd)
      with fill show_groups_no_gap [OF a, of "''::'' @ show_groups ?b"] show ?thesis
        by (simp add: shown parse_v6_def)
    qed
  qed
qed

text \<open>The bytes of a printed address.\<close>

definition v6_byte :: "char \<Rightarrow> bool" where
  "v6_byte c \<longleftrightarrow> is_hex c \<or> c = CHR '':''"

lemma set_join: "c \<in> set (join sep ps) \<Longrightarrow> c \<in> set sep \<or> (\<exists>p \<in> set ps. c \<in> set p)"
  by (induction sep ps rule: join.induct) auto

lemma show_octets_bytes: "c \<in> set (show_octets bs) \<Longrightarrow> is_digit c \<or> c = CHR ''.''"
  using set_join [of c "''.''"] nat_digits_digit by (fastforce simp: show_octets_def)

lemma show_groups_bytes: "c \<in> set (show_groups gs) \<Longrightarrow> v6_byte c"
  using set_join [of c "'':''"] hex_digits_hex by (fastforce simp: show_groups_def v6_byte_def)

lemma show_v6_bytes: "c \<in> set (show_v6 gs) \<Longrightarrow> v6_byte c"
  using show_groups_bytes [of c] by (auto simp: show_v6_def v6_byte_def split: prod.splits if_splits)

lemma join_sep: "1 < length ps \<Longrightarrow> c \<in> set sep \<Longrightarrow> c \<in> set (join sep ps)"
  by (cases "(sep, ps)" rule: join.cases) auto

lemma show_v6_colon: "length gs = 8 \<Longrightarrow> CHR '':'' \<in> set (show_v6 gs)"
  by (cases "zero_run gs") (auto simp: show_v6_def show_groups_def join_sep)

lemma show_octets_dot: "length bs = 4 \<Longrightarrow> CHR ''.'' \<in> set (show_octets bs)"
  by (simp add: show_octets_def join_sep)

lemma find_only:
  assumes "x \<in> set s" "P x" and "\<And>c. c \<in> set s \<Longrightarrow> P c \<Longrightarrow> c = x"
  shows "find P (s @ t) = Some x"
proof -
  obtain ys zs where s: "s = ys @ x # zs" "x \<notin> set ys" using split_list_first [OF assms(1)] by blast
  with assms(3) have "\<forall>c \<in> set ys. \<not> P c" by (metis in_set_conv_decomp append_assoc append_Cons)
  then have "find P ys = None" by (simp add: find_None_iff)
  then show ?thesis unfolding s(1) using \<open>P x\<close> by (simp add: find_append)
qed

section \<open>Addresses survive printing\<close>

lemma length_nat_digits: "n < 10 ^ Suc k \<Longrightarrow> length (nat_digits n) \<le> Suc k"
proof (induction k arbitrary: n)
  case 0
  then show ?case by (simp add: nat_digits.simps [of n])
next
  case (Suc k)
  then have "n div 10 < 10 ^ Suc k" by (simp add: less_mult_imp_div_less)
  with Suc.IH have "length (nat_digits (n div 10)) \<le> Suc k" by blast
  then show ?case by (simp add: nat_digits.simps [of n])
qed

lemma parse_address_v6:
  assumes "parse_v6 s = Some w" and "CHR '':'' \<in> set s" and "\<And>c. c \<in> set s \<Longrightarrow> c \<noteq> CHR ''%''"
    and first: "find (\<lambda>c. c \<in> set ''.:%'') s = Some (CHR '':'')"
  shows "parse_address (s @ show_zone zone) = Some (V6 w zone)"
proof -
  have "find (\<lambda>c. c \<in> set ''.:%'') (s @ show_zone zone) = Some (CHR '':'')"
    using first by (rule find_append_Some)
  moreover have "CHR ''%'' \<notin> set s" using assms(3) by blast
  ultimately show ?thesis
    using assms(1) cut_single_None [of "CHR ''%''" s] cut_single_append [of "CHR ''%''" s zone]
    by (simp add: parse_address_def show_zone_def)
qed

lemma percent_no_v6 [simp]: "\<not> v6_byte (CHR ''%'')" and dot_no_v6 [simp]: "\<not> v6_byte (CHR ''.'')"
  by (simp_all add: v6_byte_def is_hex_def hex_value_def is_digit_def byte_def)

lemma digit_facts: "is_digit c \<Longrightarrow> c \<notin> set ''.:%'' \<and> is_hex c"
  by (auto simp: is_digit_def byte_def is_hex_def hex_value_def)

lemma fill_last: "fill_groups [f, g, h] (Some 0) = Some [0, 0, 0, 0, 0, f, g, h]"
  by (simp add: fill_groups_def numeral_eq_Suc)

lemma parse_mapped:
  assumes "length bs = 4" "\<And>b. b \<in> set bs \<Longrightarrow> b < 256"
  shows "parse_v6 (''::ffff:'' @ show_octets bs)
    = Some (of_groups [0, 0, 0, 0, 0, 65535, bs ! 0 * 256 + bs ! 1, bs ! 2 * 256 + bs ! 3])"
proof -
  obtain b bs' where b: "bs = b # bs'" "bs' \<noteq> []" using assms(1) by (cases bs; cases "tl bs") auto
  let ?so = "show_octets bs"
  have so: "?so = nat_digits b @ CHR ''.'' # show_octets bs'"
    using b by (simp add: show_octets_def join_Cons)
  have "hex_digits 65535 = ''ffff''" by code_simp
  then have ffff: "''ffff:'' @ ?so = hex_digits 65535 @ CHR '':'' # ?so" by simp
  have "hd ?so \<noteq> CHR '':''" "?so \<noteq> []"
    using so digit_facts [OF nat_digits_digit, of "hd ?so" b] by auto
  then have "parse_groups [] (Some 0) (''ffff:'' @ ?so) = parse_groups [65535] (Some 0) ?so"
    unfolding ffff using parse_group [of "[]" 65535 "CHR '':'' # ?so" "Some 0"] by simp
  also have "\<dots> = Some ([65535, bs ! 0 * 256 + bs ! 1, bs ! 2 * 256 + bs ! 3], Some 0)"
  proof -
    have "takeWhile is_hex ?so = nat_digits b" and "dropWhile is_hex ?so = CHR ''.'' # show_octets bs'"
      unfolding so using digit_facts nat_digits_digit
      by (simp_all add: takeWhile_append2 dropWhile_append2)
    moreover have "b < 10 ^ Suc 3" using assms(2) [of b] b by simp
    then have "length (nat_digits b) \<le> 4" using length_nat_digits [of b 3] by simp
    ultimately show ?thesis
      using parse_show_octets [OF assms] by (subst parse_groups.simps) (simp add: Let_def)
  qed
  finally show ?thesis by (simp add: parse_v6_def fill_last has_prefix_def)
qed

theorem parse_show_address: "parse_address (show_address a) = Some a"
proof (cases a)
  case (V4 w)
  have "find (\<lambda>c. c \<in> set ''.:%'') (show_octets (octets w) @ []) = Some (CHR ''.'')"
    by (rule find_only) (use show_octets_dot show_octets_bytes digit_facts in \<open>force+\<close>)
  then show ?thesis
    using V4 octets_less by (simp add: parse_address_def parse_show_octets)
next
  case (V6 w zone)
  show ?thesis
  proof (cases "is_4in6 a")
    case True
    let ?bs = "octets (ucast w)"
    have "parse_address ((''::ffff:'' @ show_octets ?bs) @ show_zone zone)
        = Some (V6 (of_groups [0, 0, 0, 0, 0, 65535, ?bs ! 0 * 256 + ?bs ! 1, ?bs ! 2 * 256 + ?bs ! 3]) zone)"
    proof (rule parse_address_v6)
      show "c \<noteq> CHR ''%''" if "c \<in> set (''::ffff:'' @ show_octets ?bs)" for c
        using that show_octets_bytes [of c ?bs] digit_facts [of c] by auto
    qed (simp_all only: parse_mapped length_octets octets_less, simp_all)
    with True V6 mapped_groups [of w, OF _ refl] show ?thesis by simp
  next
    case False
    let ?s = "show_v6 (v6_groups w)"
    have "parse_address (?s @ show_zone zone) = Some (V6 w zone)"
    proof (rule parse_address_v6)
      have "find (\<lambda>c. c \<in> set ''.:%'') (?s @ []) = Some (CHR '':'')"
      proof (rule find_only)
        show "c = CHR '':''" if "c \<in> set ?s" "c \<in> set ''.:%''" for c
          using show_v6_bytes [OF that(1)] that(2) by auto
      qed (simp_all add: show_v6_colon)
      then show "find (\<lambda>c. c \<in> set ''.:%'') ?s = Some (CHR '':'')" by simp
    next
      show "c \<noteq> CHR ''%''" if "c \<in> set ?s" for c using show_v6_bytes [OF that] by auto
    next
      show "parse_v6 ?s = Some w" using parse_show_v6 [of "v6_groups w"] groups_less by simp
    qed (simp add: show_v6_colon)
    with False V6 show ?thesis by simp
  qed
qed

lemma show_zoneless_bytes: "c \<in> set (show_address (zoneless a)) \<Longrightarrow> v6_byte c \<or> c = CHR ''.''"
proof (cases a)
  case (V6 w zone)
  assume "c \<in> set (show_address (zoneless a))"
  with V6 show ?thesis
    using show_v6_bytes [of c] show_octets_bytes [of c] digit_facts [of c]
    by (auto simp: show_zone_def v6_byte_def is_hex_def hex_value_def byte_def split: if_splits)
qed (use show_octets_bytes digit_facts in \<open>auto simp: v6_byte_def\<close>)

lemma v6_byte_graphic: "v6_byte c \<or> c = CHR ''.'' \<Longrightarrow> 33 \<le> byte c \<and> byte c < 128"
  by (auto simp: v6_byte_def is_hex_def hex_value_def is_digit_def byte_def split: if_splits)

lemma show_zoneless_trim: "trim_space (show_address (zoneless a)) = show_address (zoneless a)"
  by (rule trim_space_graphic) (metis show_zoneless_bytes v6_byte_graphic)

lemma show_address_nonempty: "show_address a \<noteq> []"
proof
  assume "show_address a = []"
  with parse_show_address [of a] show False by (simp add: parse_address_def)
qed

lemma is_4in6_zoneless [simp]: "is_4in6 (zoneless a) = is_4in6 a"
  by (cases a) auto

lemma unmap_zoneless: "unmap_addr (zoneless a) = zoneless (unmap_addr a)"
  by (cases a) auto

lemma unmap_idem: "unmap_addr (unmap_addr a) = unmap_addr a"
  by (cases a) auto

lemma zoneless_idem: "zoneless (zoneless a) = zoneless a"
  by (cases a) auto

interpretation netip_lib: address_laws go_netip
  by unfold_locales
    (simp_all add: go_netip_def parse_show_address show_address_nonempty show_zoneless_trim unmap_zoneless
      unmap_idem zoneless_idem)

section \<open>The address reported\<close>

lemma unmap_not_4in6: "\<not> is_4in6 (unmap_addr a)"
  by (cases a) auto

text \<open>C31: The address the proxy reports is in canonical form: normalising it again changes nothing, and
  where it is an IP address at all it has no zone, is not an IPv4 address written as IPv6, and is
  written the one way \<open>netip\<close> prints it.\<close>

theorem client_ip_canonical:
  "normalize go_netip (client_ip go_netip r rq) = client_ip go_netip r rq
    \<and> (case parse_address (client_ip go_netip r rq) of
         None \<Rightarrow> True
       | Some a \<Rightarrow> \<not> is_4in6 a \<and> \<not> has_zone a \<and> show_address a = client_ip go_netip r rq)"
proof (cases "parse_address (client_ip go_netip r rq)")
  case (Some a)
  obtain t where t: "client_ip go_netip r rq = normalize go_netip t"
    using netip_lib.client_normal by blast
  have "normalize go_netip t \<noteq> []" using Some by (auto simp: t parse_address_def)
  with Some t netip_lib.normalize_read [of t a] obtain b
    where "a = zoneless (unmap_addr b)" "normalize go_netip t = show_address a"
    by (auto simp: go_netip_def)
  then have "\<not> is_4in6 a \<and> \<not> has_zone a \<and> show_address a = client_ip go_netip r rq"
    using t unmap_not_4in6 [of b] by (cases "unmap_addr b") auto
  then show ?thesis using Some netip_lib.client_canonical [of r rq] by simp
qed (simp add: netip_lib.client_canonical)

section \<open>What a trusted network matches\<close>

lemma trusted_go:
  "trusted go_netip r s \<longleftrightarrow>
    (\<exists>a p. parse_address s = Some a \<and> p \<in> set (nets r) \<and> range_contains p (unmap_addr a))"
  by (auto simp: trusted_def go_netip_def list_ex_iff split: option.split)

lemma drop_xor_zero: "drop_bit n (v XOR w) = 0 \<longleftrightarrow> drop_bit n v = drop_bit n (w :: 'a::len word)"
proof -
  have "x XOR y = 0 \<longleftrightarrow> x = y" for x y :: "'a word"
    by (auto simp: bit_eq_iff bit_xor_iff)
  then show ?thesis by (simp only: drop_bit_xor)
qed

lemma drop_bit_unat: "drop_bit n v = drop_bit n w \<longleftrightarrow> unat v div 2 ^ n = unat (w :: 'a::len word) div 2 ^ n"
  unfolding word_unat_eq_iff unat_drop_bit_eq by (simp only: drop_bit_eq_div)

lemma same_network_V4:
  "same_network n (V4 v) a \<longleftrightarrow> (\<exists>w. a = V4 w \<and> unat v div 2 ^ (32 - n) = unat w div 2 ^ (32 - n))"
  by (cases a) (simp_all only: same_network.simps drop_xor_zero drop_bit_unat, auto)

lemma same_network_V6:
  "same_network n (V6 v z) a \<longleftrightarrow>
    (\<exists>w z. a = V6 w z \<and> unat v div 2 ^ (128 - n) = unat w div 2 ^ (128 - n))"
  by (cases a) (simp_all only: same_network.simps drop_xor_zero drop_bit_unat, auto)

text \<open>The addresses that the three presets stand for.\<close>

fun private_address :: "address \<Rightarrow> bool" where
  "private_address (V4 w) =
    (let b = octets w in
     b ! 0 = 127 \<or> (b ! 0 = 169 \<and> b ! 1 = 254) \<or> b ! 0 = 10
     \<or> (b ! 0 = 172 \<and> 16 \<le> b ! 1 \<and> b ! 1 < 32) \<or> (b ! 0 = 192 \<and> b ! 1 = 168))"
| "private_address (V6 w zone) =
    (zone = [] \<and>
     (w = 1 \<or> (0xFE80 \<le> v6_groups w ! 0 \<and> v6_groups w ! 0 < 0xFEC0)
      \<or> (0xFC00 \<le> v6_groups w ! 0 \<and> v6_groups w ! 0 < 0xFE00)))"

definition preset_ranges :: "prefix_range list" where
  "preset_ranges = map (\<lambda>(a, n). prefix_from a n)
    [(V4 0x7F000000, 8), (V6 1 [], 128), (V4 0xA9FE0000, 16), (V6 0xFE800000000000000000000000000000 [], 10),
     (V4 0x0A000000, 8), (V4 0xAC100000, 12), (V4 0xC0A80000, 16),
     (V6 0xFC000000000000000000000000000000 [], 7)]"

lemma parse_presets:
  "parse_trust go_netip ''loopback, linklocal, uniquelocal'' = Inr (no_trust\<lparr>nets := preset_ranges\<rparr>)"
  by code_simp

lemma octet_split:
  "octets w ! 0 = unat w div 65536 div 256" "octets w ! 1 = unat w div 65536 mod 256"
proof -
  have "unat w < 2 ^ 32" using unsigned_less [of w] by simp
  then have "unat w div 65536 < 65536" by (simp add: less_mult_imp_div_less)
  moreover have "octets w ! 0 = unat w div 65536 div 256 mod 256"
    by (simp add: octets_def nth_parts_of flip: div_mult2_eq)
  ultimately show "octets w ! 0 = unat w div 65536 div 256" by (simp add: less_mult_imp_div_less)
  show "octets w ! 1 = unat w div 65536 mod 256" by (simp add: octets_def nth_parts_of)
qed

lemma group_split: "v6_groups w ! 0 = unat w div 2 ^ 112"
proof -
  have "unat w < 2 ^ 128" using unsigned_less [of w] by simp
  then have "unat w div 2 ^ 112 < 65536" by (simp add: less_mult_imp_div_less)
  then show ?thesis by (simp add: v6_groups_def nth_parts_of)
qed

lemma div_range: "0 < b \<Longrightarrow> q = a div b \<longleftrightarrow> q * b \<le> a \<and> a < (q + 1) * (b :: nat)"
  by (metis Suc_eq_plus1 div_less_iff_less_mult le_antisym less_Suc_eq_le less_eq_div_iff_mult_less_eq
      order_refl)

lemma digits_eq: "n = m \<longleftrightarrow> n div 256 = m div 256 \<and> n mod 256 = m mod (256 :: nat)"
  by (metis mult_div_mod_eq)

lemma private_V4:
  "(\<exists>p \<in> set preset_ranges. range_contains p (V4 w)) \<longleftrightarrow> private_address (V4 w)"
proof -
  define q where "q = unat w div 65536"
  have 24: "unat w div 16777216 = q div 256" and 20: "unat w div 1048576 = q div 16"
    by (simp_all add: q_def flip: div_mult2_eq)
  have "(\<exists>p \<in> set preset_ranges. range_contains p (V4 w)) \<longleftrightarrow>
      q div 256 = 127 \<or> q = 43518 \<or> q div 256 = 10 \<or> q div 16 = 2753 \<or> q = 49320"
    by (simp add: preset_ranges_def range_contains_def prefix_from_def same_network_V4 same_network_V6
        24 20 eq_commute [of _ "q div _"] eq_commute [of _ q] flip: q_def)
  also have "\<dots> \<longleftrightarrow> private_address (V4 w)"
  proof -
    define b c where "b = q div 256" and "c = q mod 256"
    then have q: "q = 256 * b + c" "c < 256" by simp_all
    have "b = 172" if "44048 \<le> q" "q < 44064" using div_range [of 256 172 q] that by (simp add: b_def)
    then have "44048 \<le> q \<and> q < 44064 \<longleftrightarrow> b = 172 \<and> 16 \<le> c \<and> c < 32"
      using q(1) by (cases "b = 172") auto
    then have "2753 = q div 16 \<longleftrightarrow> b = 172 \<and> 16 \<le> c \<and> c < 32" by (subst div_range) simp_all
    then have "q div 16 = 2753 \<longleftrightarrow> b = 172 \<and> 16 \<le> c \<and> c < 32" by metis
    moreover have "q = 43518 \<longleftrightarrow> b = 169 \<and> c = 254" "q = 49320 \<longleftrightarrow> b = 192 \<and> c = 168"
      unfolding b_def c_def by (simp_all add: digits_eq [of q])
    ultimately show ?thesis
      unfolding private_address.simps octet_split Let_def q_def [symmetric]
        b_def [symmetric] c_def [symmetric] by auto
  qed
  finally show ?thesis .
qed

lemma private_V6:
  "(\<exists>p \<in> set preset_ranges. range_contains p (V6 w zone)) \<longleftrightarrow> private_address (V6 w zone)"
proof -
  define g where "g = unat w div 2 ^ 112"
  have 118: "unat w div 2 ^ 118 = g div 64" and 121: "unat w div 2 ^ 121 = g div 512"
    unfolding g_def div_mult2_eq [symmetric] by simp_all
  have one: "1 = unat w \<longleftrightarrow> w = 1" by (metis unat_1 word_unat_eq_iff)
  have "(\<exists>p \<in> set preset_ranges. range_contains p (V6 w zone)) \<longleftrightarrow>
      zone = [] \<and> (1 = unat w \<or> 1018 = g div 64 \<or> 126 = g div 512)"
    unfolding 118 [symmetric] 121 [symmetric]
    by (simp add: preset_ranges_def range_contains_def prefix_from_def same_network_V4 same_network_V6)
  also have "\<dots> \<longleftrightarrow> private_address (V6 w zone)"
  proof -
    have "1018 = g div 64 \<longleftrightarrow> 0xFE80 \<le> g \<and> g < 0xFEC0" "126 = g div 512 \<longleftrightarrow> 0xFC00 \<le> g \<and> g < 0xFE00"
      by (simp_all add: div_range)
    then show ?thesis unfolding private_address.simps group_split g_def [symmetric] one by simp
  qed
  finally show ?thesis .
qed

text \<open>The three presets of \<open>TRUST_PROXY\<close> parse, and together they trust exactly the loopback,
  link-local and private addresses, whether an IPv4 address comes as such or written as IPv6.\<close>

theorem presets_trust_private:
  "(case parse_trust go_netip ''loopback, linklocal, uniquelocal'' of
      Inl _ \<Rightarrow> False
    | Inr r \<Rightarrow> \<forall>a. trusted go_netip r (show_address a) \<longleftrightarrow> private_address (unmap_addr a))"
proof -
  have "(\<exists>p \<in> set preset_ranges. range_contains p a) \<longleftrightarrow> private_address a" for a
    by (cases a) (simp_all only: private_V4 private_V6)
  then show ?thesis
    by (simp add: parse_presets trusted_go parse_show_address no_trust_def Bex_def)
qed

lemma drop_bit_more: "drop_bit m v = drop_bit m w \<Longrightarrow> m \<le> n \<Longrightarrow> drop_bit n v = drop_bit n (w :: 'a::len word)"
  by (metis drop_bit_drop_bit le_add_diff_inverse2)

text \<open>An entry of \<open>TRUST_PROXY\<close> that writes an IPv4 address or network as IPv6 is accepted, and
  matches nothing: \<open>trusted\<close> unwraps the address and not the network.\<close>

theorem mapped_entry_dead:
  assumes "parse_token go_netip tok = Inr [p]" and "is_4in6 (range_addr p)" and "96 \<le> range_bits p"
  shows "\<not> trusted go_netip (no_trust\<lparr>nets := [p]\<rparr>) s"
proof
  assume "trusted go_netip (no_trust\<lparr>nets := [p]\<rparr>) s"
  then obtain a where "range_contains p (unmap_addr a)" by (auto simp: trusted_go no_trust_def)
  moreover obtain v z where v: "range_addr p = V6 v z" "drop_bit 32 v = 0xFFFF"
    using assms(2) by (cases "range_addr p") auto
  ultimately obtain w z' where w: "unmap_addr a = V6 w z'"
    and "drop_bit (128 - range_bits p) v = drop_bit (128 - range_bits p) w"
    by (cases "unmap_addr a") (simp_all only: range_contains_def same_network.simps drop_xor_zero, auto)
  then have "drop_bit 32 w = 0xFFFF" using drop_bit_more [of _ v w 32] assms(3) v(2) by simp
  with w unmap_not_4in6 [of a] show False by simp
qed

theorem mapped_entry_dead_witness:
  "parse_trust go_netip ''::ffff:10.0.0.1'' = Inr (no_trust\<lparr>nets := [prefix_from (V6 0xFFFF0A000001 []) 128]\<rparr>)
    \<and> \<not> trusted go_netip (no_trust\<lparr>nets := [prefix_from (V6 0xFFFF0A000001 []) 128]\<rparr>) ''10.0.0.1''"
proof
  show "parse_trust go_netip ''::ffff:10.0.0.1'' = Inr (no_trust\<lparr>nets := [prefix_from (V6 0xFFFF0A000001 []) 128]\<rparr>)"
    by code_simp
  have "parse_token go_netip ''::ffff:10.0.0.1'' = Inr [prefix_from (V6 0xFFFF0A000001 []) 128]"
    by code_simp
  then show "\<not> trusted go_netip (no_trust\<lparr>nets := [prefix_from (V6 0xFFFF0A000001 []) 128]\<rparr>) ''10.0.0.1''"
    by (rule mapped_entry_dead) code_simp+
qed

end
