(* ===== verification/Logging.thy ===== *)
theory Logging
  imports Case_Facts
begin

text \<open>
  File \<open>internal/logging/logging.go\<close> and the records handed to it: a level, a message and attributes, as
  the calls of \<open>slog\<close> in the program name them.  What a record looks like in text or in JSON is the
  work of the handlers of \<open>slog\<close>, which are left out.
\<close>

section \<open>Levels\<close>

datatype level = Level_Debug | Level_Info | Level_Warn | Level_Error

text \<open>The levels are ordered as \<open>slog\<close> orders them, by their numbers; a handler writes what is at its level or above.\<close>

fun level_value :: "level \<Rightarrow> int" where
  "level_value Level_Debug = - 4"
| "level_value Level_Info = 0"
| "level_value Level_Warn = 4"
| "level_value Level_Error = 8"

instantiation level :: linorder
begin

definition less_eq_level :: "level \<Rightarrow> level \<Rightarrow> bool" where
  "less_eq_level a b \<longleftrightarrow> level_value a \<le> level_value b"

definition less_level :: "level \<Rightarrow> level \<Rightarrow> bool" where
  "less_level a b \<longleftrightarrow> level_value a < level_value b"

instance
proof
  fix a b :: level
  show "a \<le> b \<Longrightarrow> b \<le> a \<Longrightarrow> a = b" by (cases a; cases b) (simp_all add: less_eq_level_def)
qed (auto simp: less_eq_level_def less_level_def)

end

definition parse_level :: "string \<Rightarrow> level" where
  "parse_level s =
    (let l = to_lower (trim_space s) in
     if l = ''debug'' then Level_Debug
     else if l = ''warn'' \<or> l = ''warning'' then Level_Warn
     else if l = ''error'' then Level_Error
     else Level_Info)"

definition level_enabled :: "level \<Rightarrow> level \<Rightarrow> bool" where
  "level_enabled minimum l \<longleftrightarrow> minimum \<le> l"

definition new_logger :: "string \<Rightarrow> string \<Rightarrow> bool \<times> level" where
  "new_logger level format = (equal_fold format ''json'', parse_level level)"

text \<open>Errors are written at every level that can be configured, and a lower level writes more.\<close>

lemma errors_always_written: "level_enabled (parse_level s) Level_Error"
  by (cases "parse_level s") (simp_all add: level_enabled_def less_eq_level_def)

lemma lower_level_writes_more: "a \<le> b \<Longrightarrow> level_enabled b l \<Longrightarrow> level_enabled a l"
  by (simp add: level_enabled_def)

section \<open>Records\<close>

text \<open>The values of attributes; \<open>'e\<close> are the errors that are logged.\<close>

datatype 'e log_value =
    Log_Text string
  | Log_Number int
  | Log_Flag bool
  | Log_Error 'e

record 'e log_entry =
  le_level :: level
  le_message :: string
  le_attrs :: "(string \<times> 'e log_value) list"

definition logged :: "level \<Rightarrow> string \<Rightarrow> (string \<times> 'e log_value) list \<Rightarrow> 'e log_entry" where
  "logged l m attrs = \<lparr>le_level = l, le_message = m, le_attrs = attrs\<rparr>"

definition written :: "level \<Rightarrow> 'e log_entry list \<Rightarrow> 'e log_entry list" where
  "written minimum entries = filter (\<lambda>e. level_enabled minimum (le_level e)) entries"

lemma logged_parts [simp]:
  "le_level (logged l m attrs) = l" "le_message (logged l m attrs) = m" "le_attrs (logged l m attrs) = attrs"
  by (simp_all add: logged_def)

text \<open>The attributes of all records.\<close>

definition attrs_of :: "'e log_entry list \<Rightarrow> (string \<times> 'e log_value) set" where
  "attrs_of entries = (\<Union>e \<in> set entries. set (le_attrs e))"

lemma attrs_of_simps [simp]:
  "attrs_of [] = {}" "attrs_of (e # es) = set (le_attrs e) \<union> attrs_of es"
  "attrs_of (es @ es') = attrs_of es \<union> attrs_of es'"
  by (auto simp: attrs_of_def)

text \<open>The messages of all records.\<close>

definition messages_of :: "'e log_entry list \<Rightarrow> string set" where
  "messages_of entries = le_message ` set entries"

lemma messages_of_simps [simp]:
  "messages_of [] = {}" "messages_of (e # es) = insert (le_message e) (messages_of es)"
  "messages_of (es @ es') = messages_of es \<union> messages_of es'"
  by (simp_all add: messages_of_def image_Un)

lemma messages_of_written: "messages_of (written l es) \<subseteq> messages_of es"
  by (auto simp: messages_of_def written_def)

lemma attrs_of_written: "attrs_of (written l es) \<subseteq> attrs_of es"
  by (auto simp: attrs_of_def written_def)

end
