(* ===== verification/App.thy ===== *)
theory App
  imports Config_Load Proxy Panel_Access Netip Logging
begin

text \<open>
  File \<open>cmd/subpage-proxy/main.go\<close>: building the handler from a loaded configuration, the health
  endpoint and the probe of it, and the servers from their start to their end.  The panel access is
  a parameter of the handler, for which \<open>live_access\<close> is the client behind its cache; the drawing of
  random numbers, dialling and the HTTP client of the probe are parameters too.  Signals and
  sockets are left out, and what is logged on the way is in \<open>Start_Log\<close>.
\<close>

section \<open>The handler\<close>

type_synonym panel_access = "panel_options \<Rightarrow> duration \<Rightarrow> duration \<Rightarrow> int \<Rightarrow> fetcher"

definition panel_options_of :: "panel_conf \<Rightarrow> panel_options" where
  "panel_options_of p =
    \<lparr>base_url = pn_url p, token = pn_token p, timeout = pn_timeout p, caddy_auth_token = pn_caddy p,
     cloudflare_id = pn_cloudflare_id p, cloudflare_secret = pn_cloudflare_secret p\<rparr>"

definition new_fetcher :: "panel_access \<Rightarrow> config \<Rightarrow> fetcher option" where
  "new_fetcher access cfg =
    (if \<not> pn_enabled (cfg_panel cfg) then None
     else Some (access (panel_options_of (cfg_panel cfg)) (ca_ttl (cfg_cache cfg))
       (ca_negative_ttl (cfg_cache cfg)) (ca_max_entries (cfg_cache cfg))))"

text \<open>The client behind its cache, at one moment of the program, after the calls made so far.\<close>

definition live_access :: "network \<Rightarrow> string \<Rightarrow> moment \<Rightarrow> query list \<Rightarrow> panel_access" where
  "live_access net version w qs opts ttl neg m =
    (\<lambda>k ip. fst (cached_info (w\<lparr>mo_panel := subscription_info net (the (new_client version opts))\<rparr>)
      (cache_before (new_panel_cache ttl neg m) qs) k ip))"

text \<open>The URL that \<open>Load\<close> requires, so that it is never missing here.\<close>

definition upstream_url :: "config \<Rightarrow> url" where
  "upstream_url cfg =
    (case up_url (cfg_upstream cfg) of
       Some u \<Rightarrow> u | None \<Rightarrow> \<lparr>url_scheme = [], url_host = [], url_path = []\<rparr>)"

datatype handler_error = Bad_Trust trust_error | Bad_Patterns "string list"

definition new_handler ::
    "('a, 'p) netip \<Rightarrow> compiler \<Rightarrow> time_lib \<Rightarrow> panel_access \<Rightarrow> (nat \<Rightarrow> nat \<Rightarrow> nat) \<Rightarrow> config
      \<Rightarrow> handler_error + 'p proxy" where
  "new_handler ip cc clock access draw cfg =
    (case parse_trust ip (trust_proxy (cfg_upstream cfg)) of
       Inl e \<Rightarrow> Inl (Bad_Trust e)
     | Inr resolver \<Rightarrow>
         (case new_blocker cc (block_opt (cfg_file cfg)) (sub_prefix (cfg_upstream cfg)) of
            Inl e \<Rightarrow> Inl (Bad_Patterns e)
          | Inr blocker \<Rightarrow>
              (case compile_hosts cc (hosts_opt (cfg_file cfg)) of
                 Inl e \<Rightarrow> Inl (Bad_Patterns e)
               | Inr groups \<Rightarrow>
                   (case new_agent_filter cc (user_agents_opt (cfg_file cfg)) of
                      Inl e \<Rightarrow> Inl (Bad_Patterns e)
                    | Inr agents \<Rightarrow>
                        (let s = cfg_sub_cache cfg;
                             sub = (if sc_enabled s
                               then Some (new_sub_cache (sc_ttl s) (sc_max_bytes s) (sc_max_body s)) else None)
                         in Inr (new_proxy
                           \<lparr>opt_upstream = upstream_url cfg,
                            opt_sub_prefix = sub_prefix (cfg_upstream cfg),
                            opt_engine = Some (new_engine
                              \<lparr>eo_file = cfg_file cfg, eo_fetcher = new_fetcher access cfg,
                               eo_always_fetch = pn_always_fetch (cfg_panel cfg),
                               eo_forward_real_ip = pn_forward_real_ip (cfg_panel cfg)\<rparr> clock),
                            opt_real_ip = resolver, opt_blocker = Some blocker, opt_sub_cache = sub,
                            opt_shuffler = Some \<lparr>sh_groups = groups, sh_draw = draw\<rparr>,
                            opt_user_agents = Some agents,
                            opt_force_https = force_https (cfg_upstream cfg)\<rparr>))))))"

section \<open>Health\<close>

definition join_host_port :: "string \<Rightarrow> string \<Rightarrow> string" where
  "join_host_port host port =
    (if CHR '':'' \<in> set host then ''['' @ host @ '']:'' @ port else host @ '':'' @ port)"

definition probe_address :: "string \<Rightarrow> string" where
  "probe_address upstream_host =
    (case split_host_port upstream_host of
       Some _ \<Rightarrow> upstream_host | None \<Rightarrow> join_host_port upstream_host ''80'')"

datatype health_path = Healthz | Readyz

text \<open>Status and body; \<open>dial\<close> answers with the text of its error, if there is one.\<close>

definition health_handler :: "(string \<Rightarrow> string option) \<Rightarrow> string \<Rightarrow> health_path \<Rightarrow> nat \<times> string" where
  "health_handler dial upstream_host path =
    (case path of
       Healthz \<Rightarrow> (200, ''ok'' @ [CHR 0x0A])
     | Readyz \<Rightarrow>
         (case dial (probe_address upstream_host) of
            Some e \<Rightarrow> (503, ''upstream unreachable: '' @ e @ [CHR 0x0A])
          | None \<Rightarrow> (200, ''ok'' @ [CHR 0x0A])))"

text \<open>The probe: its exit code, where \<open>get\<close> answers with the status, or nothing when it fails.\<close>

definition healthcheck_port :: "environ \<Rightarrow> string" where
  "healthcheck_port env = (case env ''HEALTH_PORT'' of Some p \<Rightarrow> if p = [] then ''3021'' else p | None \<Rightarrow> ''3021'')"

definition run_healthcheck :: "environ \<Rightarrow> (string \<Rightarrow> nat option) \<Rightarrow> nat" where
  "run_healthcheck env get =
    (let port = healthcheck_port env in
     if port = ''0'' then 0
     else
       (case get (''http://127.0.0.1:'' @ port @ ''/healthz'') of
          None \<Rightarrow> 1
        | Some code \<Rightarrow> if code \<noteq> 200 then 1 else 0))"

section \<open>Serving and shutting down\<close>

text \<open>
  What \<open>serve\<close> returns: the first error of a listener, if one comes before the signal, and otherwise
  what shutting the servers down in reverse order leaves in \<open>firstErr\<close>.
\<close>

definition shutdown_servers :: "('s \<Rightarrow> string option) \<Rightarrow> 's list \<Rightarrow> string option" where
  "shutdown_servers shutdown servers =
    fold (\<lambda>s err. case shutdown s of Some e \<Rightarrow> Some (''graceful shutdown: '' @ e) | None \<Rightarrow> err)
      (rev servers) None"

definition serve :: "('s \<Rightarrow> string option) \<Rightarrow> string option \<Rightarrow> 's list \<Rightarrow> string option" where
  "serve shutdown listener_error servers =
    (case listener_error of Some e \<Rightarrow> Some e | None \<Rightarrow> shutdown_servers shutdown servers)"

definition or_none :: "string \<Rightarrow> string" where
  "or_none s = (if s = [] then ''(none)'' else s)"

text \<open>
  \<open>run\<close>: the configuration, the handler, the servers.  The public server carries the proxy, the health
  server, when it has an address, the health handler of the upstream's host.
\<close>

datatype 'p srv_handler = Public "'p proxy" | Health "(string \<Rightarrow> string option) \<Rightarrow> health_path \<Rightarrow> nat \<times> string"

record 'p server =
  srv_addr :: string
  srv_handler :: "'p srv_handler"
  srv_header_timeout :: duration
  srv_read_timeout :: duration
  srv_write_timeout :: duration
  srv_idle_timeout :: duration

definition upstream_host :: "config \<Rightarrow> string" where
  "upstream_host cfg = url_host (upstream_url cfg)"

definition servers_of :: "config \<Rightarrow> 'p proxy \<Rightarrow> 'p server list" where
  "servers_of cfg handler =
    (let h = cfg_http cfg in
     \<lparr>srv_addr = http_addr h, srv_handler = Public handler, srv_header_timeout = read_timeout h,
      srv_read_timeout = read_timeout h, srv_write_timeout = write_timeout h, srv_idle_timeout = idle_timeout h\<rparr>
     # (if health_addr h = [] then []
        else [\<lparr>srv_addr = health_addr h, srv_handler = Health (\<lambda>dial. health_handler dial (upstream_host cfg)),
               srv_header_timeout = 5 * second, srv_read_timeout = 0, srv_write_timeout = 0,
               srv_idle_timeout = 0\<rparr>]))"

datatype run_error = Not_Loaded startup_error | Not_Built handler_error | Not_Served string

definition run ::
    "(startup_error + config) \<Rightarrow> (config \<Rightarrow> handler_error + 'p proxy) \<Rightarrow> ('p server list \<Rightarrow> string option)
      \<Rightarrow> ('p server \<Rightarrow> string option) \<Rightarrow> run_error option" where
  "run loaded setup_handler listener_error shutdown =
    (case loaded of
       Inl e \<Rightarrow> Some (Not_Loaded e)
     | Inr cfg \<Rightarrow>
         (case setup_handler cfg of
            Inl e \<Rightarrow> Some (Not_Built e)
          | Inr handler \<Rightarrow>
              (let servers = servers_of cfg handler
               in map_option Not_Served (serve shutdown (listener_error servers) servers))))"

text \<open>
  \<open>main\<close>: the exit code and what is printed, for the two flags, the version, the probe and the outcome of
  \<open>run\<close>.
\<close>

datatype printed = Stdout string | Stderr string

definition version_line :: "string \<Rightarrow> string \<Rightarrow> string \<Rightarrow> string" where
  "version_line version commit date =
    ''remnawave-subpage-proxy '' @ version @ '' (commit '' @ commit @ '', built '' @ date @ '')'' @ [CHR 0x0A]"

definition main_exit ::
    "bool \<Rightarrow> bool \<Rightarrow> string \<Rightarrow> nat \<Rightarrow> (run_error \<Rightarrow> string) \<Rightarrow> run_error option \<Rightarrow> nat \<times> printed list" where
  "main_exit show_version healthcheck version_text probe describe result =
    (if show_version then (0, [Stdout version_text])
     else if healthcheck then (probe, [])
     else
       (case result of
          Some e \<Rightarrow> (1, [Stderr (''fatal: '' @ describe e @ [CHR 0x0A])])
        | None \<Rightarrow> (0, [])))"

section \<open>Starting\<close>

lemma valid_file_compiles:
  assumes "valid_file cc f"
  obtains b g a where "new_blocker cc (block_opt f) pfx = Inr b" "compile_hosts cc (hosts_opt f) = Inr g"
    "new_agent_filter cc (user_agents_opt f) = Inr a"
proof -
  from assms obtain res g agents where "compile_block cc (block_opt f) = Inr res"
    "compile_hosts cc (hosts_opt f) = Inr g" "compile_user_agents cc (user_agents_opt f) = Inr agents"
    by (auto simp: valid_file_def)
  with that show thesis by (cases agents) (simp add: new_blocker_def new_agent_filter_def)
qed

lemma config_starts:
  assumes "load_config url_parse cc load_zone ord dec read_file env = Inr cfg" "is_order ord"
  shows "case new_handler ip cc clock access draw cfg of
      Inl e \<Rightarrow> (\<exists>t. e = Bad_Trust t \<and> parse_trust ip (trust_proxy (cfg_upstream cfg)) = Inl t)
    | Inr p \<Rightarrow>
        (case opt_sub_cache (px_options p) of
           None \<Rightarrow> \<not> sc_enabled (cfg_sub_cache cfg)
         | Some c \<Rightarrow> sc_enabled (cfg_sub_cache cfg) \<and> sub_ok c \<and> sub_entries c = []
             \<and> 0 < sub_ttl c \<and> 0 < max_body c \<and> max_body c \<le> max_bytes c)
        \<and> (\<exists>e. px_engine p = Some e \<and> (eng_fetcher e = None \<longleftrightarrow> \<not> pn_enabled (cfg_panel cfg)))"
proof -
  from load_config_good [OF assms] have good: "good_config cc cfg" .
  then have "valid_file cc (cfg_file cfg)" by (simp add: good_config_def)
  then obtain b g a where compiled: "new_blocker cc (block_opt (cfg_file cfg)) (sub_prefix (cfg_upstream cfg)) = Inr b"
    "compile_hosts cc (hosts_opt (cfg_file cfg)) = Inr g"
    "new_agent_filter cc (user_agents_opt (cfg_file cfg)) = Inr a"
    by (rule valid_file_compiles)
  show ?thesis
  proof (cases "parse_trust ip (trust_proxy (cfg_upstream cfg))")
    case (Inl t)
    then show ?thesis by (simp add: new_handler_def)
  next
    case (Inr r)
    with good compiled show ?thesis
      by (auto simp: new_handler_def Let_def new_proxy_def new_engine_def new_fetcher_def
          new_sub_cache_def sub_ok_def gomap_ok_def good_config_def)
  qed
qed

text \<open>C36: With what the configuration check accepts the handler can be built, unless \<open>TRUST_PROXY\<close> makes no
  sense, which only \<open>newHandler\<close> finds out.  The proxy has a fallback cache exactly when one is enabled,
  an empty one with a budget that holds at least one body of the greatest size, and it asks the
  panel only when that is enabled.  The listeners, which can still refuse the port, are not part of
  this.\<close>

theorem loaded_config_starts:
  assumes "load_config url_parse cc load_zone ord dec read_file env = Inr cfg" "is_order ord"
  shows "case new_handler ip cc clock access draw cfg of
      Inl e \<Rightarrow> (\<exists>t. e = Bad_Trust t \<and> parse_trust ip (trust_proxy (cfg_upstream cfg)) = Inl t)
    | Inr p \<Rightarrow>
        (case opt_sub_cache (px_options p) of
           None \<Rightarrow> \<not> sc_enabled (cfg_sub_cache cfg)
         | Some c \<Rightarrow> sc_enabled (cfg_sub_cache cfg) \<and> sub_ok c \<and> sub_entries c = []
             \<and> 0 < sub_ttl c \<and> 0 < max_body c \<and> max_body c \<le> max_bytes c)
        \<and> (\<exists>e. px_engine p = Some e \<and> (eng_fetcher e = None \<longleftrightarrow> \<not> pn_enabled (cfg_panel cfg)))"
  using assms by (rule config_starts)

theorem loaded_config_starts_witness:
  "\<exists>cfg p. load_config sample_url (\<lambda>p. Inr (\<lambda>s. s = p)) Some rev (\<lambda>_ f. (f, None)) (\<lambda>_. File_Missing) sample_environ
      = Inr cfg
    \<and> new_handler go_netip (\<lambda>p. Inr (\<lambda>s. s = p)) sample_time_lib (\<lambda>_ _ _ _ _ _. Inl Not_Found) (\<lambda>_ _. 0) cfg = Inr p
    \<and> (\<exists>e. px_engine p = Some e \<and> (eng_fetcher e = None \<longleftrightarrow> \<not> pn_enabled (cfg_panel cfg)))"
proof -
  let ?load = "load_config sample_url (\<lambda>p. Inr (\<lambda>s. s = p)) Some rev (\<lambda>_ f. (f, None)) (\<lambda>_. File_Missing) sample_environ"
  have "snd (load_values sample_url sample_environ) = []" by code_simp
  then obtain cfg where cfg: "?load = Inr cfg"
    by (auto simp: load_config_def or_nil_def load_file_def split_beta sample_environ_def lookup_env_def)
  from loaded_values [OF cfg] obtain f skipped path where
    "cfg = (fst (load_values sample_url sample_environ))\<lparr>cfg_file := f, cfg_path := path, cfg_skipped := skipped\<rparr>"
    by metis
  moreover have "trust_proxy (cfg_upstream (fst (load_values sample_url sample_environ))) = ''1''" by code_simp
  moreover have "\<exists>r. parse_trust go_netip ''1'' = Inr r"
  proof -
    have "parse_int (trim_space ''1'') = Some 1" "trim_space ''1'' \<noteq> []" "to_lower (trim_space ''1'') \<noteq> ''true''"
      "to_lower (trim_space ''1'') \<noteq> ''false''" by code_simp+
    then show ?thesis by (simp add: parse_trust_def Let_def)
  qed
  ultimately have "\<exists>r. parse_trust go_netip (trust_proxy (cfg_upstream cfg)) = Inr r" by simp
  with loaded_config_starts [OF cfg, where ip = go_netip
      and clock = sample_time_lib and access = "\<lambda>_ _ _ _ _ _. Inl Not_Found" and draw = "\<lambda>_ _. 0"]
  obtain p where "new_handler go_netip (\<lambda>p. Inr (\<lambda>s. s = p)) sample_time_lib (\<lambda>_ _ _ _ _ _. Inl Not_Found)
      (\<lambda>_ _. 0) cfg = Inr p"
    "\<exists>e. px_engine p = Some e \<and> (eng_fetcher e = None \<longleftrightarrow> \<not> pn_enabled (cfg_panel cfg))"
    by (auto split: sum.splits)
  with cfg show ?thesis by (intro exI [of _ cfg] exI [of _ p] conjI)
qed

text \<open>C4: The program put together: with panel access in a loaded configuration, the engine of the handler
  rewrites headers as if the panel had answered it directly, about the subscription of the
  request, with an answer the client of this configuration got now or that is still within the
  configured time to live.\<close>

theorem wired_engine:
  assumes "load_config url_parse cc load_zone ord dec read_file env = Inr cfg" "is_order ord"
    and "pn_enabled (cfg_panel cfg)"
    and "new_handler ip cc clock (live_access net version w qs) draw cfg = Inr p"
  shows "\<exists>e client. px_engine p = Some e
    \<and> new_client version (panel_options_of (cfg_panel cfg)) = Some client
    \<and> (\<forall>hord h rq. \<exists>r.
        genuine (ca_ttl (cfg_cache cfg)) (ca_negative_ttl (cfg_cache cfg)) qs
          (w\<lparr>mo_panel := subscription_info net client\<rparr>, rq_short_uuid rq,
           if pn_forward_real_ip (cfg_panel cfg) then rq_client_ip rq else []) r
        \<and> apply_engine hord e h rq = apply_engine hord (e\<lparr>eng_fetcher := Some (\<lambda>_ _. r)\<rparr>) h rq)"
proof -
  from load_config_good [OF assms(1,2)] assms(3) obtain u where "pn_url (cfg_panel cfg) = Some u"
    by (auto simp: good_config_def)
  then obtain client where client: "new_client version (panel_options_of (cfg_panel cfg)) = Some client"
    by (simp add: new_client_def panel_options_of_def)
  define e where "e = new_engine
      \<lparr>eo_file = cfg_file cfg, eo_fetcher = new_fetcher (live_access net version w qs) cfg,
       eo_always_fetch = pn_always_fetch (cfg_panel cfg),
       eo_forward_real_ip = pn_forward_real_ip (cfg_panel cfg)\<rparr> clock"
  have engine: "px_engine p = Some e"
    using assms(4) by (auto simp: new_handler_def new_proxy_def Let_def e_def split: sum.splits)
  let ?w = "w\<lparr>mo_panel := subscription_info net client\<rparr>"
  let ?c = "cache_before (new_panel_cache (ca_ttl (cfg_cache cfg)) (ca_negative_ttl (cfg_cache cfg))
      (ca_max_entries (cfg_cache cfg))) qs"
  have "behind_cache e ?w ?c = e"
    using assms(3) client
    by (simp add: behind_cache_def e_def new_engine_def new_fetcher_def live_access_def Let_def)
  moreover have "eng_forward_real_ip e = pn_forward_real_ip (cfg_panel cfg)"
    by (simp add: e_def new_engine_def Let_def)
  ultimately show ?thesis
    using engine client engine_genuine [of "ca_ttl (cfg_cache cfg)" "ca_negative_ttl (cfg_cache cfg)" qs ?w _ e
        _ "ca_max_entries (cfg_cache cfg)"]
    by (intro exI [of _ e] exI [of _ client]) auto
qed

definition panel_environ :: environ where
  "panel_environ = map_of [(''UPSTREAM_URL'', ''http://page:3010/''), (''REMNAWAVE_PANEL_URL'', ''http://page:3010/''),
    (''REMNAWAVE_API_TOKEN'', ''secret'')]"

theorem wired_engine_witness:
  "\<exists>cfg p e client r. new_handler go_netip (\<lambda>p. Inr (\<lambda>s. s = p)) sample_time_lib
      (live_access (sample_net 200) ''1.0'' not_found_moment []) (\<lambda>_ _. 0) cfg = Inr p
    \<and> px_engine p = Some e \<and> new_client ''1.0'' (panel_options_of (cfg_panel cfg)) = Some client
    \<and> genuine (ca_ttl (cfg_cache cfg)) (ca_negative_ttl (cfg_cache cfg)) []
        (not_found_moment\<lparr>mo_panel := subscription_info (sample_net 200) client\<rparr>, rq_short_uuid sample_request,
         if pn_forward_real_ip (cfg_panel cfg) then rq_client_ip sample_request else []) r
    \<and> apply_engine rev e sample_header sample_request
        = apply_engine rev (e\<lparr>eng_fetcher := Some (\<lambda>_ _. r)\<rparr>) sample_header sample_request"
proof -
  let ?load = "load_config sample_url (\<lambda>p. Inr (\<lambda>s. s = p)) Some rev (\<lambda>_ f. (f, None)) (\<lambda>_. File_Missing) panel_environ"
  let ?access = "live_access (sample_net 200) ''1.0'' not_found_moment []"
  have "snd (load_values sample_url panel_environ) = []" by code_simp
  then obtain cfg where cfg: "?load = Inr cfg"
    by (auto simp: load_config_def or_nil_def load_file_def split_beta panel_environ_def lookup_env_def)
  from loaded_values [OF cfg] obtain f skipped path where
    "cfg = (fst (load_values sample_url panel_environ))\<lparr>cfg_file := f, cfg_path := path, cfg_skipped := skipped\<rparr>"
    by metis
  moreover have "trust_proxy (cfg_upstream (fst (load_values sample_url panel_environ))) = ''1''"
    "pn_enabled (cfg_panel (fst (load_values sample_url panel_environ)))" by code_simp+
  moreover have "\<not> Option.is_none (case parse_trust go_netip ''1'' of Inl _ \<Rightarrow> None | Inr r \<Rightarrow> Some r)" by code_simp
  ultimately have trust: "\<exists>r. parse_trust go_netip (trust_proxy (cfg_upstream cfg)) = Inr r"
    and enabled: "pn_enabled (cfg_panel cfg)" by (auto simp: Option.is_none_def split: sum.splits)
  from trust config_starts [OF cfg, where ip = go_netip and clock = sample_time_lib and access = ?access
      and draw = "\<lambda>_ _. 0"]
  obtain p where p: "new_handler go_netip (\<lambda>p. Inr (\<lambda>s. s = p)) sample_time_lib ?access (\<lambda>_ _. 0) cfg = Inr p"
    by (auto split: sum.splits)
  from wired_engine [OF cfg is_order_rev enabled p] p show ?thesis by blast
qed

text \<open>The public server comes first in the list and its error is the one that is reported.\<close>

lemma public_error_wins:
  "shutdown s = Some e \<Longrightarrow> shutdown_servers shutdown (s # rest) = Some (''graceful shutdown: '' @ e)"
  by (simp add: shutdown_servers_def)

text \<open>Only the health server can be missing, and it is shut down before the public one.\<close>

lemma servers_of_shape:
  "\<exists>p rest. servers_of cfg handler = p # rest \<and> srv_handler p = Public handler
    \<and> (rest = [] \<longleftrightarrow> health_addr (cfg_http cfg) = [])
    \<and> (\<forall>s \<in> set rest. srv_addr s = health_addr (cfg_http cfg))"
  by (simp add: servers_of_def Let_def)

text \<open>The level the configuration allows is the level of the log.\<close>

lemma loaded_level_understood:
  assumes "good_config cc cfg"
  shows "parse_level (log_level (cfg_log cfg)) =
    (if log_level (cfg_log cfg) = ''debug'' then Level_Debug
     else if log_level (cfg_log cfg) = ''warn'' then Level_Warn
     else if log_level (cfg_log cfg) = ''error'' then Level_Error else Level_Info)"
proof -
  have "to_lower (trim_space ''debug'') = ''debug''" "to_lower (trim_space ''info'') = ''info''"
    "to_lower (trim_space ''warn'') = ''warn''" "to_lower (trim_space ''error'') = ''error''" by code_simp+
  with assms show ?thesis by (auto simp: good_config_def parse_level_def Let_def)
qed

text \<open>The probe asks the port the health server listens on, for a port written as a plain number.\<close>

lemma healthcheck_agrees:
  assumes "env ''HEALTH_PORT'' = None \<or> env ''HEALTH_PORT'' = Some (nat_digits n)"
    and "env ''HEALTH_PORT'' = None \<Longrightarrow> n = 3021" "int n \<le> int64_max" "0 < n"
  shows "healthcheck_port env = nat_digits n
    \<and> load_health env = (host_port (env_string env ''HEALTH_HOST'' ''0.0.0.0'') (int n), [])"
proof -
  have t: "trim_space (nat_digits n) = nat_digits n"
    using digits_graphic [of "nat_digits n"] nat_digits_digit by (intro trim_space_graphic) blast
  have d: "nat_digits 3021 = ''3021''" by code_simp
  have ne: "nat_digits n \<noteq> []" by (rule nat_digits_nonempty)
  show ?thesis
  proof (cases "env ''HEALTH_PORT''")
    case None
    with assms(2) d show ?thesis
      by (simp add: healthcheck_port_def load_health_def int_val_def lookup_env_def)
  next
    case (Some v)
    with assms(1) have "v = nat_digits n" by simp
    with Some assms(3,4) t ne show ?thesis
      by (simp add: healthcheck_port_def load_health_def int_val_def lookup_env_def parse_int_nat_digits)
  qed
qed

end
