(* ===== verification/Json.thy ===== *)
theory Json
  imports Links Utf8_Facts
begin

text \<open>
  JSON texts, as far as \<open>encoding/json\<close> decides what the program does with them: the grammar of RFC
  8259 with Go's limit on nesting as a relation between a text and the tree it writes, a parser for
  it, and a printer with a chosen layout.  The trees keep numbers and the insides of strings as they
  are written, so that a layout can change without touching them.
\<close>

section \<open>Trees\<close>

datatype json =
    J_Literal string
  | J_Number string
  | J_String string
  | J_Array "json list"
  | J_Object "(string \<times> json) list"

definition json_space :: "char \<Rightarrow> bool" where
  "json_space c \<longleftrightarrow> c = CHR '' '' \<or> c = CHR 0x09 \<or> c = newline \<or> c = carriage_return"

definition blank :: "string \<Rightarrow> bool" where
  "blank u \<longleftrightarrow> list_all json_space u"

definition skip_space :: "string \<Rightarrow> string" where
  "skip_space s = dropWhile json_space s"

abbreviation quote :: char where
  "quote \<equiv> CHR 0x22"

abbreviation backslash :: char where
  "backslash \<equiv> CHR 0x5C"

section \<open>Numbers and strings\<close>

definition number_char :: "char \<Rightarrow> bool" where
  "number_char c \<longleftrightarrow> is_digit c \<or> c \<in> set ''+-.eE''"

text \<open>The digits in front, which must be some, and what follows them.\<close>

definition some_digits :: "string \<Rightarrow> string option" where
  "some_digits s =
    (if s \<noteq> [] \<and> is_digit (hd s) then Some (dropWhile is_digit s) else None)"

definition number_exponent :: "string \<Rightarrow> bool" where
  "number_exponent s =
    (case s of
       [] \<Rightarrow> True
     | c # r \<Rightarrow> (c = CHR ''e'' \<or> c = CHR ''E'')
         \<and> some_digits (case r of d # r' \<Rightarrow> if d = CHR ''+'' \<or> d = CHR ''-'' then r' else r | [] \<Rightarrow> []) = Some [])"

definition number_fraction :: "string \<Rightarrow> bool" where
  "number_fraction s =
    (case s of
       c # r \<Rightarrow> if c = CHR ''.'' then (case some_digits r of Some t \<Rightarrow> number_exponent t | None \<Rightarrow> False)
         else number_exponent s
     | [] \<Rightarrow> True)"

definition is_number :: "string \<Rightarrow> bool" where
  "is_number s =
    (case (case s of c # r \<Rightarrow> if c = CHR ''-'' then r else s | [] \<Rightarrow> []) of
       [] \<Rightarrow> False
     | c # r \<Rightarrow> if c = CHR ''0'' then number_fraction r
         else (case some_digits (c # r) of Some t \<Rightarrow> number_fraction t | None \<Rightarrow> False))"

text \<open>What follows a backslash, with the byte it stands for, apart from \<open>u\<close> and its four digits.\<close>

definition short_escapes :: "(char \<times> char) list" where
  "short_escapes =
    [(CHR ''b'', CHR 0x08), (CHR ''f'', CHR 0x0C), (CHR ''n'', newline), (CHR ''r'', carriage_return),
     (CHR ''t'', CHR 0x09), (CHR ''/'', CHR ''/''), (quote, quote), (backslash, backslash)]"

text \<open>The inside of a string up to its closing quote, as it is written, and the text after the quote.\<close>

fun scan_string :: "string \<Rightarrow> (string \<times> string) option" where
  "scan_string [] = None"
| "scan_string (c # s) =
    (if c = quote then Some ([], s)
     else if byte c < 32 then None
     else if c = backslash then
       (case s of
          [] \<Rightarrow> None
        | e # s' \<Rightarrow>
            if e = CHR ''u'' then
              (case s' of
                 h1 # h2 # h3 # h4 # t \<Rightarrow>
                   if hex_value h1 \<noteq> None \<and> hex_value h2 \<noteq> None \<and> hex_value h3 \<noteq> None \<and> hex_value h4 \<noteq> None
                   then map_option (apfst (\<lambda>b. c # e # h1 # h2 # h3 # h4 # b)) (scan_string t)
                   else None
               | _ \<Rightarrow> None)
            else if map_of short_escapes e \<noteq> None
            then map_option (apfst (\<lambda>b. c # e # b)) (scan_string s')
            else None)
     else map_option (apfst (Cons c)) (scan_string s))"

inductive inside :: "string \<Rightarrow> bool" where
  in_empty: "inside []"
| in_plain: "32 \<le> byte c \<Longrightarrow> c \<noteq> quote \<Longrightarrow> c \<noteq> backslash \<Longrightarrow> inside s \<Longrightarrow> inside (c # s)"
| in_short: "map_of short_escapes e \<noteq> None \<Longrightarrow> inside s \<Longrightarrow> inside (backslash # e # s)"
| in_unit: "hex_value h1 \<noteq> None \<Longrightarrow> hex_value h2 \<noteq> None \<Longrightarrow> hex_value h3 \<noteq> None \<Longrightarrow> hex_value h4 \<noteq> None \<Longrightarrow>
    inside s \<Longrightarrow> inside (backslash # CHR ''u'' # h1 # h2 # h3 # h4 # s)"

definition literals :: "string list" where
  "literals = [''null'', ''true'', ''false'']"

section \<open>The grammar\<close>

text \<open>
  \<open>writes d t w\<close>: the text \<open>w\<close> writes the tree \<open>t\<close> with at most \<open>d\<close> brackets open at any point, without space
  around it; \<open>writes_items\<close> and \<open>writes_members\<close> are the insides of brackets and include the space.
\<close>

inductive writes :: "nat \<Rightarrow> json \<Rightarrow> string \<Rightarrow> bool"
  and writes_items :: "nat \<Rightarrow> json list \<Rightarrow> string \<Rightarrow> bool"
  and writes_members :: "nat \<Rightarrow> (string \<times> json) list \<Rightarrow> string \<Rightarrow> bool"
where
  w_literal: "w \<in> set literals \<Longrightarrow> writes d (J_Literal w) w"
| w_number: "is_number w \<Longrightarrow> list_all number_char w \<Longrightarrow> writes d (J_Number w) w"
| w_string: "inside b \<Longrightarrow> writes d (J_String b) (quote # b @ [quote])"
| w_no_items: "blank u \<Longrightarrow> writes (Suc d) (J_Array []) (CHR ''['' # u @ '']'')"
| w_items: "writes_items d ts w \<Longrightarrow> writes (Suc d) (J_Array ts) (CHR ''['' # w @ '']'')"
| w_no_members: "blank u \<Longrightarrow> writes (Suc d) (J_Object []) (CHR ''{'' # u @ ''}'')"
| w_members: "writes_members d ms w \<Longrightarrow> writes (Suc d) (J_Object ms) (CHR ''{'' # w @ ''}'')"
| w_item: "blank u \<Longrightarrow> writes d t w \<Longrightarrow> blank v \<Longrightarrow> writes_items d [t] (u @ w @ v)"
| w_more_items: "blank u \<Longrightarrow> writes d t w \<Longrightarrow> blank v \<Longrightarrow> writes_items d ts r \<Longrightarrow>
    writes_items d (t # ts) (u @ w @ v @ CHR '','' # r)"
| w_member: "blank u \<Longrightarrow> inside k \<Longrightarrow> blank u1 \<Longrightarrow> blank u2 \<Longrightarrow> writes d t w \<Longrightarrow> blank v \<Longrightarrow>
    writes_members d [(k, t)] (u @ quote # k @ quote # u1 @ CHR '':'' # u2 @ w @ v)"
| w_more_members: "blank u \<Longrightarrow> inside k \<Longrightarrow> blank u1 \<Longrightarrow> blank u2 \<Longrightarrow> writes d t w \<Longrightarrow> blank v \<Longrightarrow>
    writes_members d ms r \<Longrightarrow>
    writes_members d ((k, t) # ms) (u @ quote # k @ quote # u1 @ CHR '':'' # u2 @ w @ v @ CHR '','' # r)"

section \<open>The parser\<close>

text \<open>
  The number of rounds is \<open>n\<close>; twice the length of the text is enough, as each round on a value or
  before one reads a byte.  \<open>d\<close> is the number of brackets that may still be opened.
\<close>

definition scan_number :: "string \<Rightarrow> (string \<times> string) option" where
  "scan_number s =
    (let w = takeWhile number_char s in if is_number w then Some (w, dropWhile number_char s) else None)"

definition scan_literal :: "string \<Rightarrow> (string \<times> string) option" where
  "scan_literal s =
    (case find (\<lambda>l. has_prefix s l) literals of
       Some l \<Rightarrow> Some (l, drop (length l) s)
     | None \<Rightarrow> None)"

text \<open>A key with the colon after it.\<close>

definition scan_key :: "string \<Rightarrow> (string \<times> string) option" where
  "scan_key s =
    (case skip_space s of
       c # r \<Rightarrow>
         if c \<noteq> quote then None
         else
           (case scan_string r of
              None \<Rightarrow> None
            | Some (k, r) \<Rightarrow>
                (case skip_space r of
                   c # r \<Rightarrow> if c = CHR '':'' then Some (k, r) else None
                 | [] \<Rightarrow> None))
     | [] \<Rightarrow> None)"

fun scan_value :: "nat \<Rightarrow> nat \<Rightarrow> string \<Rightarrow> (json \<times> string) option"
  and scan_items :: "nat \<Rightarrow> nat \<Rightarrow> string \<Rightarrow> (json list \<times> string) option"
  and scan_members :: "nat \<Rightarrow> nat \<Rightarrow> string \<Rightarrow> ((string \<times> json) list \<times> string) option"
where
  "scan_value 0 d s = None"
| "scan_value (Suc n) d s =
    (case s of
       [] \<Rightarrow> None
     | c # r \<Rightarrow>
         if c = quote then map_option (apfst J_String) (scan_string r)
         else if c = CHR ''['' then
           (if d = 0 then None
            else if skip_space r \<noteq> [] \<and> hd (skip_space r) = CHR '']'' then Some (J_Array [], tl (skip_space r))
            else map_option (apfst J_Array) (scan_items n (d - 1) r))
         else if c = CHR ''{'' then
           (if d = 0 then None
            else if skip_space r \<noteq> [] \<and> hd (skip_space r) = CHR ''}'' then Some (J_Object [], tl (skip_space r))
            else map_option (apfst J_Object) (scan_members n (d - 1) r))
         else if number_char c then map_option (apfst J_Number) (scan_number s)
         else map_option (apfst J_Literal) (scan_literal s))"
| "scan_items 0 d s = None"
| "scan_items (Suc n) d s =
    (case scan_value n d (skip_space s) of
       None \<Rightarrow> None
     | Some (t, r) \<Rightarrow>
         (case skip_space r of
            [] \<Rightarrow> None
          | c # r \<Rightarrow>
              if c = CHR '']'' then Some ([t], r)
              else if c = CHR '','' then map_option (apfst (Cons t)) (scan_items n d r)
              else None))"
| "scan_members 0 d s = None"
| "scan_members (Suc n) d s =
    (case scan_key s of
       None \<Rightarrow> None
     | Some (k, r) \<Rightarrow>
         (case scan_value n d (skip_space r) of
            None \<Rightarrow> None
          | Some (t, r) \<Rightarrow>
              (case skip_space r of
                 [] \<Rightarrow> None
               | c # r \<Rightarrow>
                   if c = CHR ''}'' then Some ([(k, t)], r)
                   else if c = CHR '','' then map_option (apfst (Cons (k, t))) (scan_members n d r)
                   else None)))"

text \<open>\<open>maxNestingDepth\<close> of Go's scanner.\<close>

definition max_depth :: nat where
  "max_depth = 10000"

definition next_value :: "nat \<Rightarrow> string \<Rightarrow> (json \<times> string) option" where
  "next_value d s = scan_value (2 * length s) d s"

definition json_parse :: "nat \<Rightarrow> string \<Rightarrow> json option" where
  "json_parse d s =
    (case next_value d (skip_space s) of
       Some (t, r) \<Rightarrow> if skip_space r = [] then Some t else None
     | None \<Rightarrow> None)"

section \<open>The printer\<close>

text \<open>
  \<open>nl k\<close> is what starts a line inside \<open>k\<close> brackets, and \<open>sp\<close> what follows a colon: nothing for both in the
  compact form, and a line feed with its indentation and a blank in the indented one.
\<close>

fun print_value :: "(nat \<Rightarrow> string) \<Rightarrow> string \<Rightarrow> nat \<Rightarrow> json \<Rightarrow> string"
  and print_items :: "(nat \<Rightarrow> string) \<Rightarrow> string \<Rightarrow> nat \<Rightarrow> json list \<Rightarrow> string"
  and print_members :: "(nat \<Rightarrow> string) \<Rightarrow> string \<Rightarrow> nat \<Rightarrow> (string \<times> json) list \<Rightarrow> string"
where
  "print_value nl sp k (J_Literal w) = w"
| "print_value nl sp k (J_Number w) = w"
| "print_value nl sp k (J_String b) = quote # b @ [quote]"
| "print_value nl sp k (J_Array ts) =
    (if ts = [] then ''[]'' else CHR ''['' # print_items nl sp (Suc k) ts @ nl k @ '']'')"
| "print_value nl sp k (J_Object ms) =
    (if ms = [] then ''{}'' else CHR ''{'' # print_members nl sp (Suc k) ms @ nl k @ ''}'')"
| "print_items nl sp k [] = []"
| "print_items nl sp k (t # ts) =
    nl k @ print_value nl sp k t @ (if ts = [] then [] else CHR '','' # print_items nl sp k ts)"
| "print_members nl sp k [] = []"
| "print_members nl sp k ((key, t) # ms) =
    nl k @ quote # key @ quote # CHR '':'' # sp @ print_value nl sp k t
    @ (if ms = [] then [] else CHR '','' # print_members nl sp k ms)"

definition print_compact :: "json \<Rightarrow> string" where
  "print_compact t = print_value (\<lambda>_. []) [] 0 t"

definition print_indented :: "string \<Rightarrow> json \<Rightarrow> string" where
  "print_indented indent t = print_value (\<lambda>k. newline # concat (replicate k indent)) '' '' 0 t"

section \<open>The parser reads what the grammar writes\<close>

lemma map_apfst_Some: "map_option (apfst f) x = Some (b, r) \<longleftrightarrow> (\<exists>a. x = Some (a, r) \<and> b = f a)"
  by (cases x) auto

lemma byte_marks [simp]: "byte backslash = 92" "byte quote = 34"
  by (simp_all add: byte_def)

lemma short_escapes_u [simp]: "map_of short_escapes (CHR ''u'') = None"
  by (simp add: short_escapes_def)

lemma scan_string_cases:
  assumes "scan_string s = Some (b, r)"
  obtains (stop) "s = quote # r" "b = []"
  | (plain) c s1 b1 where "s = c # s1" "b = c # b1" "32 \<le> byte c" "c \<noteq> quote" "c \<noteq> backslash"
      "scan_string s1 = Some (b1, r)"
  | (short) e s1 b1 where "s = backslash # e # s1" "b = backslash # e # b1" "map_of short_escapes e \<noteq> None"
      "scan_string s1 = Some (b1, r)"
  | (unit) h1 h2 h3 h4 s1 b1 where "s = backslash # CHR ''u'' # h1 # h2 # h3 # h4 # s1"
      "b = backslash # CHR ''u'' # h1 # h2 # h3 # h4 # b1" "hex_value h1 \<noteq> None" "hex_value h2 \<noteq> None"
      "hex_value h3 \<noteq> None" "hex_value h4 \<noteq> None" "scan_string s1 = Some (b1, r)"
proof (cases s)
  case (Cons c s1)
  consider "c = quote" | "c \<noteq> quote" "c \<noteq> backslash" "\<not> byte c < 32"
    | (u) "c = backslash" "s1 \<noteq> []" "hd s1 = CHR ''u''"
    | (e) "c = backslash" "s1 \<noteq> []" "hd s1 \<noteq> CHR ''u''"
    using assms Cons by (cases s1) (auto split: if_splits)
  then show thesis
  proof cases
    case 1
    with assms Cons stop show thesis by simp
  next
    case 2
    with assms Cons plain show thesis by (auto simp: map_apfst_Some)
  next
    case u
    then obtain h1 h2 h3 h4 t where s1: "s1 = CHR ''u'' # h1 # h2 # h3 # h4 # t"
      and h: "hex_value h1 \<noteq> None" "hex_value h2 \<noteq> None" "hex_value h3 \<noteq> None" "hex_value h4 \<noteq> None"
      using assms Cons by (cases s1) (auto split: list.splits if_splits)
    with assms Cons u obtain b1 where "scan_string t = Some (b1, r)" "b = backslash # CHR ''u'' # h1 # h2 # h3 # h4 # b1"
      by (auto simp: map_apfst_Some)
    with unit [OF _ _ h] Cons u s1 show thesis by simp
  next
    case e
    then obtain e t where s1: "s1 = e # t" "e \<noteq> CHR ''u''" by (cases s1) auto
    with assms Cons e have "map_of short_escapes e \<noteq> None" by (auto split: if_splits)
    moreover from this assms Cons s1 e obtain b1 where "scan_string t = Some (b1, r)" "b = backslash # e # b1"
      by (auto simp: map_apfst_Some)
    ultimately show thesis using short Cons e s1 by simp
  qed
qed (use assms in simp)

lemma scan_string_sound: "scan_string s = Some (b, r) \<Longrightarrow> s = b @ quote # r \<and> inside b"
proof (induction "length s" arbitrary: s b rule: less_induct)
  case less
  from less.prems show ?case
  proof (cases rule: scan_string_cases)
    case (plain c s1 b1)
    with less.hyps [of s1 b1] show ?thesis by (auto intro: in_plain)
  next
    case (short e s1 b1)
    with less.hyps [of s1 b1] show ?thesis by (auto intro: in_short)
  next
    case (unit h1 h2 h3 h4 s1 b1)
    with less.hyps [of s1 b1] in_unit [OF unit(3-6), of b1] show ?thesis by simp
  qed (auto intro: in_empty)
qed

lemma scan_string_inside: "inside b \<Longrightarrow> scan_string (b @ quote # r) = Some (b, r)"
proof (induction rule: inside.induct)
  case (in_short e s)
  then have "e \<noteq> CHR ''u''" by auto
  with in_short show ?case by simp
qed auto

lemmas string_insideI = scan_string_sound [THEN conjunct2]

lemma blank_simps [simp]: "blank []" "blank (c # u) \<longleftrightarrow> json_space c \<and> blank u" "blank (u @ v) \<longleftrightarrow> blank u \<and> blank v"
  by (simp_all add: blank_def)

lemma skip_blank: "blank u \<Longrightarrow> skip_space (u @ s) = skip_space s"
  by (induction u) (simp_all add: skip_space_def)

lemma skip_space_split: obtains u where "blank u" "s = u @ skip_space s"
  by (rule that [of "takeWhile json_space s"])
    (auto simp: blank_def skip_space_def list_all_iff dest: set_takeWhileD)

lemma skip_space_idem [simp]: "skip_space (skip_space s) = skip_space s"
  by (simp add: skip_space_def)

lemma skip_space_stop: "s \<noteq> [] \<Longrightarrow> \<not> json_space (hd s) \<Longrightarrow> skip_space s = s"
  by (cases s) (simp_all add: skip_space_def)

lemma skip_space_Cons [simp]:
  "skip_space [] = []" "skip_space (c # s) = (if json_space c then skip_space s else c # s)"
  by (simp_all add: skip_space_def)

lemma skip_space_shorter: "length (skip_space s) \<le> length s"
  by (simp add: skip_space_def length_dropWhile_le)

lemma skip_space_Nil: "skip_space s = [] \<longleftrightarrow> blank s"
  by (induction s) auto

lemma punctuation [simp]:
  "\<not> json_space quote" "\<not> json_space (CHR ''['')" "\<not> json_space (CHR ''{'')" "\<not> json_space (CHR '']'')"
  "\<not> json_space (CHR ''}'')" "\<not> json_space (CHR '','')" "\<not> json_space (CHR '':'')"
  "\<not> number_char quote" "\<not> number_char (CHR ''['')" "\<not> number_char (CHR ''{'')" "\<not> number_char (CHR '']'')"
  "\<not> number_char (CHR ''}'')" "\<not> number_char (CHR '','')" "\<not> number_char (CHR '':'')"
  by (simp_all add: json_space_def number_char_def is_digit_def byte_def)

lemma space_no_number: "json_space c \<Longrightarrow> \<not> number_char c"
  by (auto simp: json_space_def number_char_def is_digit_def byte_def)

lemma is_number_nonempty: "is_number w \<Longrightarrow> w \<noteq> []"
  by (auto simp: is_number_def)

lemma scan_number_sound:
  "scan_number s = Some (w, r) \<Longrightarrow> s = w @ r \<and> is_number w \<and> list_all number_char w"
  by (auto simp: scan_number_def Let_def list_all_iff split: if_splits dest: set_takeWhileD)

text \<open>What may follow a value: nothing, or a byte that is no part of a number.\<close>

definition value_ends :: "string \<Rightarrow> bool" where
  "value_ends rest \<longleftrightarrow> rest = [] \<or> \<not> number_char (hd rest)"

lemma scan_number_complete:
  assumes "is_number w" "list_all number_char w" "value_ends rest"
  shows "scan_number (w @ rest) = Some (w, rest)"
proof -
  have "takeWhile number_char (w @ rest) = w" "dropWhile number_char (w @ rest) = rest"
    using assms(2,3) by (cases rest; simp add: list_all_iff takeWhile_append value_ends_def)+
  with assms(1) show ?thesis by (simp add: scan_number_def)
qed

lemma scan_literal_sound:
  assumes "scan_literal s = Some (l, r)" shows "s = l @ r \<and> l \<in> set literals"
proof -
  from assms have l: "find (\<lambda>l. has_prefix s l) literals = Some l" "r = drop (length l) s"
    by (auto simp: scan_literal_def split: option.splits)
  then have "has_prefix s l \<and> l \<in> set literals" by (auto simp: find_Some_iff)
  with l(2) show ?thesis by (metis append_take_drop_id has_prefix_def)
qed

lemma scan_literal_complete:
  "l \<in> set literals \<Longrightarrow> scan_literal (l @ r) = Some (l, r)"
  by (auto simp: scan_literal_def literals_def has_prefix_def)

text \<open>The first byte of a value decides what it is, and is no space.\<close>

lemma number_starts: "is_number w \<Longrightarrow> list_all number_char w \<Longrightarrow> w \<noteq> [] \<and> number_char (hd w)"
  using is_number_nonempty by (cases w) auto

lemma literal_starts:
  "l \<in> set literals \<Longrightarrow> l \<noteq> [] \<and> \<not> json_space (hd l) \<and> \<not> number_char (hd l)
    \<and> hd l \<notin> {quote, CHR ''['', CHR ''{''}"
  by (auto simp: literals_def json_space_def number_char_def is_digit_def byte_def)

lemma writes_starts:
  assumes "writes d t w" shows "w \<noteq> [] \<and> \<not> json_space (hd w) \<and> hd w \<noteq> CHR '']''"
  using assms
proof (cases rule: writes.cases)
  case w_literal
  then show ?thesis by (auto simp: literals_def json_space_def)
next
  case w_number
  then show ?thesis using number_starts [of w] space_no_number [of "hd w"] punctuation by metis
qed auto

lemma skip_value: "writes d t w \<Longrightarrow> skip_space (w @ r) = w @ r"
  using writes_starts [of d t w] by (simp add: skip_space_stop)

lemma skip_before_value: "blank u \<Longrightarrow> writes d t w \<Longrightarrow> skip_space (u @ w @ r) = w @ r"
  by (simp add: skip_blank skip_value)

lemma writes_items_starts:
  assumes "writes_items d ts w"
  shows "skip_space (w @ s) \<noteq> [] \<and> hd (skip_space (w @ s)) \<noteq> CHR '']''"
  using assms
proof (cases rule: writes_items.cases)
  case (w_item u t w v)
  then show ?thesis using skip_before_value [of u d t w "v @ s"] writes_starts by fastforce
next
  case (w_more_items u t w v ts r)
  then show ?thesis using skip_before_value [of u d t w "v @ CHR '','' # r @ s"] writes_starts by fastforce
qed

lemma writes_members_starts:
  assumes "writes_members d ms w"
  shows "skip_space (w @ s) \<noteq> [] \<and> hd (skip_space (w @ s)) \<noteq> CHR ''}''"
  using assms by (cases rule: writes_members.cases) (simp_all add: skip_blank)

lemma scan_key_complete:
  assumes "blank u" "inside k" "blank u1"
  shows "scan_key (u @ quote # k @ quote # u1 @ CHR '':'' # r) = Some (k, r)"
  using assms by (simp add: scan_key_def skip_blank scan_string_inside)

lemma value_ends_blank: "blank v \<Longrightarrow> value_ends rest \<Longrightarrow> value_ends (v @ rest)"
  using space_no_number by (cases v) (auto simp: value_ends_def)

lemma value_ends_stop [simp]:
  "value_ends (CHR '','' # r)" "value_ends (CHR '']'' # r)" "value_ends (CHR ''}'' # r)" "value_ends []"
  by (simp_all add: value_ends_def)

lemma scan_complete:
  "writes d t w \<Longrightarrow> (\<And>n rest. value_ends rest \<Longrightarrow> 2 * length w \<le> n \<Longrightarrow> scan_value n d (w @ rest) = Some (t, rest))"
  "writes_items d ts w \<Longrightarrow>
    (\<And>n rest. 2 * length w + 1 \<le> n \<Longrightarrow> scan_items n d (w @ CHR '']'' # rest) = Some (ts, rest))"
  "writes_members d ms w \<Longrightarrow>
    (\<And>n rest. 2 * length w + 1 \<le> n \<Longrightarrow> scan_members n d (w @ CHR ''}'' # rest) = Some (ms, rest))"
proof (induction rule: writes_writes_items_writes_members.inducts)
  case (w_literal w d)
  note l = literal_starts [OF w_literal.hyps]
  obtain c r where w: "w = c # r" using l by (cases w) auto
  obtain m where "n = Suc m" using w_literal.prems(2) w by (cases n) auto
  moreover have "scan_literal (w @ rest) = Some (w, rest)" by (rule scan_literal_complete [OF w_literal.hyps])
  ultimately show ?case using l w by simp
next
  case (w_number w d)
  note l = number_starts [OF w_number.hyps]
  obtain c r where w: "w = c # r" using l by (cases w) auto
  obtain m where "n = Suc m" using w_number.prems(2) w by (cases n) auto
  moreover have "scan_number (w @ rest) = Some (w, rest)"
    by (rule scan_number_complete [OF w_number.hyps w_number.prems(1)])
  moreover have "c \<noteq> quote" "c \<noteq> CHR ''[''" "c \<noteq> CHR ''{''" using l w punctuation by auto
  ultimately show ?case using l w by simp
next
  case (w_string b d)
  then show ?case by (cases n) (simp_all add: scan_string_inside)
next
  case (w_no_items u d)
  then show ?case by (cases n) (simp_all add: skip_blank)
next
  case (w_items d ts w)
  obtain m where n: "n = Suc m" using w_items.prems(2) by (cases n) auto
  with w_items.prems(2) have "scan_items m d (w @ CHR '']'' # rest) = Some (ts, rest)"
    by (intro w_items.IH) simp
  then show ?case using n writes_items_starts [OF w_items.hyps, of "CHR '']'' # rest"] by simp
next
  case (w_no_members u d)
  then show ?case by (cases n) (simp_all add: skip_blank)
next
  case (w_members d ms w)
  obtain m where n: "n = Suc m" using w_members.prems(2) by (cases n) auto
  with w_members.prems(2) have "scan_members m d (w @ CHR ''}'' # rest) = Some (ms, rest)"
    by (intro w_members.IH) simp
  then show ?case using n writes_members_starts [OF w_members.hyps, of "CHR ''}'' # rest"] by simp
next
  case (w_item u d t w v)
  obtain m where n: "n = Suc m" using w_item.prems by (cases n) auto
  have "scan_value m d (w @ v @ CHR '']'' # rest) = Some (t, v @ CHR '']'' # rest)"
    using w_item.prems n w_item.hyps by (intro w_item.IH value_ends_blank) simp_all
  with n w_item.hyps show ?case by (simp add: skip_value skip_blank)
next
  case (w_more_items u d t w v ts r)
  obtain m where n: "n = Suc m" using w_more_items.prems by (cases n) auto
  have "scan_value m d (w @ v @ CHR '','' # r @ CHR '']'' # rest) = Some (t, v @ CHR '','' # r @ CHR '']'' # rest)"
    using w_more_items.prems n w_more_items.hyps by (intro w_more_items.IH(1) value_ends_blank) simp_all
  moreover have "scan_items m d (r @ CHR '']'' # rest) = Some (ts, rest)"
    using w_more_items.prems n by (intro w_more_items.IH(2)) simp
  ultimately show ?case using n w_more_items.hyps by (simp add: skip_value skip_blank)
next
  case (w_member u k u1 u2 d t w v)
  obtain m where n: "n = Suc m" using w_member.prems by (cases n) auto
  have "scan_value m d (w @ v @ CHR ''}'' # rest) = Some (t, v @ CHR ''}'' # rest)"
    using w_member.prems n w_member.hyps by (intro w_member.IH value_ends_blank) simp_all
  with n w_member.hyps show ?case by (simp add: scan_key_complete skip_value skip_blank)
next
  case (w_more_members u k u1 u2 d t w v ms r)
  obtain m where n: "n = Suc m" using w_more_members.prems by (cases n) auto
  have "scan_value m d (w @ v @ CHR '','' # r @ CHR ''}'' # rest) = Some (t, v @ CHR '','' # r @ CHR ''}'' # rest)"
    using w_more_members.prems n w_more_members.hyps by (intro w_more_members.IH(1) value_ends_blank) simp_all
  moreover have "scan_members m d (r @ CHR ''}'' # rest) = Some (ms, rest)"
    using w_more_members.prems n by (intro w_more_members.IH(2)) simp
  ultimately show ?case using n w_more_members.hyps by (simp add: scan_key_complete skip_value skip_blank)
qed

section \<open>The grammar writes what the parser reads\<close>

lemma scan_key_sound:
  assumes "scan_key s = Some (k, r)"
  shows "\<exists>u u1. s = u @ quote # k @ quote # u1 @ CHR '':'' # r \<and> blank u \<and> blank u1 \<and> inside k"
proof -
  from assms obtain s1 where s1: "skip_space s = quote # s1"
    by (auto simp: scan_key_def split: list.splits if_splits)
  with assms obtain s2 where s2: "scan_string s1 = Some (k, s2)" "skip_space s2 = CHR '':'' # r"
    by (auto simp: scan_key_def split: list.splits if_splits option.splits)
  obtain u where u: "blank u" "s = u @ skip_space s" by (rule skip_space_split)
  obtain u1 where u1: "blank u1" "s2 = u1 @ skip_space s2" by (rule skip_space_split)
  have "s = u @ quote # k @ quote # u1 @ CHR '':'' # r"
    using u(2) s1 scan_string_sound [OF s2(1)] u1(2) s2(2) by simp
  with u(1) u1(1) string_insideI [OF s2(1)] show ?thesis by blast
qed

lemma scan_sound:
  "scan_value n d s = Some (t, r) \<Longrightarrow> \<exists>w. s = w @ r \<and> writes d t w"
  "scan_items n d s = Some (ts, r) \<Longrightarrow> \<exists>w. s = w @ CHR '']'' # r \<and> writes_items d ts w"
  "scan_members n d s = Some (ms, r) \<Longrightarrow> \<exists>w. s = w @ CHR ''}'' # r \<and> writes_members d ms w"
proof (induction n d s and n d s and n d s arbitrary: t r and ts r and ms r
    rule: scan_value_scan_items_scan_members.induct)
  case (2 n d s)
  then obtain c s1 where s: "s = c # s1" by (cases s) auto
  consider (str) "c = quote" | (arr) "c = CHR ''[''" | (obj) "c = CHR ''{''" | (num) "number_char c" "c \<noteq> quote"
      "c \<noteq> CHR ''[''" "c \<noteq> CHR ''{''" | (lit) "\<not> number_char c" "c \<noteq> quote" "c \<noteq> CHR ''[''" "c \<noteq> CHR ''{''"
    by blast
  then show ?case
  proof cases
    case str
    with 2 s obtain b where b: "scan_string s1 = Some (b, r)" "t = J_String b" by (auto simp: map_apfst_Some)
    show ?thesis
      using scan_string_sound [OF b(1)] s str b(2) w_string [OF string_insideI [OF b(1)], of d]
      by (intro exI [of _ "quote # b @ [quote]"]) simp
  next
    case arr
    with 2 s obtain d' where d: "d = Suc d'" by (cases d) auto
    show ?thesis
    proof (cases "skip_space s1 \<noteq> [] \<and> hd (skip_space s1) = CHR '']''")
      case True
      obtain u where u: "blank u" "s1 = u @ skip_space s1" by (rule skip_space_split)
      from True 2 s arr d have "t = J_Array []" "r = tl (skip_space s1)" by auto
      moreover from this True u(2) have "s = (CHR ''['' # u @ '']'') @ r" using s arr by (cases "skip_space s1") auto
      ultimately show ?thesis using w_no_items [OF u(1), of d'] d by blast
    next
      case False
      with 2 s arr d obtain ts where ts: "scan_items n d' s1 = Some (ts, r)" "t = J_Array ts"
        by (auto simp: map_apfst_Some)
      with "2.IH"(1) [OF s] arr d False obtain w where "s1 = w @ CHR '']'' # r" "writes_items d' ts w" by auto
      with s arr ts(2) d w_items show ?thesis by (intro exI [of _ "CHR ''['' # w @ '']''"]) simp
    qed
  next
    case obj
    with 2 s obtain d' where d: "d = Suc d'" by (cases d) auto
    show ?thesis
    proof (cases "skip_space s1 \<noteq> [] \<and> hd (skip_space s1) = CHR ''}''")
      case True
      obtain u where u: "blank u" "s1 = u @ skip_space s1" by (rule skip_space_split)
      from True 2 s obj d have "t = J_Object []" "r = tl (skip_space s1)" by auto
      moreover from this True u(2) have "s = (CHR ''{'' # u @ ''}'') @ r" using s obj by (cases "skip_space s1") auto
      ultimately show ?thesis using w_no_members [OF u(1), of d'] d by blast
    next
      case False
      with 2 s obj d obtain ms where ms: "scan_members n d' s1 = Some (ms, r)" "t = J_Object ms"
        by (auto simp: map_apfst_Some)
      with "2.IH"(2) [OF s] obj d False obtain w where "s1 = w @ CHR ''}'' # r" "writes_members d' ms w" by auto
      with s obj ms(2) d w_members show ?thesis by (intro exI [of _ "CHR ''{'' # w @ ''}''"]) simp
    qed
  next
    case num
    with 2 s obtain w where "scan_number s = Some (w, r)" "t = J_Number w" by (auto simp: map_apfst_Some)
    with scan_number_sound [of s w r] show ?thesis by (auto intro: w_number)
  next
    case lit
    with 2 s obtain w where "scan_literal s = Some (w, r)" "t = J_Literal w" by (auto simp: map_apfst_Some)
    with scan_literal_sound [of s w r] show ?thesis by (auto intro: w_literal)
  qed
next
  case (4 n d s)
  then obtain t r1 c r2 where v: "scan_value n d (skip_space s) = Some (t, r1)" "skip_space r1 = c # r2"
    by (auto split: option.splits list.splits)
  obtain u where u: "blank u" "s = u @ skip_space s" by (rule skip_space_split)
  obtain v' where v': "blank v'" "r1 = v' @ skip_space r1" by (rule skip_space_split)
  obtain w where w: "skip_space s = w @ r1" "writes d t w" using "4.IH"(1) [OF v(1)] by blast
  have s: "s = u @ w @ v' @ c # r2" using u(2) v'(2) w(1) v(2) by simp
  show ?case
  proof (cases "c = CHR '']''")
    case True
    with 4 v have "ts = [t]" "r = r2" by auto
    with s True w_item [OF u(1) w(2) v'(1)] show ?thesis by (intro exI [of _ "u @ w @ v'"]) simp
  next
    case False
    with 4 v obtain ts' where ts: "c = CHR '',''" "scan_items n d r2 = Some (ts', r)" "ts = t # ts'"
      by (auto simp: map_apfst_Some split: if_splits)
    with "4.IH"(2) [OF v(1) refl v(2) False] obtain x where "r2 = x @ CHR '']'' # r" "writes_items d ts' x" by blast
    with s ts w_more_items [OF u(1) w(2) v'(1)] show ?thesis
      by (intro exI [of _ "u @ w @ v' @ CHR '','' # x"]) simp
  qed
next
  case (6 n d s)
  then obtain k r0 t r1 c r2 where v: "scan_key s = Some (k, r0)"
    "scan_value n d (skip_space r0) = Some (t, r1)" "skip_space r1 = c # r2"
    by (auto split: option.splits list.splits)
  obtain u u1 where u: "s = u @ quote # k @ quote # u1 @ CHR '':'' # r0" "blank u" "blank u1" "inside k"
    using scan_key_sound [OF v(1)] by blast
  obtain u2 where u2: "blank u2" "r0 = u2 @ skip_space r0" by (rule skip_space_split)
  obtain v' where v': "blank v'" "r1 = v' @ skip_space r1" by (rule skip_space_split)
  obtain w where w: "skip_space r0 = w @ r1" "writes d t w" using "6.IH"(1) [OF v(1) refl v(2)] by blast
  have "r0 = u2 @ w @ v' @ c # r2" using u2(2) v'(2) w(1) v(3) by simp
  with u(1) have s: "s = u @ quote # k @ quote # u1 @ CHR '':'' # u2 @ w @ v' @ c # r2" by simp
  note rules = u(2,4,3) u2(1) w(2) v'(1)
  show ?case
  proof (cases "c = CHR ''}''")
    case True
    with 6 v have "ms = [(k, t)]" "r = r2" by auto
    with s True w_member [OF rules] show ?thesis
      by (intro exI [of _ "u @ quote # k @ quote # u1 @ CHR '':'' # u2 @ w @ v'"]) simp
  next
    case False
    with 6 v obtain ms' where ms: "c = CHR '',''" "scan_members n d r2 = Some (ms', r)" "ms = (k, t) # ms'"
      by (auto simp: map_apfst_Some split: if_splits)
    with "6.IH"(2) [OF v(1) refl v(2) refl v(3) False] obtain x where "r2 = x @ CHR ''}'' # r" "writes_members d ms' x"
      by blast
    with s ms w_more_members [OF rules] show ?thesis
      by (intro exI [of _ "u @ quote # k @ quote # u1 @ CHR '':'' # u2 @ w @ v' @ CHR '','' # x"]) simp
  qed
qed simp_all

text \<open>The parser decides the grammar, so a text writes at most one tree.\<close>

lemma next_value_complete: "writes d t w \<Longrightarrow> value_ends rest \<Longrightarrow> next_value d (w @ rest) = Some (t, rest)"
  by (simp add: next_value_def scan_complete(1))

lemma next_value_sound: "next_value d s = Some (t, r) \<Longrightarrow> \<exists>w. s = w @ r \<and> writes d t w"
  by (simp add: next_value_def scan_sound(1))

lemma json_parse_iff:
  "json_parse d s = Some t \<longleftrightarrow> (\<exists>u w v. s = u @ w @ v \<and> blank u \<and> blank v \<and> writes d t w)"
proof
  assume "json_parse d s = Some t"
  then obtain r where r: "next_value d (skip_space s) = Some (t, r)" "blank r"
    by (auto simp: json_parse_def skip_space_Nil split: option.splits if_splits)
  obtain u where "blank u" "s = u @ skip_space s" by (rule skip_space_split)
  with next_value_sound [OF r(1)] r(2) show "\<exists>u w v. s = u @ w @ v \<and> blank u \<and> blank v \<and> writes d t w" by metis
next
  assume "\<exists>u w v. s = u @ w @ v \<and> blank u \<and> blank v \<and> writes d t w"
  then obtain u w v where s: "s = u @ w @ v" "blank u" "blank v" "writes d t w" by blast
  then have "next_value d (skip_space s) = Some (t, v)"
    using value_ends_blank [of v "[]"] by (simp add: skip_before_value next_value_complete)
  with s(3) show "json_parse d s = Some t" by (simp add: json_parse_def skip_space_Nil)
qed

lemma writes_unique: "writes d t w \<Longrightarrow> writes d t' w \<Longrightarrow> t = t'"
  using next_value_complete [of d t w "[]"] next_value_complete [of d t' w "[]"] by simp

section \<open>A printed tree reads back\<close>

lemma writes_nonempty:
  "writes_items d ts w \<Longrightarrow> ts \<noteq> []" "writes_members d ms w \<Longrightarrow> ms \<noteq> []"
  by (auto elim: writes_items.cases writes_members.cases)

lemma print_writes:
  assumes "\<forall>k. blank (nl k)" "blank sp"
  shows "writes d t w \<Longrightarrow> (\<And>k. writes d t (print_value nl sp k t))"
    "writes_items d ts w \<Longrightarrow> (\<And>k v. blank v \<Longrightarrow> writes_items d ts (print_items nl sp k ts @ v))"
    "writes_members d ms w \<Longrightarrow> (\<And>k v. blank v \<Longrightarrow> writes_members d ms (print_members nl sp k ms @ v))"
proof (induction rule: writes_writes_items_writes_members.inducts)
  case (w_no_items u d)
  show ?case using writes_writes_items_writes_members.w_no_items [of "[]" d] by simp
next
  case (w_no_members u d)
  show ?case using writes_writes_items_writes_members.w_no_members [of "[]" d] by simp
next
  case (w_items d ts w)
  then show ?case
    using writes_writes_items_writes_members.w_items [OF w_items.IH [of "nl k" "Suc k"]] assms writes_nonempty(1)
    by auto
next
  case (w_members d ms w)
  then show ?case
    using writes_writes_items_writes_members.w_members [OF w_members.IH [of "nl k" "Suc k"]] assms writes_nonempty(2)
    by auto
next
  case (w_item u d t w v)
  then show ?case
    using writes_writes_items_writes_members.w_item [of "nl k" d t "print_value nl sp k t" va for k va] assms by simp
next
  case (w_more_items u d t w v ts r)
  then show ?case
    using writes_writes_items_writes_members.w_more_items [of "nl k" d t "print_value nl sp k t" "[]" ts
        "print_items nl sp k ts @ va" for k va] assms writes_nonempty(1) by auto
next
  case (w_member u key u1 u2 d t w v)
  then show ?case
    using writes_writes_items_writes_members.w_member [of "nl j" key "[]" sp d t "print_value nl sp j t" va for j va]
      assms by simp
next
  case (w_more_members u key u1 u2 d t w v ms r)
  then show ?case
    using writes_writes_items_writes_members.w_more_members [of "nl j" key "[]" sp d t "print_value nl sp j t" "[]" ms
        "print_members nl sp j ms @ va" for j va] assms writes_nonempty(2) by auto
qed (simp_all add: writes_writes_items_writes_members.intros)

end
