(* ===== verification/Json_Text.thy ===== *)
theory Json_Text
  imports Json
begin

text \<open>
  The text inside JSON strings: what \<open>encoding/json\<close> reads from an escaped string, how it writes one,
  and how \<open>json.Marshal\<close> escapes the strings of a text that is already JSON.  The last changes how a
  string is written and not what it says.
\<close>

section \<open>Reading\<close>

text \<open>A \<open>\uXXXX\<close> in front: its code unit and the text after it.\<close>

fun unit_at :: "string \<Rightarrow> (nat \<times> string) option" where
  "unit_at (c # e # h1 # h2 # h3 # h4 # s) =
    (if c = backslash \<and> e = CHR ''u'' then
       (case (hex_value h1, hex_value h2, hex_value h3, hex_value h4) of
          (Some a, Some b, Some x, Some y) \<Rightarrow> Some (((a * 16 + b) * 16 + x) * 16 + y, s)
        | _ \<Rightarrow> None)
     else None)"
| "unit_at _ = None"

definition is_surrogate :: "nat \<Rightarrow> bool" where
  "is_surrogate r \<longleftrightarrow> 0xD800 \<le> r \<and> r < 0xE000"

definition low_surrogate :: "nat \<Rightarrow> bool" where
  "low_surrogate r \<longleftrightarrow> 0xDC00 \<le> r \<and> r < 0xE000"

text \<open>The rune an escape stands for: a surrogate needs its other half, or it is the error rune.\<close>

definition escaped_rune :: "string \<Rightarrow> (nat \<times> string) option" where
  "escaped_rune s =
    (case unit_at s of
       None \<Rightarrow> None
     | Some (r, s1) \<Rightarrow>
         if \<not> is_surrogate r then Some (r, s1)
         else
           (case unit_at s1 of
              None \<Rightarrow> Some (rune_error, s1)
            | Some (r2, s2) \<Rightarrow>
                if r < 0xDC00 \<and> low_surrogate r2
                then Some (0x10000 + (r - 0xD800) * 0x400 + (r2 - 0xDC00), s2)
                else Some (rune_error, s1)))"

lemma unit_at_shorter: "unit_at s = Some (r, t) \<Longrightarrow> length t < length s"
  by (cases s rule: unit_at.cases) (auto split: if_splits option.splits)

lemma escaped_rune_shorter: "escaped_rune s = Some (r, t) \<Longrightarrow> length t < length s"
  by (fastforce simp: escaped_rune_def split: option.splits if_splits dest: unit_at_shorter)

function unquote :: "string \<Rightarrow> string" where
  "unquote s =
    (case s of
       [] \<Rightarrow> []
     | c # r \<Rightarrow>
         if c = backslash then
           (case escaped_rune s of
              Some (x, t) \<Rightarrow> encode_rune x @ unquote t
            | None \<Rightarrow>
                (case r of
                   [] \<Rightarrow> []
                 | e # t \<Rightarrow> (case map_of short_escapes e of Some x \<Rightarrow> x # unquote t | None \<Rightarrow> unquote t)))
         else if byte c < 128 then c # unquote r
         else encode_rune (fst (decode_rune s)) @ unquote (drop (snd (decode_rune s)) s))"
  by pat_completeness auto
termination
proof (relation "measure length")
  fix s r :: string and c and y :: "nat \<times> string" and x t
  assume "s = c # r" "escaped_rune s = Some y" "(x, t) = y"
  then have "escaped_rune s = Some (x, t)" by simp
  with escaped_rune_shorter show "(t, s) \<in> measure length" by simp
next
  fix s r :: string and c
  assume "s = c # r"
  with decode_rune_width [of s] show "(drop (snd (decode_rune s)) s, s) \<in> measure length" by simp
qed auto

declare unquote.simps [simp del]

section \<open>Writing\<close>

text \<open>A byte as \<open>\u00XX\<close>.\<close>

definition escape_byte :: "char \<Rightarrow> string" where
  "escape_byte c = [backslash, CHR ''u'', CHR ''0'', CHR ''0'', hex_lower (byte c div 16), hex_lower (byte c mod 16)]"

definition html_unsafe :: "char \<Rightarrow> bool" where
  "html_unsafe c \<longleftrightarrow> c \<in> set ''<>&''"

definition quote_byte :: "char \<Rightarrow> string" where
  "quote_byte c =
    (if c = quote \<or> c = backslash then [backslash, c]
     else if c = CHR 0x08 then [backslash, CHR ''b'']
     else if c = CHR 0x0C then [backslash, CHR ''f'']
     else if c = newline then [backslash, CHR ''n'']
     else if c = carriage_return then [backslash, CHR ''r'']
     else if c = CHR 0x09 then [backslash, CHR ''t'']
     else if byte c < 32 \<or> html_unsafe c then escape_byte c
     else [c])"

definition quote_chunk :: "nat \<times> string \<Rightarrow> string" where
  "quote_chunk p =
    (case p of (r, bs) \<Rightarrow>
       if r < 128 then quote_byte (char_of r)
       else if r = rune_error \<and> length bs = 1 then backslash # ''ufffd''
       else if r = 0x2028 then backslash # ''u2028''
       else if r = 0x2029 then backslash # ''u2029''
       else bs)"

definition quote_inside :: "string \<Rightarrow> string" where
  "quote_inside s = concat (map quote_chunk (rune_chunks s))"

section \<open>Escaping what is already written\<close>

fun html_escape :: "string \<Rightarrow> string" where
  "html_escape [] = []"
| "html_escape (c # s) =
    (if html_unsafe c then escape_byte c @ html_escape s
     else if c = CHR 0xE2 \<and> has_prefix s [CHR 0x80, CHR 0xA8] then backslash # ''u2028'' @ html_escape (drop 2 s)
     else if c = CHR 0xE2 \<and> has_prefix s [CHR 0x80, CHR 0xA9] then backslash # ''u2029'' @ html_escape (drop 2 s)
     else c # html_escape s)"

text \<open>A tree with every text in it changed.\<close>

fun retext :: "(string \<Rightarrow> string) \<Rightarrow> json \<Rightarrow> json" where
  "retext f (J_Literal w) = J_Literal w"
| "retext f (J_Number w) = J_Number w"
| "retext f (J_String b) = J_String (f b)"
| "retext f (J_Array ts) = J_Array (map (retext f) ts)"
| "retext f (J_Object ms) = J_Object (map (\<lambda>m. (f (fst m), retext f (snd m))) ms)"

text \<open>What a tree says, whatever the way its texts are written.\<close>

definition meaning :: "json \<Rightarrow> json" where
  "meaning t = retext unquote t"

section \<open>Quoted texts\<close>

lemma inside_append: "inside b \<Longrightarrow> inside r \<Longrightarrow> inside (b @ r)"
  by (induction rule: inside.induct) (auto intro: inside.intros)

lemma inside_ConsD: "inside (c # s) \<Longrightarrow> c \<noteq> backslash \<Longrightarrow> inside s"
  by (erule inside.cases) auto

lemma inside_bytes: "\<forall>c \<in> set b. 128 \<le> byte c \<Longrightarrow> inside b"
  by (induction b) (auto intro!: in_empty in_plain)

lemma unquote_simps:
  "unquote [] = []"
  "c \<noteq> backslash \<Longrightarrow> byte c < 128 \<Longrightarrow> unquote (c # r) = c # unquote r"
  "128 \<le> byte c \<Longrightarrow> unquote (c # r) =
    encode_rune (fst (decode_rune (c # r))) @ unquote (drop (snd (decode_rune (c # r))) (c # r))"
  "escaped_rune (backslash # r) = Some (x, t) \<Longrightarrow> unquote (backslash # r) = encode_rune x @ unquote t"
  "map_of short_escapes e = Some y \<Longrightarrow> unquote (backslash # e # t) = y # unquote t"
proof -
  show "128 \<le> byte c \<Longrightarrow> unquote (c # r) =
    encode_rune (fst (decode_rune (c # r))) @ unquote (drop (snd (decode_rune (c # r))) (c # r))"
    by (subst unquote.simps) auto
  assume "map_of short_escapes e = Some y"
  moreover from this have "e \<noteq> CHR ''u''" by auto
  then have "unit_at (backslash # e # t) = None"
    by (cases "backslash # e # t" rule: unit_at.cases) auto
  then have "escaped_rune (backslash # e # t) = None" by (simp add: escaped_rune_def)
  ultimately show "unquote (backslash # e # t) = y # unquote t" by (subst unquote.simps) simp
qed (subst unquote.simps, simp)+

lemma hex_value_zero [simp]: "hex_value (CHR ''0'') = Some 0" "hex_value (CHR ''2'') = Some 2"
    "hex_value (CHR ''8'') = Some 8" "hex_value (CHR ''9'') = Some 9" "hex_value (CHR ''f'') = Some 15"
    "hex_value (CHR ''d'') = Some 13"
  by (simp_all add: hex_value_def is_digit_def byte_def)

lemma escaped_byte: "byte c < 128 \<Longrightarrow> escaped_rune (escape_byte c @ r) = Some (byte c, r)"
  by (simp add: escaped_rune_def escape_byte_def hex_value_lower is_surrogate_def)

lemma unquote_escape_byte: "byte c < 128 \<Longrightarrow> unquote (escape_byte c @ r) = c # unquote r"
  using escaped_byte [of c r] unquote_simps(4) by (simp add: escape_byte_def encode_rune_ascii)

lemma inside_escape_byte: "inside r \<Longrightarrow> inside (escape_byte c @ r)"
proof -
  have "byte c div 16 < 16" using byte_less [of c] by linarith
  then show "inside r \<Longrightarrow> inside (escape_byte c @ r)"
    by (auto simp: escape_byte_def hex_value_lower intro!: in_unit)
qed

lemma unquote_named:
  "unquote (backslash # ''ufffd'' @ r) = encode_rune rune_error @ unquote r"
  "unquote (backslash # ''u2028'' @ r) = encode_rune 0x2028 @ unquote r"
  "unquote (backslash # ''u2029'' @ r) = encode_rune 0x2029 @ unquote r"
  by (rule unquote_simps(4), simp add: escaped_rune_def is_surrogate_def rune_error_def)+

lemma inside_named:
  "inside r \<Longrightarrow> inside (backslash # ''ufffd'' @ r)" "inside r \<Longrightarrow> inside (backslash # ''u2028'' @ r)"
  "inside r \<Longrightarrow> inside (backslash # ''u2029'' @ r)"
  by (auto intro!: in_unit)

section \<open>A quoted text reads back\<close>

lemma quote_byte_cases:
  obtains (short) e where "map_of short_escapes e = Some c" "quote_byte c = [backslash, e]"
  | (unsafe) "quote_byte c = escape_byte c"
  | (plain) "quote_byte c = [c]" "c \<noteq> quote" "c \<noteq> backslash" "32 \<le> byte c"
proof -
  have "c \<in> {quote, backslash, CHR 0x08, CHR 0x0C, newline, carriage_return, CHR 0x09} \<longrightarrow>
      (\<exists>e. map_of short_escapes e = Some c \<and> quote_byte c = [backslash, e])"
    by (simp add: quote_byte_def short_escapes_def)
  moreover have "quote_byte c = (if byte c < 32 \<or> html_unsafe c then escape_byte c else [c])"
    if "c \<notin> {quote, backslash, CHR 0x08, CHR 0x0C, newline, carriage_return, CHR 0x09}"
    using that by (simp add: quote_byte_def)
  ultimately show thesis using short unsafe plain by (metis insertI1 insertI2 not_less)
qed

lemma unquote_quote_byte: "byte c < 128 \<Longrightarrow> unquote (quote_byte c @ r) = c # unquote r"
  by (cases c rule: quote_byte_cases) (simp_all add: unquote_simps unquote_escape_byte)

lemma inside_quote_byte: "inside r \<Longrightarrow> inside (quote_byte c @ r)"
  by (cases c rule: quote_byte_cases) (auto simp: inside_escape_byte intro: in_short in_plain)

lemma encode_rune_high: "128 \<le> r \<Longrightarrow> \<forall>c \<in> set (encode_rune r). 128 \<le> byte c"
  by (auto simp: encode_rune_def byte_def)

lemma unquote_encoded:
  "valid_rune r \<Longrightarrow> 128 \<le> r \<Longrightarrow> unquote (encode_rune r @ t) = encode_rune r @ unquote t"
  using encode_rune_high [of r] decode_encode_rune [of r t] encode_rune_length [of r]
  by (cases "encode_rune r") (simp_all add: unquote_simps(3))

lemma quote_chunk_ok:
  assumes "s \<noteq> []" "p = (fst (decode_rune s), take (snd (decode_rune s)) s)"
  shows "unquote (quote_chunk p @ r) = encode_rune (fst p) @ unquote r" "inside r \<Longrightarrow> inside (quote_chunk p @ r)"
proof -
  note sound = decode_rune_sound [OF assms(1)]
  have "unquote (quote_chunk p @ r) = encode_rune (fst p) @ unquote r \<and> (inside r \<longrightarrow> inside (quote_chunk p @ r))"
  proof (cases "fst p < 128")
    case True
    then show ?thesis by (simp add: quote_chunk_def split_beta unquote_quote_byte inside_quote_byte encode_rune_ascii)
  next
    case False
    then have high: "128 \<le> fst p" by simp
    have "snd p = encode_rune (fst p)" if "\<not> (fst p = rune_error \<and> length (snd p) = 1)"
      using that sound assms(2) decode_rune_width [OF assms(1)] by (cases "decode_rune s") auto
    moreover have "inside (encode_rune (fst p) @ r)" if "inside r"
      using inside_append [OF inside_bytes that] encode_rune_high [OF high] by blast
    ultimately show ?thesis
      using high sound assms(2) unquote_named inside_named unquote_encoded [of "fst p" r]
      by (auto simp: quote_chunk_def split_beta)
  qed
  then show "unquote (quote_chunk p @ r) = encode_rune (fst p) @ unquote r" "inside r \<Longrightarrow> inside (quote_chunk p @ r)"
    by blast+
qed

text \<open>Bytes that are no UTF-8 come back as the error rune; any other text comes back as it was.\<close>

lemma quote_inside_reads: "unquote (quote_inside s) = encode_runes (runes s)" "inside (quote_inside s)"
proof -
  have "unquote (quote_inside s) = encode_runes (runes s) \<and> inside (quote_inside s)"
  proof (induction s rule: rune_chunks.induct)
    case (1 s)
    show ?case
    proof (cases "s = []")
      case False
      let ?p = "(fst (decode_rune s), take (snd (decode_rune s)) s)"
      from False have "quote_inside s = quote_chunk ?p @ quote_inside (drop (snd (decode_rune s)) s)"
        by (simp add: quote_inside_def rune_chunks_Cons)
      with 1 False show ?thesis
        using quote_chunk_ok [OF False refl] by (simp add: runes_Cons encode_runes_def)
    qed (simp add: quote_inside_def encode_runes_def unquote_simps(1) in_empty)
  qed
  then show "unquote (quote_inside s) = encode_runes (runes s)" "inside (quote_inside s)" by blast+
qed

lemma quote_inside_back: "utf8_valid s \<Longrightarrow> unquote (quote_inside s) = s"
  by (simp add: quote_inside_reads encode_runes_valid)

section \<open>Escaping keeps what a text says\<close>

lemma html_escape_copy:
  "\<forall>c \<in> set a. \<not> html_unsafe c \<and> c \<noteq> CHR 0xE2 \<Longrightarrow> html_escape (a @ s) = a @ html_escape s"
  by (induction a) auto

lemma hex_safe: "hex_value c \<noteq> None \<Longrightarrow> \<not> html_unsafe c \<and> c \<noteq> CHR 0xE2"
  by (auto simp: hex_value_def html_unsafe_def is_digit_def byte_def split: if_splits)

lemma short_safe: "map_of short_escapes c \<noteq> None \<Longrightarrow> \<not> html_unsafe c \<and> c \<noteq> CHR 0xE2"
  by (auto simp: short_escapes_def html_unsafe_def split: if_splits)

lemma backslash_safe [simp]: "\<not> html_unsafe backslash" "\<not> html_unsafe (CHR ''u'')"
  by (simp_all add: html_unsafe_def)

lemma html_escape_short: "map_of short_escapes e \<noteq> None \<Longrightarrow> html_escape (backslash # e # s) = backslash # e # html_escape s"
  using short_safe [of e] html_escape_copy [of "[backslash, e]" s] by auto

lemma html_escape_unit:
  assumes "hex_value h1 \<noteq> None" "hex_value h2 \<noteq> None" "hex_value h3 \<noteq> None" "hex_value h4 \<noteq> None"
  shows "html_escape (backslash # CHR ''u'' # h1 # h2 # h3 # h4 # s)
    = backslash # CHR ''u'' # h1 # h2 # h3 # h4 # html_escape s"
  using assms [THEN hex_safe] html_escape_copy [of "[backslash, CHR ''u'', h1, h2, h3, h4]" s] by auto

text \<open>The four ways a byte is escaped.\<close>

lemma html_escape_cases:
  obtains (unsafe) "html_unsafe c" "html_escape (c # s) = escape_byte c @ html_escape s"
  | (line) t where "c = CHR 0xE2" "s = CHR 0x80 # CHR 0xA8 # t" "html_escape (c # s) = backslash # ''u2028'' @ html_escape t"
  | (par) t where "c = CHR 0xE2" "s = CHR 0x80 # CHR 0xA9 # t" "html_escape (c # s) = backslash # ''u2029'' @ html_escape t"
  | (same) "\<not> html_unsafe c" "html_escape (c # s) = c # html_escape s"
proof -
  have pre: "has_prefix s [x, y] \<Longrightarrow> s = x # y # drop 2 s" for x y
    by (cases s; cases "tl s") (simp_all add: has_prefix_def)
  consider "html_unsafe c" | "\<not> html_unsafe c" "c = CHR 0xE2" "has_prefix s [CHR 0x80, CHR 0xA8]"
    | "\<not> html_unsafe c" "c = CHR 0xE2" "\<not> has_prefix s [CHR 0x80, CHR 0xA8]" "has_prefix s [CHR 0x80, CHR 0xA9]"
    | "\<not> html_unsafe c" "\<not> (c = CHR 0xE2 \<and> has_prefix s [CHR 0x80, CHR 0xA8])"
      "\<not> (c = CHR 0xE2 \<and> has_prefix s [CHR 0x80, CHR 0xA9])" by blast
  then show thesis
  proof cases
    case 1
    then show thesis by (intro unsafe) simp_all
  next
    case 2
    then show thesis by (intro line [OF _ pre [OF 2(3)]]) simp_all
  next
    case 3
    then show thesis by (intro par [OF _ pre [OF 3(4)]]) simp_all
  next
    case 4
    then show thesis by (intro same) simp_all
  qed
qed

lemma unsafe_ascii: "html_unsafe c \<Longrightarrow> byte c < 128"
  by (auto simp: html_unsafe_def byte_def)

lemma inside_html_escape: "inside b \<Longrightarrow> inside (html_escape b)"
proof (induction "length b" arbitrary: b rule: less_induct)
  case less
  from less.prems show ?case
  proof (cases rule: inside.cases)
    case (in_plain c s)
    show ?thesis
    proof (cases c s rule: html_escape_cases)
      case unsafe
      with less in_plain show ?thesis by (simp add: inside_escape_byte)
    next
      case (line t)
      with in_plain have "inside t" by (auto dest!: inside_ConsD)
      with less.hyps [of t] line in_plain inside_named show ?thesis by simp
    next
      case (par t)
      with in_plain have "inside t" by (auto dest!: inside_ConsD)
      with less.hyps [of t] par in_plain inside_named show ?thesis by simp
    next
      case same
      with less.hyps [of s] in_plain show ?thesis by (simp add: inside.in_plain)
    qed
  next
    case (in_short e s)
    with less.hyps [of s] show ?thesis by (simp add: html_escape_short inside.in_short del: html_escape.simps)
  next
    case (in_unit h1 h2 h3 h4 s)
    with less.hyps [of s] html_escape_unit [OF in_unit(2-5)] inside.in_unit [OF in_unit(2-5)] show ?thesis by simp
  qed (simp add: in_empty)
qed

lemma unit_at_no_backslash: "c \<noteq> backslash \<Longrightarrow> unit_at (c # s) = None"
  by (cases "c # s" rule: unit_at.cases) auto

lemma unit_at_short: "e \<noteq> CHR ''u'' \<Longrightarrow> unit_at (backslash # e # s) = None"
  by (cases "backslash # e # s" rule: unit_at.cases) auto

lemma unit_at_escape:
  assumes "inside s"
  shows "case unit_at s of Some (r, t) \<Rightarrow> unit_at (html_escape s) = Some (r, html_escape t) \<and> inside t
    | None \<Rightarrow> (\<forall>r t. unit_at (html_escape s) = Some (r, t) \<longrightarrow> \<not> low_surrogate r)"
  using assms
proof (cases rule: inside.cases)
  case (in_plain c s')
  have "unit_at s = None" using in_plain by (simp add: unit_at_no_backslash)
  moreover have "\<not> low_surrogate r" if "unit_at (html_escape s) = Some (r, t)" for r t
  proof (cases c s' rule: html_escape_cases)
    case unsafe
    with that in_plain unsafe_ascii [OF unsafe(1)] show ?thesis
      by (auto simp: escape_byte_def hex_value_lower low_surrogate_def)
  next
    case same
    with that in_plain show ?thesis by (simp add: unit_at_no_backslash)
  qed (use that in_plain in \<open>auto simp: low_surrogate_def\<close>)
  ultimately show ?thesis by auto
next
  case (in_short e s')
  then have "e \<noteq> CHR ''u''" by auto
  with in_short show ?thesis by (simp add: html_escape_short unit_at_short del: html_escape.simps)
next
  case (in_unit h1 h2 h3 h4 s')
  then show ?thesis using html_escape_unit [OF in_unit(2-5), of s'] by auto
qed simp

lemma escaped_rune_escape:
  assumes "inside s" "unit_at s \<noteq> None"
  shows "\<exists>r t. escaped_rune s = Some (r, t) \<and> escaped_rune (html_escape s) = Some (r, html_escape t) \<and> inside t"
proof -
  obtain r t where s: "unit_at s = Some (r, t)" using assms(2) by auto
  with unit_at_escape [OF assms(1)] have h: "unit_at (html_escape s) = Some (r, html_escape t)" "inside t" by auto
  show ?thesis
  proof (cases "is_surrogate r")
    case False
    with s h show ?thesis by (simp add: escaped_rune_def)
  next
    case True
    from unit_at_escape [OF h(2)] s h True show ?thesis
      by (cases "unit_at t"; cases "unit_at (html_escape t)") (auto simp: escaped_rune_def)
  qed
qed

text \<open>A rune takes its first byte and continuation bytes, and those are never escaped.\<close>

lemma second_ok_cont: "second_ok b x \<Longrightarrow> is_cont x"
  by (auto simp: second_ok_def second_range_def is_cont_def split: if_splits)

lemma decode_rune_cont: "decode_rune (c # s) = decode_rune (c # takeWhile is_cont s)"
proof -
  consider "s = []" | x where "s = [x]" | x y where "s = [x, y]" | x y z r where "s = x # y # z # r"
    by (cases s rule: unit_at.cases) auto
  then show ?thesis
  proof cases
    case (4 x y z r)
    moreover have "second_ok b x \<longleftrightarrow> second_ok b x \<and> is_cont x" for b using second_ok_cont by blast
    ultimately show ?thesis
      by (cases "is_cont x"; cases "is_cont y"; cases "is_cont z") (simp_all add: Let_def)
  qed (use second_ok_cont in \<open>auto simp: Let_def\<close>)
qed

lemma decode_rune_reach: "snd (decode_rune (c # s)) \<le> Suc (length (takeWhile is_cont s))"
  using decode_rune_width [of "c # takeWhile is_cont s"] decode_rune_cont [of c s] by simp

lemma cont_safe: "is_cont c \<Longrightarrow> \<not> html_unsafe c \<and> c \<noteq> CHR 0xE2"
  by (auto simp: is_cont_def html_unsafe_def byte_def)

lemma not_cont: "\<not> is_cont backslash" "\<not> is_cont (CHR 0xE2)"
  by (simp_all add: is_cont_def byte_def)

lemma takeWhile_html_escape: "takeWhile is_cont (html_escape s) = takeWhile is_cont s"
proof (induction s)
  case (Cons c s)
  show ?case
  proof (cases "is_cont c")
    case True
    with cont_safe [OF True] Cons show ?thesis by simp
  next
    case False
    then show ?thesis
      by (cases c s rule: html_escape_cases) (simp_all add: escape_byte_def not_cont del: html_escape.simps)
  qed
qed simp

lemma drop_html_escape:
  assumes "k \<le> length (takeWhile is_cont s)"
  shows "drop k (html_escape s) = html_escape (drop k s)"
proof -
  have "set (take k s) \<subseteq> Collect is_cont"
    using assms by (metis (no_types, lifting) mem_Collect_eq set_takeWhileD set_take_subset subsetD subsetI
        takeWhile_eq_take min.absorb1 take_take)
  then have "html_escape (take k s @ drop k s) = take k s @ html_escape (drop k s)"
    using cont_safe by (intro html_escape_copy) auto
  moreover have "length (take k s) = k" using assms length_takeWhile_le [of is_cont s] by simp
  ultimately show ?thesis by (metis append_eq_conv_conj append_take_drop_id)
qed

lemma inside_drop_cont: "inside s \<Longrightarrow> k \<le> length (takeWhile is_cont s) \<Longrightarrow> inside (drop k s)"
proof (induction k arbitrary: s)
  case (Suc k)
  then obtain c r where s: "s = c # r" "is_cont c" by (cases s) (auto split: if_splits)
  then have "c \<noteq> backslash" by (auto simp: is_cont_def)
  with Suc s inside_ConsD [of c r] show ?case by simp
qed simp

lemma separators:
  "encode_rune 0x2028 = [CHR 0xE2, CHR 0x80, CHR 0xA8]" "encode_rune 0x2029 = [CHR 0xE2, CHR 0x80, CHR 0xA9]"
  "valid_rune 0x2028" "valid_rune 0x2029"
  by (code_simp, code_simp, simp_all add: valid_rune_def)

lemma unquote_html_escape: "inside b \<Longrightarrow> unquote (html_escape b) = unquote b"
proof (induction "length b" arbitrary: b rule: less_induct)
  case less
  from less.prems show ?case
  proof (cases rule: inside.cases)
    case (in_plain c s)
    show ?thesis
    proof (cases c s rule: html_escape_cases)
      case unsafe
      with less in_plain unsafe_ascii [OF unsafe(1)] show ?thesis
        by (simp add: unquote_escape_byte unquote_simps(2))
    next
      case (line t)
      with in_plain have t: "inside t" by (auto dest!: inside_ConsD)
      have "unquote b = encode_rune 0x2028 @ unquote t"
        using line in_plain separators unquote_encoded [of "0x2028" t] by simp
      with less.hyps [of t] line in_plain t unquote_named(2) [of "html_escape t"] show ?thesis by simp
    next
      case (par t)
      with in_plain have t: "inside t" by (auto dest!: inside_ConsD)
      have "unquote b = encode_rune 0x2029 @ unquote t"
        using par in_plain separators unquote_encoded [of "0x2029" t] by simp
      with less.hyps [of t] par in_plain t unquote_named(3) [of "html_escape t"] show ?thesis by simp
    next
      case same
      show ?thesis
      proof (cases "byte c < 128")
        case True
        with less.hyps [of s] same in_plain show ?thesis by (simp add: unquote_simps(2))
      next
        case False
        let ?n = "snd (decode_rune (c # s))"
        have decoded: "decode_rune (c # html_escape s) = decode_rune (c # s)"
          by (metis decode_rune_cont takeWhile_html_escape)
        obtain k where n: "?n = Suc k" using decode_rune_width [of "c # s"] by (cases ?n) auto
        then have k: "k \<le> length (takeWhile is_cont s)" using decode_rune_reach [of c s] by simp
        from less.hyps [of "drop k s"] in_plain inside_drop_cont [OF in_plain(5) k]
        have "unquote (html_escape (drop k s)) = unquote (drop k s)" by simp
        with False same in_plain n show ?thesis
          by (simp add: unquote_simps(3) decoded drop_html_escape [OF k] del: decode_rune.simps)
      qed
    qed
  next
    case (in_short e s)
    then obtain x where "map_of short_escapes e = Some x" by auto
    with less.hyps [of s] in_short show ?thesis
      by (simp add: html_escape_short unquote_simps(5) del: html_escape.simps)
  next
    case (in_unit h1 h2 h3 h4 s)
    then have "unit_at b \<noteq> None" by auto
    then obtain r t where e: "escaped_rune b = Some (r, t)" "escaped_rune (html_escape b) = Some (r, html_escape t)"
      "inside t" using escaped_rune_escape [OF less.prems] by blast
    have "\<exists>a. b = backslash # a" "\<exists>a. html_escape b = backslash # a"
      using in_unit html_escape_unit [OF in_unit(2-5)] by auto
    with e less.hyps [OF escaped_rune_shorter [OF e(1)] e(3)] show ?thesis by (auto simp: unquote_simps(4))
  qed simp
qed

section \<open>Trees and what they say\<close>

lemma writes_deeper:
  "writes d t w \<Longrightarrow> writes (Suc d) t w" "writes_items d ts w \<Longrightarrow> writes_items (Suc d) ts w"
  "writes_members d ms w \<Longrightarrow> writes_members (Suc d) ms w"
  by (induction rule: writes_writes_items_writes_members.inducts)
    (auto intro: writes_writes_items_writes_members.intros)

lemma retext_writes:
  assumes "\<And>b. inside b \<Longrightarrow> inside (f b)"
  shows "writes d t w \<Longrightarrow> \<exists>w'. writes d (retext f t) w'"
    "writes_items d ts w \<Longrightarrow> \<exists>w'. writes_items d (map (retext f) ts) w'"
    "writes_members d ms w \<Longrightarrow> \<exists>w'. writes_members d (map (\<lambda>m. (f (fst m), retext f (snd m))) ms) w'"
proof (induction rule: writes_writes_items_writes_members.inducts)
  case (w_items d ts w)
  then obtain w' where "writes_items d (map (retext f) ts) w'" by blast
  then show ?case using writes_writes_items_writes_members.w_items by auto
next
  case (w_members d ms w)
  then obtain w' where "writes_members d (map (\<lambda>m. (f (fst m), retext f (snd m))) ms) w'" by blast
  then show ?case using writes_writes_items_writes_members.w_members by auto
next
  case (w_item u d t w v)
  then obtain w' where "writes d (retext f t) w'" by blast
  from writes_writes_items_writes_members.w_item [OF blank_simps(1) this blank_simps(1)] show ?case by auto
next
  case (w_more_items u d t w v ts r)
  then obtain w' r' where "writes d (retext f t) w'" "writes_items d (map (retext f) ts) r'" by blast
  from writes_writes_items_writes_members.w_more_items [OF blank_simps(1) this(1) blank_simps(1) this(2)]
  show ?case by auto
next
  case (w_member u k u1 u2 d t w v)
  then obtain w' where "writes d (retext f t) w'" by blast
  from writes_writes_items_writes_members.w_member [OF blank_simps(1) assms [OF w_member.hyps(2)]
      blank_simps(1) blank_simps(1) this blank_simps(1)]
  show ?case by auto
next
  case (w_more_members u k u1 u2 d t w v ms r)
  then obtain w' r' where "writes d (retext f t) w'"
    "writes_members d (map (\<lambda>m. (f (fst m), retext f (snd m))) ms) r'" by blast
  from writes_writes_items_writes_members.w_more_members [OF blank_simps(1) assms [OF w_more_members.hyps(2)]
      blank_simps(1) blank_simps(1) this(1) blank_simps(1) this(2)]
  show ?case by auto
qed (use assms in \<open>auto intro: writes_writes_items_writes_members.intros blank_simps(1)\<close>)

lemma meaning_escape:
  "writes d t w \<Longrightarrow> meaning (retext html_escape t) = meaning t"
  "writes_items d ts w \<Longrightarrow> map (\<lambda>t. meaning (retext html_escape t)) ts = map meaning ts"
  "writes_members d ms w \<Longrightarrow>
    map (\<lambda>m. (unquote (html_escape (fst m)), meaning (retext html_escape (snd m)))) ms
      = map (\<lambda>m. (unquote (fst m), meaning (snd m))) ms"
  by (induction rule: writes_writes_items_writes_members.inducts)
    (simp_all add: meaning_def unquote_html_escape)

text \<open>Both the escaped and the plain printing of a text that is JSON write trees that say the same.\<close>

lemma printed_says:
  assumes "writes d t w" "\<forall>k. blank (nl k)" "blank sp"
  shows "writes d t (print_value nl sp k t)"
    "writes d (retext html_escape t) (print_value nl sp k (retext html_escape t))"
proof -
  show "writes d t (print_value nl sp k t)" by (rule print_writes(1) [OF assms(2,3,1)])
  from retext_writes(1) [of html_escape, OF inside_html_escape assms(1)]
  obtain w' where "writes d (retext html_escape t) w'" by blast
  then show "writes d (retext html_escape t) (print_value nl sp k (retext html_escape t))"
    by (rule print_writes(1) [OF assms(2,3)])
qed

end
