(* ===== verification/Documents.thy ===== *)
theory Documents
  imports Formats Json_Text
begin

text \<open>
  What the program relies on of \<open>encoding/json\<close>, as an interface: which tree a text says, and the laws
  that reading into raw messages, writing and laying out obey.  Inside it the two JSON shuffles are
  shown to keep the document: the host list of the answer is a permutation of the one received, and
  everything around it says the same.
\<close>

section \<open>What a text says\<close>

definition says :: "nat \<Rightarrow> string \<Rightarrow> json \<Rightarrow> bool" where
  "says d w v \<longleftrightarrow> (\<exists>t. writes d t w \<and> meaning t = v)"

text \<open>A whole document, and a document that is followed by something else.\<close>

definition document :: "string \<Rightarrow> json \<Rightarrow> bool" where
  "document s v \<longleftrightarrow> (\<exists>u w r. s = u @ w @ r \<and> blank u \<and> blank r \<and> says max_depth w v)"

definition begins :: "string \<Rightarrow> json \<Rightarrow> bool" where
  "begins s v \<longleftrightarrow> (\<exists>u w r. s = u @ w @ r \<and> blank u \<and> says (Suc max_depth) w v)"

text \<open>An object as its members: the texts of the code next to what they say.\<close>

definition members_say :: "object \<Rightarrow> (string \<times> json) list \<Rightarrow> bool" where
  "members_say obj ms \<longleftrightarrow>
    list_all2 (\<lambda>m n. fst m = fst n \<and> utf8_valid (fst m) \<and> (\<exists>d. says d (snd m) (snd n))) obj ms"

section \<open>Decoding into structs\<close>

text \<open>
  Decoding what a document says into the structs the code declares.  A key matches a field in any
  letter case, the last one counts, \<open>null\<close> leaves a text as it is and empties a list, and a value of the
  wrong kind is reported in the flag while decoding goes on.
\<close>

abbreviation null :: json where
  "null \<equiv> J_Literal ''null''"

definition decode_text :: "json \<Rightarrow> string \<Rightarrow> string \<times> bool" where
  "decode_text v old =
    (case v of J_String b \<Rightarrow> (b, True) | _ \<Rightarrow> (old, v = null))"

definition decode_texts :: "json \<Rightarrow> string list \<Rightarrow> string list \<times> bool" where
  "decode_texts v old =
    (case v of
       J_Array vs \<Rightarrow> (map (\<lambda>v. fst (decode_text v [])) vs, list_all (\<lambda>v. snd (decode_text v [])) vs)
     | _ \<Rightarrow> if v = null then ([], True) else (old, False))"

definition decode_member :: "string \<times> json \<Rightarrow> json_node \<times> bool \<Rightarrow> json_node \<times> bool" where
  "decode_member m st =
    (case (m, st) of
       ((k, v), (n, ok)) \<Rightarrow>
         if equal_fold k ''tag'' then
           (let (x, good) = decode_text v (node_tag n) in (n\<lparr>node_tag := x\<rparr>, ok \<and> good))
         else if equal_fold k ''server'' then
           (let (x, good) = decode_text v (node_server n) in (n\<lparr>node_server := x\<rparr>, ok \<and> good))
         else if equal_fold k ''outbounds'' then
           (let (x, good) = decode_texts v (node_outbounds n) in (n\<lparr>node_outbounds := x\<rparr>, ok \<and> good))
         else st)"

definition empty_node :: json_node where
  "empty_node = \<lparr>node_tag = [], node_server = [], node_outbounds = []\<rparr>"

definition decode_node :: "json \<Rightarrow> json_node \<times> bool" where
  "decode_node v =
    (case v of
       J_Object ms \<Rightarrow> fold decode_member ms (empty_node, True)
     | _ \<Rightarrow> (empty_node, v = null))"

definition decode_remarks :: "json \<Rightarrow> string option" where
  "decode_remarks v =
    (case v of
       J_Object ms \<Rightarrow>
         (let (r, ok) = fold (\<lambda>(k, v) (r, ok).
              if equal_fold k ''remarks'' then (let (x, good) = decode_text v r in (x, ok \<and> good)) else (r, ok))
            ms ([], True)
          in if ok then Some r else None)
     | _ \<Rightarrow> if v = null then Some [] else None)"

text \<open>The names by which the two formats are shuffled.\<close>

definition xray_doc_name :: "json \<Rightarrow> string" where
  "xray_doc_name v = (case decode_remarks v of None \<Rightarrow> [] | Some r \<Rightarrow> r)"

definition singbox_doc_name :: "json \<Rightarrow> string" where
  "singbox_doc_name v = (let n = fst (decode_node v) in if node_server n \<noteq> [] then node_tag n else [])"

text \<open>
  An outbound after the shuffle: the one before, or a selector whose list of names is a permutation
  of the names it was decoded with.
\<close>

definition selector_kept :: "json \<Rightarrow> json \<Rightarrow> bool" where
  "selector_kept v v' \<longleftrightarrow> v' = v \<or>
    (\<exists>ms list. v = J_Object ms \<and> snd (decode_node v) \<and> mset list = mset (node_outbounds (fst (decode_node v)))
       \<and> v' = J_Object (object_set ms ''outbounds'' (J_Array (map J_String list))))"

text \<open>Every text in a tree is UTF-8, which is so for what a document says.\<close>

fun texts_valid :: "json \<Rightarrow> bool" where
  "texts_valid (J_String b) = utf8_valid b"
| "texts_valid (J_Array vs) = list_all texts_valid vs"
| "texts_valid (J_Object ms) = list_all (\<lambda>m. utf8_valid (fst m) \<and> texts_valid (snd m)) ms"
| "texts_valid v = True"

lemma decode_text_valid: "texts_valid v \<Longrightarrow> utf8_valid old \<Longrightarrow> utf8_valid (fst (decode_text v old))"
  by (cases v) (simp_all add: decode_text_def)

lemma utf8_valid_Nil [simp]: "utf8_valid []"
  by (simp add: utf8_valid_def)

lemma decode_texts_valid:
  "texts_valid v \<Longrightarrow> list_all utf8_valid old \<Longrightarrow> list_all utf8_valid (fst (decode_texts v old))"
  by (cases v) (auto simp: decode_texts_def list_all_iff intro!: decode_text_valid)

lemma decode_node_valid:
  assumes "texts_valid v" shows "list_all utf8_valid (node_outbounds (fst (decode_node v)))"
proof (cases v)
  case (J_Object ms)
  have "list_all utf8_valid (node_outbounds (fst (fold decode_member ms st)))"
    if "list_all (\<lambda>m. utf8_valid (fst m) \<and> texts_valid (snd m)) ms" "list_all utf8_valid (node_outbounds (fst st))" for st
    using that
  proof (induction ms arbitrary: st)
    case (Cons m ms)
    have "list_all utf8_valid (node_outbounds (fst (decode_member m st)))"
      using Cons.prems decode_texts_valid [of "snd m" "node_outbounds (fst st)"]
      by (cases m; cases st) (simp add: decode_member_def split_beta Let_def)
    with Cons show ?case by simp
  qed simp
  with assms J_Object show ?thesis by (simp add: decode_node_def empty_node_def)
qed (simp_all add: decode_node_def empty_node_def)

section \<open>A text says one thing\<close>

lemma writes_le: "d \<le> d' \<Longrightarrow> writes d t w \<Longrightarrow> writes d' t w"
  by (induction rule: dec_induct) (auto dest: writes_deeper(1))

lemma says_le: "d \<le> d' \<Longrightarrow> says d w v \<Longrightarrow> says d' w v"
  unfolding says_def using writes_le by blast

lemma meaning_simps [simp]:
  "meaning (J_Literal w) = J_Literal w" "meaning (J_Number w) = J_Number w" "meaning (J_String b) = J_String (unquote b)"
  "meaning (J_Array ts) = J_Array (map meaning ts)"
  "meaning (J_Object ms) = J_Object (map (\<lambda>m. (unquote (fst m), meaning (snd m))) ms)"
  by (simp_all add: meaning_def)

lemma meaning_array: "meaning t = J_Array vs \<longleftrightarrow> (\<exists>ts. t = J_Array ts \<and> vs = map meaning ts)"
  by (cases t) auto

lemma meaning_object:
  "meaning t = J_Object ms \<longleftrightarrow> (\<exists>ts. t = J_Object ts \<and> ms = map (\<lambda>m. (unquote (fst m), meaning (snd m))) ts)"
  by (cases t) auto

lemma doc_unique:
  assumes "document s v" "document s v'" shows "v = v'"
  using assms json_parse_iff [of max_depth s] by (auto simp: document_def says_def) (metis option.inject)

lemma says_doc: "d \<le> max_depth \<Longrightarrow> says d s v \<Longrightarrow> document s v"
  unfolding document_def by (intro exI [of _ "[]"] exI [of _ s]) (simp add: says_le)

lemma says_doc_unique:
  assumes "says d s v" "document s v'" shows "v = v'"
proof -
  obtain t where t: "writes d t s" "meaning t = v" using assms(1) by (auto simp: says_def)
  obtain u w r t' where *: "s = u @ w @ r" "blank u" "blank r" "writes max_depth t' w" "meaning t' = v'"
    using assms(2) by (auto simp: document_def says_def)
  let ?d = "max d max_depth"
  have "json_parse ?d s = Some t"
    unfolding json_parse_iff using writes_le [OF _ t(1), of ?d] by (intro exI [of _ "[]"] exI [of _ s]) simp
  moreover have "json_parse ?d s = Some t'"
    unfolding json_parse_iff using * writes_le [OF _ *(4), of ?d] by (intro exI [of _ u] exI [of _ w] exI [of _ r]) simp
  ultimately show ?thesis using t(2) *(5) by simp
qed

lemma next_object:
  assumes "writes d (J_Object ts) w" shows "next_value d (w @ rest) = Some (J_Object ts, rest)"
  using assms
proof (cases rule: writes.cases)
  case (w_no_members u d')
  then show ?thesis by (simp add: next_value_def numeral_2_eq_2 skip_blank)
next
  case (w_members d' w')
  then show ?thesis
    using writes_members_starts [OF w_members(3), of "CHR ''}'' # rest"]
      scan_complete(3) [OF w_members(3), of "2 * length (w @ rest) - 1" rest]
    by (simp add: next_value_def)
qed

lemma begins_unique:
  assumes "says d s v" "begins s (J_Object ms)" shows "v = J_Object ms"
proof -
  obtain t where t: "writes d t s" "meaning t = v" using assms(1) by (auto simp: says_def)
  obtain u w r ts where *: "s = u @ w @ r" "blank u" "writes (Suc max_depth) (J_Object ts) w"
      "meaning (J_Object ts) = J_Object ms"
    using assms(2) unfolding begins_def says_def meaning_object by fastforce
  let ?d = "max d (Suc max_depth)"
  have "next_value ?d s = Some (t, [])" using next_value_complete [of ?d t s "[]"] writes_le [OF _ t(1), of ?d] by simp
  moreover have "skip_space s = s" using skip_value [OF t(1), of "[]"] by simp
  with * have "s = w @ r" by (metis skip_before_value)
  with next_object [OF writes_le [OF _ *(3)], of ?d r] have "next_value ?d s = Some (J_Object ts, r)" by simp
  ultimately show ?thesis using t(2) *(4) by simp
qed

section \<open>What is said is UTF-8\<close>

lemma encode_rune_error: "encode_rune rune_error = [CHR 0xEF, CHR 0xBF, CHR 0xBD]"
  by code_simp

lemma utf8_valid_encode:
  assumes "utf8_valid s" shows "utf8_valid (encode_rune r @ s)"
proof -
  have valid: "utf8_valid (encode_rune x @ s)" if x: "valid_rune x" for x
  proof -
    have "encode_rune x @ s \<noteq> []" by (simp add: encode_rune_length)
    then have "rune_chunks (encode_rune x @ s) = (x, encode_rune x) # rune_chunks s"
      by (simp add: rune_chunks_Cons decode_encode_rune [OF x])
    moreover have "x \<noteq> rune_error \<or> length (encode_rune x) \<noteq> 1"
      by (cases "x = rune_error") (simp_all add: encode_rune_def rune_error_def)
    ultimately show ?thesis using assms by (simp add: utf8_valid_def)
  qed
  have "valid_rune r \<or> encode_rune r = encode_rune rune_error"
    unfolding valid_rune_def encode_rune_def [of r] encode_rune_error by (auto simp: rune_error_def)
  then show ?thesis using valid [of r] valid [of rune_error] by auto
qed

lemma unquote_valid: "utf8_valid (unquote b)"
proof (induction b rule: unquote.induct)
  case (1 s)
  have "utf8_valid (c # r)" if "utf8_valid r" "byte c < 128" for c r
    using utf8_valid_encode [OF that(1), of "byte c"] that(2) by (simp add: encode_rune_ascii)
  moreover have "map_of short_escapes e = Some x \<Longrightarrow> byte x < 128" for e x
    by (auto simp: short_escapes_def byte_def split: if_splits)
  ultimately show ?case
    using 1 utf8_valid_encode by (subst unquote.simps) (auto split: list.splits option.splits)
qed

lemma meaning_valid: "texts_valid (meaning t)"
  by (induction t) (auto simp: unquote_valid list_all_iff)

lemma says_valid: "says d w v \<Longrightarrow> texts_valid v"
  by (auto simp: says_def meaning_valid)

section \<open>The library as an interface\<close>

lemma list_all2_set:
  assumes "list_all2 (\<lambda>m n. fst m = fst n \<and> R (fst m) (snd m) (snd n)) obj ms" "\<And>x' v'. R k x' v' \<Longrightarrow> R k x v"
  shows "list_all2 (\<lambda>m n. fst m = fst n \<and> R (fst m) (snd m) (snd n)) (object_set obj k x) (object_set ms k v)"
  using assms(1)
proof (induction obj ms rule: list_all2_induct)
  case (Cons m obj n ms)
  then show ?case using assms(2) by (cases m; cases n) auto
qed simp

lemma list_all2_get:
  "list_all2 (\<lambda>m n. fst m = fst n \<and> R (fst m) (snd m) (snd n)) obj ms \<Longrightarrow> map_of obj k = Some x \<Longrightarrow>
    \<exists>v. map_of ms k = Some v \<and> R k x v"
  by (induction obj ms rule: list_all2_induct) (auto split: if_splits)

lemma detect_indent_blank: "c \<in> set (detect_indent s) \<Longrightarrow> c = CHR '' '' \<or> c = CHR 0x09"
  by (auto simp: detect_indent_def dest: set_takeWhileD split: option.splits)

locale json_documents =
  fixes js :: json_lib
  assumes array: "document s (J_Array vs) \<Longrightarrow>
      \<exists>items. js_array js s = Some items \<and> list_all2 (says (max_depth - 1)) items vs"
    and array_only: "js_array js s = Some items \<Longrightarrow> items \<noteq> [] \<Longrightarrow> \<exists>vs. document s (J_Array vs)"
    and members: "js_members js s = Some obj \<Longrightarrow> \<exists>ms. begins s (J_Object ms) \<and> members_say obj ms"
    and remarks: "d \<le> max_depth \<Longrightarrow> says d s v \<Longrightarrow> js_remarks js s = decode_remarks v"
    and node: "d \<le> max_depth \<Longrightarrow> says d s v \<Longrightarrow> js_node js s = decode_node v"
    and joined: "list_all2 (says d) items vs \<Longrightarrow> says (Suc d) (marshal_array items) (J_Array vs)"
    and strings: "list_all utf8_valid list \<Longrightarrow> \<exists>d. says d (js_strings js list) (J_Array (map J_String list))"
    and marshalled: "members_say obj ms \<Longrightarrow> marshal_object js obj = Some s \<Longrightarrow> says max_depth s (J_Object ms)"
    and compacted: "says max_depth s v \<Longrightarrow> \<exists>c. js_compact js s = Some c \<and> document c v"
    and indented: "says max_depth s v \<Longrightarrow> blank indent \<Longrightarrow> \<exists>c. js_indent js s indent = Some c \<and> document c v"
begin

lemma laid_out:
  assumes "says max_depth s v" shows "document (indent_like js original s) v"
proof -
  have "blank (detect_indent original)"
    using detect_indent_blank by (auto simp: blank_def list_all_iff json_space_def)
  from indented [OF assms this] compacted [OF assms] show ?thesis by (auto simp: indent_like_def Let_def)
qed

lemma items_say:
  assumes "document s (J_Array vs)" "js_array js s = Some items"
  shows "list_all2 (says (max_depth - 1)) items vs" "length items = length vs"
  using array [OF assms(1)] assms(2) by (auto dest: list_all2_lengthD)

lemma permuted_say:
  assumes "list_all2 R items vs" "set p \<subseteq> {..<length items}"
  shows "list_all2 R (map ((!) items) p) (map ((!) vs) p)"
  using assms by (auto simp: list_all2_conv_all_nth subset_iff)

lemma permutation_below: "permutation sh names = Some p \<Longrightarrow> set p = {..<length names}"
  using mset_eq_setD [OF hosts.permute_mset] by (auto simp: atLeast0LessThan)

lemma names_say:
  assumes "list_all2 R items vs" "\<And>s v. R s v \<Longrightarrow> f s = g v"
  shows "map f items = map g vs"
  using assms(1) by (induction rule: list_all2_induct) (simp_all add: assms(2))

text \<open>An Xray list is shuffled exactly as the names in it say, and the answer says the permuted list.\<close>

lemma xray_document:
  assumes "document s (J_Array vs)"
  shows "case permutation sh (map xray_doc_name vs) of
      None \<Rightarrow> apply_xray js sh s = (s, False)
    | Some p \<Rightarrow> \<exists>out. apply_xray js sh s = (out, True) \<and> document out (J_Array (map ((!) vs) p))"
proof -
  obtain items where items: "js_array js s = Some items" using array [OF assms] by blast
  note say = items_say [OF assms items]
  have names: "map (xray_name js) items = map xray_doc_name vs"
    using remarks [of "max_depth - 1"]
    by (intro names_say [OF say(1)]) (simp add: xray_name_def xray_doc_name_def)
  have "document (indent_like js s (marshal_array (map ((!) items) p))) (J_Array (map ((!) vs) p))"
    if "permutation sh (map (xray_name js) items) = Some p" for p
  proof -
    have "set p \<subseteq> {..<length items}" using permutation_below [OF that] by simp
    from joined [OF permuted_say [OF say(1) this]] show ?thesis
      by (intro laid_out) (simp add: max_depth_def)
  qed
  then show ?thesis using items by (auto simp: apply_xray_def names split: option.split)
qed

text \<open>A selector keeps its names.\<close>

lemma selector_says:
  assumes "says (max_depth - 1) raw v"
  shows "\<exists>v'. selector_kept v v' \<and> (\<exists>d. says d (rewrite_selector js idx raw) v')"
proof -
  obtain n ok where n: "decode_node v = (n, ok)" by fastforce
  then have node: "js_node js raw = (n, ok)" using node [OF _ assms] by simp
  obtain changed list where l: "reorder_names (node_outbounds n) idx = (changed, list)" by fastforce
  show ?thesis
  proof (cases "ok \<and> node_outbounds n \<noteq> [] \<and> changed \<and> rewrite_selector js idx raw \<noteq> raw")
    case False
    then have "rewrite_selector js idx raw = raw" by (auto simp: rewrite_selector_def node l)
    with assms show ?thesis by (auto simp: selector_kept_def)
  next
    case True
    then obtain obj enc where obj: "js_members js raw = Some obj"
      "marshal_object js (object_set obj ''outbounds'' (js_strings js list)) = Some enc"
      "rewrite_selector js idx raw = enc"
      by (auto simp: rewrite_selector_def node l split: option.splits)
    from members [OF obj(1)] obtain ms where ms: "begins raw (J_Object ms)" "members_say obj ms" by blast
    have v: "v = J_Object ms" by (rule begins_unique [OF assms ms(1)])
    have mset: "mset list = mset (node_outbounds n)" using reorder_names_mset [of "node_outbounds n" idx] l by simp
    have "list_all utf8_valid (node_outbounds n)"
      using decode_node_valid [OF says_valid [OF assms]] n by simp
    then have "list_all utf8_valid list" using mset by (metis list_all_iff set_mset_mset)
    from strings [OF this] have "members_say (object_set obj ''outbounds'' (js_strings js list))
        (object_set ms ''outbounds'' (J_Array (map J_String list)))"
      using ms(2) unfolding members_say_def
      by (intro list_all2_set [where R = "\<lambda>k x v. utf8_valid k \<and> (\<exists>d. says d x v)"]) auto
    from marshalled [OF this obj(2)] show ?thesis
      using obj(3) v n True mset by (auto simp: selector_kept_def)
  qed
qed

lemma singbox_name_says: "says (max_depth - 1) raw v \<Longrightarrow> singbox_name js raw = singbox_doc_name v"
  using node [of "max_depth - 1"] by (simp add: singbox_name_def singbox_doc_name_def)

lemma selectors_say:
  assumes "list_all2 (says (max_depth - 1)) raws vs"
  shows "\<exists>vs'. list_all2 selector_kept vs vs' \<and> (\<exists>d. list_all2 (says d) (map (rewrite_selector js idx) raws) vs')"
  using assms
proof (induction rule: list_all2_induct)
  case (Cons raw raws v vs)
  from Cons.IH obtain vs' d where vs': "list_all2 selector_kept vs vs'"
    "list_all2 (says d) (map (rewrite_selector js idx) raws) vs'" by blast
  from selector_says [OF Cons.hyps(1)] obtain v' d' where v': "selector_kept v v'"
    "says d' (rewrite_selector js idx raw) v'" by blast
  have "list_all2 (says (max d d')) (map (rewrite_selector js idx) raws) vs'"
    by (rule list_all2_mono [OF vs'(2)]) (simp add: says_le [of d])
  moreover have "says (max d d') (rewrite_selector js idx raw) v'" by (rule says_le [OF _ v'(2)]) simp
  ultimately show ?case using vs'(1) v'(1)
    by (intro exI [of _ "v' # vs'"] conjI exI [of _ "max d d'"]) simp_all
qed simp

text \<open>A sing-box profile keeps every member but its outbounds, and those are permuted as their names say.\<close>

lemma singbox_document:
  assumes "apply_singbox js sh s = (out, True)"
  shows "\<exists>ms vs p vs'. begins s (J_Object ms) \<and> map_of ms ''outbounds'' = Some (J_Array vs)
    \<and> permutation sh (map singbox_doc_name vs) = Some p \<and> list_all2 selector_kept (map ((!) vs) p) vs'
    \<and> document out (J_Object (object_set ms ''outbounds'' (J_Array vs')))"
proof -
  obtain root raw items p where r: "js_members js s = Some root" "object_get root ''outbounds'' = Some raw"
    "js_array js raw = Some items" "permutation sh (map (singbox_name js) items) = Some p"
    using assms by (auto simp: apply_singbox_def Let_def split: option.splits)
  define idx where "idx = new_index sh (map (singbox_name js) items) p"
  define texts where "texts = map (rewrite_selector js idx) (map ((!) items) p)"
  from assms r obtain t where t: "marshal_object js (object_set root ''outbounds'' (marshal_array texts)) = Some t"
    "out = indent_like js s t"
    by (auto simp: apply_singbox_def Let_def texts_def idx_def split: option.splits)
  from members [OF r(1)] obtain ms where ms: "begins s (J_Object ms)" "members_say root ms" by blast
  have "p \<noteq> []" using hosts.permute_moves [OF r(4)] hosts.permute_length [OF r(4)] by auto
  then have "items \<noteq> []" using hosts.permute_length [OF r(4)] by auto
  from array_only [OF r(3) this] obtain vs where vs: "document raw (J_Array vs)" by blast
  note say = items_say [OF vs r(3)]
  obtain v0 where v0: "map_of ms ''outbounds'' = Some v0" "\<exists>d. says d raw v0"
    using list_all2_get [OF ms(2) [unfolded members_say_def], of "''outbounds''" raw] r(2)
    unfolding object_get_def by blast
  then have v0': "v0 = J_Array vs" using says_doc_unique [OF _ vs] by blast
  have names: "map (singbox_name js) items = map singbox_doc_name vs"
    by (rule names_say [OF say(1) singbox_name_says])
  have below: "set p \<subseteq> {..<length items}" using permutation_below [OF r(4)] by simp
  from selectors_say [OF permuted_say [OF say(1) below], of idx] obtain vs' d where
    vs': "list_all2 selector_kept (map ((!) vs) p) vs'" "list_all2 (says d) texts vs'"
    unfolding texts_def by blast
  have "members_say (object_set root ''outbounds'' (marshal_array texts)) (object_set ms ''outbounds'' (J_Array vs'))"
    using ms(2) joined [OF vs'(2)] unfolding members_say_def
    by (intro list_all2_set [where R = "\<lambda>k x v. utf8_valid k \<and> (\<exists>d. says d x v)"]) auto
  from laid_out [OF marshalled [OF this t(1)], of s]
  have "document out (J_Object (object_set ms ''outbounds'' (J_Array vs')))" by (simp add: t(2))
  then show ?thesis
    using ms(1) v0(1) [unfolded v0'] r(4) [unfolded names] vs'(1) by blast
qed

end

end
