(* ===== verification/Json_Codec.thy ===== *)
theory Json_Codec
  imports Documents
begin

text \<open>
  The library on concrete texts: \<open>parseObject\<close> and \<open>parseArray\<close> of \<open>internal/hosts/jsonobj.go\<close> over the
  scanner, and with them an instance of \<open>json_lib\<close> that follows the documentation of \<open>encoding/json\<close>.
  It obeys the laws of the interface, so the two JSON shuffles keep their documents.
\<close>

section \<open>Reading into raw messages\<close>

text \<open>The text of the value in front of \<open>s\<close>, when \<open>r\<close> is what follows it.\<close>

definition value_text :: "string \<Rightarrow> string \<Rightarrow> string" where
  "value_text s r = take (length s - length r) s"

text \<open>The elements of an array that is known to be well-formed, from behind its bracket or a comma.\<close>

fun array_items :: "nat \<Rightarrow> string \<Rightarrow> string list" where
  "array_items 0 s = []"
| "array_items (Suc n) s =
    (case next_value max_depth (skip_space s) of
       None \<Rightarrow> []
     | Some (t, r) \<Rightarrow>
         value_text (skip_space s) r
         # (case skip_space r of c # r \<Rightarrow> if c = CHR '','' then array_items n r else [] | [] \<Rightarrow> []))"

definition parse_array :: "string \<Rightarrow> string list option" where
  "parse_array raw =
    (case json_parse max_depth raw of
       Some (J_Array ts) \<Rightarrow> Some (array_items (length raw) (tl (skip_space raw)))
     | Some t \<Rightarrow> if t = null then Some [] else None
     | None \<Rightarrow> None)"

text \<open>The loop of \<open>parseObject\<close>: a key, its value, and a comma or the closing brace.\<close>

fun object_members :: "nat \<Rightarrow> string \<Rightarrow> object option" where
  "object_members 0 s = None"
| "object_members (Suc n) s =
    (case scan_key s of
       None \<Rightarrow> None
     | Some (k, r) \<Rightarrow>
         (case next_value max_depth (skip_space r) of
            None \<Rightarrow> None
          | Some (t, r1) \<Rightarrow>
              (let m = (unquote k, value_text (skip_space r) r1) in
               case skip_space r1 of
                 c # r2 \<Rightarrow>
                   if c = CHR ''}'' then Some [m]
                   else if c = CHR '','' then map_option (Cons m) (object_members n r2)
                   else None
               | [] \<Rightarrow> None)))"

definition parse_object :: "string \<Rightarrow> object option" where
  "parse_object raw =
    (case skip_space raw of
       c # r \<Rightarrow>
         if c \<noteq> CHR ''{'' then None
         else if skip_space r \<noteq> [] \<and> hd (skip_space r) = CHR ''}'' then Some []
         else object_members (length r) r
     | [] \<Rightarrow> None)"

section \<open>The library\<close>

definition json_text :: "string \<Rightarrow> string" where
  "json_text s = quote # quote_inside s @ [quote]"

definition go_json :: json_lib where
  "go_json =
    \<lparr>js_array = parse_array, js_members = parse_object,
     js_remarks = (\<lambda>s. case json_parse max_depth s of Some t \<Rightarrow> decode_remarks (meaning t) | None \<Rightarrow> None),
     js_node = (\<lambda>s. case json_parse max_depth s of Some t \<Rightarrow> decode_node (meaning t) | None \<Rightarrow> (empty_node, False)),
     js_string = json_text,
     js_strings = (\<lambda>list. ''['' @ join '','' (map json_text list) @ '']''),
     js_check = (\<lambda>s. map_option (\<lambda>t. print_compact (retext html_escape t)) (json_parse max_depth s)),
     js_compact = (\<lambda>s. map_option print_compact (json_parse max_depth s)),
     js_indent = (\<lambda>s indent. map_option (\<lambda>t. print_indented indent t @ rev (takeWhile json_space (rev s)))
       (json_parse max_depth s))\<rparr>"

section \<open>It reads what is written\<close>

lemma value_text_append [simp]: "value_text (w @ r) r = w"
  by (simp add: value_text_def)

lemma writes_meaning: "writes d t w \<Longrightarrow> says d w (meaning t)"
  by (auto simp: says_def)

lemma array_items_say:
  "writes_items d ts w \<Longrightarrow> d \<le> max_depth \<Longrightarrow> length w \<le> n \<Longrightarrow>
    list_all2 (\<lambda>x t. writes d t x) (array_items n (w @ CHR '']'' # rest)) ts"
proof (induction ts arbitrary: w n)
  case Nil
  then show ?case using writes_nonempty(1) by blast
next
  case (Cons t ts)
  from Cons.prems(1) show ?case
  proof (cases rule: writes_items.cases)
    case (w_item u x v)
    obtain m where n: "n = Suc m" using Cons.prems(3) w_item writes_starts by (cases n) auto
    have "next_value max_depth (x @ v @ CHR '']'' # rest) = Some (t, v @ CHR '']'' # rest)"
      using w_item by (intro next_value_complete [OF writes_le [OF Cons.prems(2)]] value_ends_blank) simp_all
    with n w_item show ?thesis by (simp add: skip_value skip_blank)
  next
    case (w_more_items u x v r)
    obtain m where n: "n = Suc m" using Cons.prems(3) w_more_items by (cases n) auto
    have "next_value max_depth (x @ v @ CHR '','' # r @ CHR '']'' # rest) = Some (t, v @ CHR '','' # r @ CHR '']'' # rest)"
      using w_more_items by (intro next_value_complete [OF writes_le [OF Cons.prems(2)]] value_ends_blank) simp_all
    moreover have "list_all2 (\<lambda>x t. writes d t x) (array_items m (r @ CHR '']'' # rest)) ts"
      using w_more_items Cons.prems n by (intro Cons.IH) simp_all
    ultimately show ?thesis using n w_more_items by (simp add: skip_value skip_blank)
  qed
qed

lemma array_items_none: "blank u \<Longrightarrow> array_items n (u @ CHR '']'' # rest) = []"
proof (cases n)
  case (Suc m)
  assume "blank u"
  moreover have "next_value max_depth (CHR '']'' # rest) = None"
    by (simp add: next_value_def scan_literal_def literals_def has_prefix_def)
  ultimately show ?thesis using Suc by (simp add: skip_blank)
qed simp

lemma doc_parse: "document s v \<longleftrightarrow> (\<exists>t. json_parse max_depth s = Some t \<and> meaning t = v)"
  unfolding json_parse_iff document_def says_def by blast

lemma says_parse: "d \<le> max_depth \<Longrightarrow> says d s v \<Longrightarrow> \<exists>t. json_parse max_depth s = Some t \<and> meaning t = v"
  using says_doc doc_parse by blast

lemma parse_array_reads:
  assumes "document s (J_Array vs)"
  shows "\<exists>items. parse_array s = Some items \<and> list_all2 (says (max_depth - 1)) items vs"
proof -
  obtain u w r t where s: "s = u @ w @ r" "blank u" "writes max_depth t w" "meaning t = J_Array vs" "blank r"
    using assms by (auto simp: document_def says_def)
  then obtain ts where ts: "t = J_Array ts" "vs = map meaning ts" by (auto simp: meaning_array)
  have skip: "skip_space s = w @ r" using s skip_before_value by simp
  have "json_parse max_depth s = Some (J_Array ts)"
    unfolding json_parse_iff using s ts(1) by blast
  then have parsed: "parse_array s = Some (array_items (length s) (tl (w @ r)))"
    by (simp add: parse_array_def skip)
  from s(3) [unfolded ts(1)] show ?thesis
  proof (cases rule: writes.cases)
    case (w_no_items u d)
    with parsed ts(2) array_items_none show ?thesis by simp
  next
    case (w_items d w')
    then have "list_all2 (\<lambda>x t. writes d t x) (array_items (length s) (w' @ CHR '']'' # r)) ts"
      using s(1) by (intro array_items_say) simp_all
    then have "list_all2 (says d) (array_items (length s) (w' @ CHR '']'' # r)) vs"
      unfolding ts(2) list_all2_map2 by (rule list_all2_mono) (rule writes_meaning)
    moreover have "max_depth - 1 = d" unfolding w_items(1) by simp
    ultimately show ?thesis using parsed w_items(2) by simp
  qed
qed

lemma parse_array_only:
  assumes "parse_array s = Some items" "items \<noteq> []" shows "\<exists>vs. document s (J_Array vs)"
proof -
  obtain ts where "json_parse max_depth s = Some (J_Array ts)"
    using assms by (auto simp: parse_array_def split: option.splits json.splits if_splits)
  then show ?thesis by (auto simp: doc_parse)
qed

lemma value_texts_say:
  assumes "next_value max_depth s = Some (t, r)" shows "says max_depth (value_text s r) (meaning t)"
  using next_value_sound [OF assms] writes_meaning by fastforce

text \<open>What \<open>parseObject\<close> accepts begins with an object, and the members are the ones it writes.\<close>

lemma object_members_say:
  "object_members n s = Some obj \<Longrightarrow>
    \<exists>w rest ts. s = w @ CHR ''}'' # rest \<and> writes_members max_depth ts w
      \<and> members_say obj (map (\<lambda>m. (unquote (fst m), meaning (snd m))) ts)"
proof (induction n arbitrary: s obj)
  case (Suc n)
  then obtain k r0 t r1 c r2 where v: "scan_key s = Some (k, r0)"
    "next_value max_depth (skip_space r0) = Some (t, r1)" "skip_space r1 = c # r2"
    by (auto simp: Let_def split: option.splits list.splits)
  let ?m = "(unquote k, value_text (skip_space r0) r1)"
  obtain u u1 where u: "s = u @ quote # k @ quote # u1 @ CHR '':'' # r0" "blank u" "blank u1" "inside k"
    using scan_key_sound [OF v(1)] by blast
  obtain u2 where u2: "blank u2" "r0 = u2 @ skip_space r0" by (rule skip_space_split)
  obtain v' where v': "blank v'" "r1 = v' @ skip_space r1" by (rule skip_space_split)
  obtain w where w: "skip_space r0 = w @ r1" "writes max_depth t w" using next_value_sound [OF v(2)] by blast
  have "r0 = u2 @ w @ v' @ c # r2" using u2(2) v'(2) w(1) v(3) by simp
  with u(1) have s: "s = u @ quote # k @ quote # u1 @ CHR '':'' # u2 @ w @ v' @ c # r2" by simp
  note rules = u(2,4,3) u2(1) w(2) v'(1)
  have m: "utf8_valid (fst ?m) \<and> (\<exists>d. says d (snd ?m) (meaning t))"
    using value_texts_say [OF v(2)] unquote_valid by auto
  show ?case
  proof (cases "c = CHR ''}''")
    case True
    with Suc.prems v have "obj = [?m]" by (simp add: Let_def)
    with s True m w_member [OF rules] show ?thesis
      by (intro exI [of _ "u @ quote # k @ quote # u1 @ CHR '':'' # u2 @ w @ v'"] exI [of _ r2] exI [of _ "[(k, t)]"])
        (simp add: members_say_def)
  next
    case False
    with Suc.prems v obtain obj' where obj': "c = CHR '',''" "object_members n r2 = Some obj'" "obj = ?m # obj'"
      by (auto simp: Let_def split: if_splits)
    from Suc.IH [OF obj'(2)] obtain x rest ts where x: "r2 = x @ CHR ''}'' # rest" "writes_members max_depth ts x"
      "members_say obj' (map (\<lambda>m. (unquote (fst m), meaning (snd m))) ts)" by blast
    from s obj' x m w_more_members [OF rules x(2)] show ?thesis
      by (intro exI [of _ "u @ quote # k @ quote # u1 @ CHR '':'' # u2 @ w @ v' @ CHR '','' # x"] exI [of _ rest]
          exI [of _ "(k, t) # ts"]) (simp add: members_say_def)
  qed
qed simp

lemma parse_object_says:
  assumes "parse_object s = Some obj" shows "\<exists>ms. begins s (J_Object ms) \<and> members_say obj ms"
proof -
  from assms obtain r where r: "skip_space s = CHR ''{'' # r"
    by (auto simp: parse_object_def split: list.splits if_splits)
  obtain u where u: "blank u" "s = u @ skip_space s" by (rule skip_space_split)
  show ?thesis
  proof (cases "skip_space r \<noteq> [] \<and> hd (skip_space r) = CHR ''}''")
    case True
    obtain u' where u': "blank u'" "r = u' @ skip_space r" by (rule skip_space_split)
    have "s = u @ (CHR ''{'' # u' @ ''}'') @ tl (skip_space r)"
      using u(2) r u'(2) True by (cases "skip_space r") auto
    moreover have "says (Suc max_depth) (CHR ''{'' # u' @ ''}'') (J_Object [])"
      using writes_meaning [OF w_no_members [OF u'(1)]] by simp
    ultimately have "begins s (J_Object [])" using u(1) unfolding begins_def by blast
    moreover have "obj = []" using assms r True by (simp add: parse_object_def)
    ultimately show ?thesis by (auto simp: members_say_def)
  next
    case False
    with assms r have "object_members (length r) r = Some obj" by (auto simp: parse_object_def)
    from object_members_say [OF this] obtain w rest ts where w: "r = w @ CHR ''}'' # rest"
      "writes_members max_depth ts w" "members_say obj (map (\<lambda>m. (unquote (fst m), meaning (snd m))) ts)" by blast
    have "s = u @ (CHR ''{'' # w @ ''}'') @ rest" using u(2) r w(1) by simp
    moreover have "says (Suc max_depth) (CHR ''{'' # w @ ''}'')
        (J_Object (map (\<lambda>m. (unquote (fst m), meaning (snd m))) ts))"
      using writes_meaning [OF w_members [OF w(2)]] by simp
    ultimately show ?thesis using u(1) w(3) unfolding begins_def by blast
  qed
qed

section \<open>It writes what was meant\<close>

lemma joined_items:
  "list_all2 (\<lambda>x t. writes d t x) items ts \<Longrightarrow> ts \<noteq> [] \<Longrightarrow> writes_items d ts (join '','' items)"
proof (induction rule: list_all2_induct)
  case (Cons x items t ts)
  show ?case
  proof (cases "ts = []")
    case True
    with Cons w_item [of "[]" d t x "[]"] show ?thesis by simp
  next
    case False
    with Cons have "writes_items d ts (join '','' items)" "items \<noteq> []" by auto
    with w_more_items [of "[]" d t x "[]"] Cons.hyps(1) show ?thesis by (cases items) simp_all
  qed
qed simp

lemma joined_members:
  "list_all2 (\<lambda>m n. inside (fst n) \<and> fst m = quote # fst n @ [quote] \<and> writes d (snd n) (snd m)) ms ts \<Longrightarrow> ts \<noteq> [] \<Longrightarrow>
    writes_members d ts (join '','' (map (\<lambda>m. fst m @ '':'' @ snd m) ms))"
proof (induction rule: list_all2_induct)
  case (Cons m ms n ts)
  obtain k x where n: "n = (k, x)" by fastforce
  show ?case
  proof (cases "ts = []")
    case True
    with Cons n w_member [of "[]" k "[]" "[]" d x "snd m" "[]"] show ?thesis by simp
  next
    case False
    with Cons have "writes_members d ts (join '','' (map (\<lambda>m. fst m @ '':'' @ snd m) ms))" "ms \<noteq> []" by auto
    with w_more_members [of "[]" k "[]" "[]" d x "snd m" "[]"] Cons.hyps(1) n show ?thesis
      by (cases ms) simp_all
  qed
qed simp

lemma list_all2_says: "list_all2 (says d) items vs \<longleftrightarrow> (\<exists>ts. list_all2 (\<lambda>x t. writes d t x) items ts \<and> vs = map meaning ts)"
proof
  show "list_all2 (says d) items vs \<Longrightarrow> \<exists>ts. list_all2 (\<lambda>x t. writes d t x) items ts \<and> vs = map meaning ts"
  proof (induction rule: list_all2_induct)
    case (Cons x items v vs)
    then obtain t ts where "writes d t x" "meaning t = v" "list_all2 (\<lambda>x t. writes d t x) items ts" "vs = map meaning ts"
      by (auto simp: says_def)
    then show ?case by (intro exI [of _ "t # ts"]) simp
  qed simp
qed (auto simp: list_all2_map2 elim!: list_all2_mono intro: writes_meaning)

lemma marshal_array_says:
  assumes "list_all2 (says d) items vs" shows "says (Suc d) (marshal_array items) (J_Array vs)"
proof -
  obtain ts where ts: "list_all2 (\<lambda>x t. writes d t x) items ts" "vs = map meaning ts"
    using assms list_all2_says by blast
  show ?thesis
  proof (cases "ts = []")
    case True
    with ts w_no_items [of "[]" d] show ?thesis by (auto simp: says_def marshal_array_def)
  next
    case False
    from writes_meaning [OF w_items [OF joined_items [OF ts(1) this]]] ts(2) show ?thesis
      by (simp add: marshal_array_def)
  qed
qed

lemma json_text_says: "utf8_valid s \<Longrightarrow> says d (json_text s) (J_String s)"
  using writes_meaning [OF w_string [OF quote_inside_reads(2)], of d s] by (simp add: json_text_def quote_inside_back)

lemma strings_say:
  assumes "list_all utf8_valid list" shows "says 1 (js_strings go_json list) (J_Array (map J_String list))"
proof -
  have "list_all2 (says 0) (map json_text list) (map J_String list)"
    using assms by (induction list) (simp_all add: json_text_says)
  from marshal_array_says [OF this] show ?thesis by (simp add: go_json_def marshal_array_def)
qed

lemma members_say_trees:
  assumes "members_say obj ms"
  shows "\<exists>d ts. list_all2 (\<lambda>m n. inside (fst n) \<and> fst m = quote # fst n @ [quote] \<and> writes d (snd n) (snd m))
      (map (\<lambda>m. (json_text (fst m), snd m)) obj) ts
    \<and> ms = map (\<lambda>m. (unquote (fst m), meaning (snd m))) ts"
  using assms unfolding members_say_def
proof (induction rule: list_all2_induct)
  case (Cons m obj n ms)
  from Cons.IH obtain d ts where ts: "list_all2 (\<lambda>m n. inside (fst n) \<and> fst m = quote # fst n @ [quote]
      \<and> writes d (snd n) (snd m)) (map (\<lambda>m. (json_text (fst m), snd m)) obj) ts"
    "ms = map (\<lambda>m. (unquote (fst m), meaning (snd m))) ts" by blast
  from Cons.hyps obtain d' t where t: "writes d' t (snd m)" "meaning t = snd n" "fst m = fst n" "utf8_valid (fst m)"
    by (auto simp: says_def)
  let ?d = "max d d'"
  have "list_all2 (\<lambda>m n. inside (fst n) \<and> fst m = quote # fst n @ [quote] \<and> writes ?d (snd n) (snd m))
      (map (\<lambda>m. (json_text (fst m), snd m)) obj) ts"
    by (rule list_all2_mono [OF ts(1)]) (use writes_le [of d ?d] in auto)
  moreover have "writes ?d t (snd m)" by (rule writes_le [OF _ t(1)]) simp
  ultimately show ?case
    using t ts(2) by (intro exI [of _ ?d] exI [of _ "(quote_inside (fst m), t) # ts"])
      (cases n, auto simp: json_text_def quote_inside_reads(2) quote_inside_back split_beta)
qed (auto intro: exI [of _ "[]"])

lemma marshal_object_says:
  assumes "members_say obj ms" "marshal_object go_json obj = Some s" shows "says max_depth s (J_Object ms)"
proof -
  define body where "body = ''{'' @ join '','' (map (\<lambda>(k, v). json_text k @ '':'' @ v) obj) @ ''}''"
  from assms(2) obtain t where t: "json_parse max_depth body = Some t" "s = print_compact (retext html_escape t)"
    by (auto simp: marshal_object_def go_json_def body_def simp del: append_Cons)
  then obtain w where w: "writes max_depth t w" unfolding json_parse_iff by blast
  have "writes max_depth (retext html_escape t) s"
    unfolding t(2) print_compact_def by (rule printed_says(2) [OF w]) simp_all
  from writes_meaning [OF this] have "says max_depth s (meaning t)" by (simp only: meaning_escape(1) [OF w])
  moreover have "meaning t = J_Object ms"
  proof -
    obtain d ts where ts: "list_all2 (\<lambda>m n. inside (fst n) \<and> fst m = quote # fst n @ [quote] \<and> writes d (snd n) (snd m))
        (map (\<lambda>m. (json_text (fst m), snd m)) obj) ts" "ms = map (\<lambda>m. (unquote (fst m), meaning (snd m))) ts"
      using members_say_trees [OF assms(1)] by blast
    have "writes (Suc d) (J_Object ts) body"
    proof (cases "ts = []")
      case True
      with ts(1) have "obj = []" by simp
      with True w_no_members [of "[]" d] show ?thesis by (simp add: body_def)
    next
      case False
      from w_members [OF joined_members [OF ts(1) this]] show ?thesis
        by (simp add: body_def comp_def case_prod_unfold)
    qed
    from writes_meaning [OF this] have "says (Suc d) body (J_Object ms)" by (simp add: ts(2))
    moreover have "document body (meaning t)" unfolding doc_parse using t(1) by blast
    ultimately show ?thesis using says_doc_unique by metis
  qed
  ultimately show ?thesis by simp
qed

lemma laid_out_says:
  assumes "says max_depth s v" "\<forall>k. blank (nl k)" "blank sp"
  shows "\<exists>t. json_parse max_depth s = Some t \<and> says max_depth (print_value nl sp 0 t) v"
proof -
  obtain t where t: "writes max_depth t s" "meaning t = v" using assms(1) by (auto simp: says_def)
  then have "json_parse max_depth s = Some t"
    unfolding json_parse_iff by (intro exI [of _ "[]"] exI [of _ s]) simp
  with printed_says(1) [OF t(1) assms(2,3)] writes_meaning t(2) show ?thesis by blast
qed

lemma blank_tail: "blank (rev (takeWhile json_space (rev s)))"
  by (auto simp: blank_def list_all_iff dest: set_takeWhileD)

interpretation go: json_documents go_json
proof
  fix s v indent assume s: "says max_depth s v"
  show "\<exists>c. js_compact go_json s = Some c \<and> document c v"
    using laid_out_says [OF s, of "\<lambda>_. []" "[]"] says_doc by (auto simp: go_json_def print_compact_def)
  assume "blank indent"
  then have "\<forall>k. blank (newline # concat (replicate k indent))"
    by (auto simp: blank_def list_all_iff json_space_def)
  from laid_out_says [OF s this, of "'' ''"] obtain t where t: "json_parse max_depth s = Some t"
    "says max_depth (print_indented indent t) v" by (auto simp: print_indented_def json_space_def)
  then have "document (print_indented indent t @ rev (takeWhile json_space (rev s))) v"
    unfolding document_def using blank_tail [of s]
    by (intro exI [of _ "[]"] exI [of _ "print_indented indent t"] exI conjI) simp_all
  with t(1) show "\<exists>c. js_indent go_json s indent = Some c \<and> document c v" by (simp add: go_json_def)
next
  fix d s v assume "d \<le> max_depth" "says d s v"
  then obtain t where "json_parse max_depth s = Some t" "meaning t = v" using says_parse by blast
  then show "js_remarks go_json s = decode_remarks v" "js_node go_json s = decode_node v"
    by (simp_all add: go_json_def)
next
  fix list :: "string list" assume "list_all utf8_valid list"
  then show "\<exists>d. says d (js_strings go_json list) (J_Array (map J_String list))" using strings_say by blast
qed (simp_all add: go_json_def parse_array_reads [simplified] parse_array_only parse_object_says marshal_array_says
    marshal_object_says [unfolded go_json_def])

section \<open>The shuffles on concrete documents\<close>

text \<open>C26: An Xray list is shuffled exactly as the remarks in it ask: when there is nothing to move the body
  is the one received, byte for byte; otherwise the new body is a JSON list again, and it says the
  entries received, each whole, in the order of the permutation.\<close>

theorem xray_document_shuffled:
  assumes "document s (J_Array vs)"
  shows "case permutation sh (map xray_doc_name vs) of
      None \<Rightarrow> apply_xray go_json sh s = (s, False)
    | Some p \<Rightarrow> \<exists>out. apply_xray go_json sh s = (out, True) \<and> document out (J_Array (map ((!) vs) p))"
  by (rule go.xray_document [OF assms])

text \<open>Two entries, for the examples.\<close>

definition sample_entry :: "string \<Rightarrow> string" where
  "sample_entry name = ''{'' @ [quote] @ ''remarks'' @ [quote] @ '': '' @ [quote] @ name @ [quote] @ '',  '' @ [quote]
    @ ''x'' @ [quote] @ '':[1.5e3]}''"

definition sample_entry_tree :: "string \<Rightarrow> json" where
  "sample_entry_tree name = J_Object [(''remarks'', J_String name), (''x'', J_Array [J_Number ''1.5e3''])]"

theorem xray_document_shuffled_witness:
  "\<exists>out. apply_xray go_json sample_shuffler (''[ '' @ sample_entry ''DE1'' @ '','' @ sample_entry ''DE2'' @ '']'') = (out, True)
    \<and> document out (J_Array [sample_entry_tree ''DE2'', sample_entry_tree ''DE1''])"
proof -
  have perm: "permutation sample_shuffler (map xray_doc_name [sample_entry_tree ''DE1'', sample_entry_tree ''DE2''])
      = Some [1, 0]" by code_simp
  have "document (''[ '' @ sample_entry ''DE1'' @ '','' @ sample_entry ''DE2'' @ '']'')
      (J_Array [sample_entry_tree ''DE1'', sample_entry_tree ''DE2''])"
    unfolding doc_parse
  proof (rule exI, rule conjI)
    show "json_parse max_depth (''[ '' @ sample_entry ''DE1'' @ '','' @ sample_entry ''DE2'' @ '']'')
        = Some (J_Array [sample_entry_tree ''DE1'', sample_entry_tree ''DE2''])" by code_simp
    show "meaning (J_Array [sample_entry_tree ''DE1'', sample_entry_tree ''DE2''])
        = J_Array [sample_entry_tree ''DE1'', sample_entry_tree ''DE2'']" by code_simp
  qed
  from xray_document_shuffled [OF this, of sample_shuffler]
  show ?thesis unfolding perm by (simp del: append.simps)
qed

text \<open>C27: Shuffling a sing-box profile keeps the document: the outbounds are permuted as their tags ask, a
  selector among them keeps its names, and every other member of the profile says what it said, in
  its place.  When the flag is not set, the body is the one received.\<close>

theorem singbox_document_shuffled:
  "case apply_singbox go_json sh s of
      (out, False) \<Rightarrow> out = s
    | (out, True) \<Rightarrow> \<exists>ms vs p vs'. begins s (J_Object ms) \<and> map_of ms ''outbounds'' = Some (J_Array vs)
        \<and> permutation sh (map singbox_doc_name vs) = Some p \<and> list_all2 selector_kept (map ((!) vs) p) vs'
        \<and> document out (J_Object (object_set ms ''outbounds'' (J_Array vs')))"
proof -
  have "apply_singbox go_json sh s = (out, False) \<Longrightarrow> out = s" for out
    by (auto simp: apply_singbox_def Let_def split: option.splits)
  with go.singbox_document [of sh s] show ?thesis by (auto split: prod.split bool.split)
qed

text \<open>A profile with two hosts and a selector over them, for the example.\<close>

definition sample_host :: "string \<Rightarrow> json" where
  "sample_host name = J_Object [(''tag'', J_String name), (''server'', J_String ''h'')]"

definition sample_selector :: "string list \<Rightarrow> json" where
  "sample_selector names = J_Object [(''tag'', J_String ''s''), (''outbounds'', J_Array (map J_String names))]"

definition sample_profile :: "json list \<Rightarrow> json" where
  "sample_profile outbounds = J_Object [(''log'', J_Literal ''true''), (''outbounds'', J_Array outbounds)]"

theorem singbox_document_shuffled_witness:
  "snd (apply_singbox go_json sample_shuffler (print_indented '' ''
      (sample_profile [sample_host ''DE1'', sample_selector [''DE1'', ''x'', ''DE2''], sample_host ''DE2''])))
   \<and> (\<exists>vs'. list_all2 selector_kept [sample_host ''DE2'', sample_selector [''DE1'', ''x'', ''DE2''], sample_host ''DE1''] vs'
      \<and> document (fst (apply_singbox go_json sample_shuffler (print_indented '' ''
          (sample_profile [sample_host ''DE1'', sample_selector [''DE1'', ''x'', ''DE2''], sample_host ''DE2'']))))
        (sample_profile vs'))"
proof -
  let ?vs = "[sample_host ''DE1'', sample_selector [''DE1'', ''x'', ''DE2''], sample_host ''DE2'']"
  let ?s = "print_indented '' '' (sample_profile ?vs)"
  have run: "snd (apply_singbox go_json sample_shuffler ?s)" by code_simp
  then obtain out where out: "apply_singbox go_json sample_shuffler ?s = (out, True)"
    by (cases "apply_singbox go_json sample_shuffler ?s") auto
  have "next_value max_depth ?s = Some (sample_profile ?vs, [])" and same: "meaning (sample_profile ?vs) = sample_profile ?vs"
    by code_simp+
  from next_value_sound [OF this(1)] have "writes max_depth (sample_profile ?vs) ?s" by simp
  from writes_meaning [OF this] have says: "says max_depth ?s (sample_profile ?vs)" by (simp only: same)
  have perm: "permutation sample_shuffler (map singbox_doc_name ?vs) = Some [2, 1, 0]" by code_simp
  from singbox_document_shuffled [where sh = sample_shuffler and s = ?s] obtain ms vs p vs' where *:
    "begins ?s (J_Object ms)" "map_of ms ''outbounds'' = Some (J_Array vs)"
    "permutation sample_shuffler (map singbox_doc_name vs) = Some p"
    "list_all2 selector_kept (map ((!) vs) p) vs'" "document out (J_Object (object_set ms ''outbounds'' (J_Array vs')))"
    unfolding out by auto
  from begins_unique [OF says *(1)] have ms: "ms = [(''log'', J_Literal ''true''), (''outbounds'', J_Array ?vs)]"
    by (simp add: sample_profile_def)
  with *(2) have vs: "vs = ?vs" by simp
  with *(3) perm have "p = [2, 1, 0]" by simp
  with *(4,5) ms vs have "list_all2 selector_kept [?vs ! 2, ?vs ! 1, ?vs ! 0] vs'" "document out (sample_profile vs')"
    by (simp_all add: sample_profile_def)
  with out show ?thesis by auto
qed

text \<open>
  \<open>parseObject\<close> stops at the closing brace, so what follows it is lost when the profile is rewritten.
\<close>

lemma trailing_text_dropped: "parse_object ''{} and more'' = Some []"
  by code_simp

section \<open>Objects read back\<close>

lemma object_members_complete:
  "writes_members d ts w \<Longrightarrow> d \<le> max_depth \<Longrightarrow> length w \<le> n \<Longrightarrow>
    \<exists>obj. object_members n (w @ CHR ''}'' # rest) = Some obj"
proof (induction ts arbitrary: w n)
  case Nil
  then show ?case using writes_nonempty(2) by blast
next
  case (Cons t ts)
  from Cons.prems(1) show ?case
  proof (cases rule: writes_members.cases)
    case (w_member u k u1 u2 t' x v)
    obtain m where n: "n = Suc m" using Cons.prems(3) w_member by (cases n) auto
    have "next_value max_depth (x @ v @ CHR ''}'' # rest) = Some (t', v @ CHR ''}'' # rest)"
      using w_member by (intro next_value_complete [OF writes_le [OF Cons.prems(2)]] value_ends_blank) simp_all
    with n w_member show ?thesis by (simp add: scan_key_complete skip_value skip_blank)
  next
    case (w_more_members u k u1 u2 t' x v r)
    obtain m where n: "n = Suc m" using Cons.prems(3) w_more_members by (cases n) auto
    have "next_value max_depth (x @ v @ CHR '','' # r @ CHR ''}'' # rest) = Some (t', v @ CHR '','' # r @ CHR ''}'' # rest)"
      using w_more_members by (intro next_value_complete [OF writes_le [OF Cons.prems(2)]] value_ends_blank) simp_all
    moreover obtain obj where "object_members m (r @ CHR ''}'' # rest) = Some obj"
      using Cons.IH [of r m] w_more_members Cons.prems n by auto
    ultimately show ?thesis using n w_more_members by (simp add: scan_key_complete skip_value skip_blank Let_def)
  qed
qed

lemma parse_object_reads:
  assumes "says d s (J_Object ms)" "d \<le> max_depth"
  shows "\<exists>obj. parse_object s = Some obj \<and> members_say obj ms"
proof -
  obtain ts where ts: "writes d (J_Object ts) s" using assms(1) by (auto simp: says_def meaning_object)
  then have "\<exists>obj. parse_object s = Some obj"
  proof (cases rule: writes.cases)
    case (w_no_members u d')
    then show ?thesis by (simp add: parse_object_def skip_blank)
  next
    case (w_members d' w)
    obtain obj where "object_members (length (w @ ''}'')) (w @ CHR ''}'' # []) = Some obj"
      using object_members_complete [OF w_members(3), of "length (w @ ''}'')" "[]"] assms(2) w_members(1) by auto
    with w_members writes_members_starts [OF w_members(3), of "''}''"] show ?thesis by (simp add: parse_object_def)
  qed
  then obtain obj where obj: "parse_object s = Some obj" by blast
  from parse_object_says [OF this] obtain ms' where "begins s (J_Object ms')" "members_say obj ms'" by blast
  with begins_unique [OF assms(1)] obj show ?thesis by blast
qed

text \<open>C28: What \<open>MarshalJSON\<close> writes of an object \<open>parseObject\<close> reads back: the same keys in the same order, each
  with a value that says the same.\<close>

theorem object_round_trip:
  assumes "members_say obj ms" "marshal_object go_json obj = Some s"
  shows "\<exists>obj'. parse_object s = Some obj' \<and> members_say obj' ms \<and> map fst obj' = map fst obj"
proof -
  have keys: "map fst o1 = map fst ms" if "members_say o1 ms" for o1
    using that unfolding members_say_def by (induction rule: list_all2_induct) simp_all
  from parse_object_reads [OF marshal_object_says [OF assms] order_refl] keys assms(1) show ?thesis by metis
qed

theorem object_round_trip_witness:
  "\<exists>s obj'. marshal_object go_json [(''a<b'', ''[1 ]'')] = Some s \<and> parse_object s = Some obj'
    \<and> members_say obj' [(''a<b'', J_Array [J_Number ''1''])]"
proof -
  have parsed: "json_parse max_depth ''[1 ]'' = Some (J_Array [J_Number ''1''])" "utf8_valid ''a<b''"
    "\<not> Option.is_none (marshal_object go_json [(''a<b'', ''[1 ]'')])" by code_simp+
  obtain s where s: "marshal_object go_json [(''a<b'', ''[1 ]'')] = Some s" using parsed(3) by (auto simp: Option.is_none_def)
  have "next_value max_depth ''[1 ]'' = Some (J_Array [J_Number ''1''], [])" by code_simp
  from next_value_sound [OF this] have "writes max_depth (J_Array [J_Number ''1'']) ''[1 ]''" by simp
  then have "members_say [(''a<b'', ''[1 ]'')] [(''a<b'', J_Array [J_Number ''1''])]"
    using writes_meaning parsed(2) by (fastforce simp: members_say_def)
  from object_round_trip [OF this s] s show ?thesis by blast
qed

end
