(* ===== verification/Placeholder_Json.thy ===== *)
theory Placeholder_Json
  imports Json_Codec Placeholder "HOL-Library.List_Lexorder" "HOL-Library.Char_ord"
begin

text \<open>
  The JSON bodies of \<open>internal/hosts/placeholder.go\<close> as text: \<open>json.MarshalIndent\<close> sorts the keys of a map,
  quotes every text and lays the document out with two blanks.  What a client reads from them is
  one host per line of the message, named after it.
\<close>

fun doc_tree :: "doc \<Rightarrow> json" where
  "doc_tree (Doc_String s) = J_String (quote_inside s)"
| "doc_tree (Doc_Int n) = J_Number (format_int n)"
| "doc_tree (Doc_List ds) = J_Array (map doc_tree ds)"
| "doc_tree (Doc_Map ms) = J_Object (map (\<lambda>m. (quote_inside (fst m), doc_tree (snd m))) (sort_key fst ms))"

definition go_marshaller :: "(doc \<Rightarrow> string) \<Rightarrow> marshaller" where
  "go_marshaller yaml = \<lparr>to_json = (\<lambda>d. print_indented ''  '' (doc_tree d)), to_yaml = yaml\<rparr>"

section \<open>The bodies are JSON\<close>

text \<open>Every number in a document, and how deep it is.\<close>

fun doc_numbers :: "doc \<Rightarrow> bool" where
  "doc_numbers (Doc_Int n) \<longleftrightarrow> is_number (format_int n) \<and> list_all number_char (format_int n)"
| "doc_numbers (Doc_List ds) \<longleftrightarrow> list_all doc_numbers ds"
| "doc_numbers (Doc_Map ms) \<longleftrightarrow> list_all (\<lambda>m. doc_numbers (snd m)) ms"
| "doc_numbers _ \<longleftrightarrow> True"

fun doc_fits :: "nat \<Rightarrow> doc \<Rightarrow> bool" where
  "doc_fits d (Doc_List ds) \<longleftrightarrow> 0 < d \<and> list_all (doc_fits (d - 1)) ds"
| "doc_fits d (Doc_Map ms) \<longleftrightarrow> 0 < d \<and> list_all (\<lambda>m. doc_fits (d - 1) (snd m)) ms"
| "doc_fits d _ \<longleftrightarrow> True"

lemma writes_array: "\<forall>t \<in> set ts. \<exists>w. writes d t w \<Longrightarrow> \<exists>w. writes (Suc d) (J_Array ts) w"
proof -
  assume "\<forall>t \<in> set ts. \<exists>w. writes d t w"
  then obtain f where "\<forall>t \<in> set ts. writes d t (f t)" by metis
  then have "list_all2 (\<lambda>x t. writes d t x) (map f ts) ts" by (induction ts) simp_all
  then show ?thesis
    using w_items [OF joined_items] w_no_items [of "[]" d] by (cases "ts = []") auto
qed

lemma writes_object:
  assumes "\<forall>m \<in> set ms. inside (fst m) \<and> (\<exists>w. writes d (snd m) w)"
  shows "\<exists>w. writes (Suc d) (J_Object ms) w"
proof -
  from assms obtain f where "\<forall>m \<in> set ms. inside (fst m) \<and> writes d (snd m) (f m)" by metis
  then have "list_all2 (\<lambda>m n. inside (fst n) \<and> fst m = quote # fst n @ [quote] \<and> writes d (snd n) (snd m))
      (map (\<lambda>m. (quote # fst m @ [quote], f m)) ms) ms"
    by (induction ms) simp_all
  then show ?thesis
    using w_members [OF joined_members] w_no_members [of "[]" d] by (cases "ms = []") auto
qed

lemma doc_tree_writes: "doc_numbers x \<Longrightarrow> doc_fits d x \<Longrightarrow> \<exists>w. writes d (doc_tree x) w"
proof (induction x arbitrary: d)
  case (Doc_String s)
  then show ?case using w_string [OF quote_inside_reads(2)] by auto
next
  case (Doc_Int n)
  then show ?case using w_number by auto
next
  case (Doc_List ds)
  then obtain d' where d: "d = Suc d'" by (cases d) auto
  with Doc_List have "\<forall>t \<in> set (map doc_tree ds). \<exists>w. writes d' t w" by (auto simp: list_all_iff)
  from writes_array [OF this] d show ?case by simp
next
  case (Doc_Map ms)
  then obtain d' where d: "d = Suc d'" by (cases d) auto
  with Doc_Map have "\<exists>w. writes d' (doc_tree (snd m)) w" if "m \<in> set ms" for m
    using that by (cases m) (fastforce simp: list_all_iff)
  then have "\<forall>m \<in> set (map (\<lambda>m. (quote_inside (fst m), doc_tree (snd m))) (sort_key fst ms)).
      inside (fst m) \<and> (\<exists>w. writes d' (snd m) w)"
    by (auto simp: quote_inside_reads(2))
  from writes_object [OF this] d show ?case by simp
qed

lemma json_body_says:
  assumes "doc_numbers x" "doc_fits max_depth x"
  shows "document (to_json (go_marshaller yaml) x) (meaning (doc_tree x))"
proof -
  obtain w where "writes max_depth (doc_tree x) w" using doc_tree_writes [OF assms] by blast
  moreover have "\<forall>k. blank (newline # concat (replicate k ''  ''))"
    by (auto simp: blank_def list_all_iff json_space_def)
  moreover have "blank '' ''" by (simp add: json_space_def)
  ultimately have "writes max_depth (doc_tree x) (print_indented ''  '' (doc_tree x))"
    unfolding print_indented_def by (rule printed_says(1))
  from says_doc [OF order_refl writes_meaning [OF this]] show ?thesis by (simp add: go_marshaller_def)
qed

section \<open>The names a client reads\<close>

text \<open>A name as a client sees it: bytes that are no UTF-8 have become the error rune.\<close>

definition shown_name :: "string \<Rightarrow> string" where
  "shown_name n = encode_runes (runes n)"

lemma port_number: "doc_numbers (Doc_Int placeholder_port)"
  by code_simp

lemma xray_fits: "doc_numbers (placeholder_xray names)" "doc_fits max_depth (placeholder_xray names)"
  using port_number by (auto simp: placeholder_xray_def list_all_iff max_depth_def)

lemma singbox_fits: "doc_numbers (placeholder_singbox names)" "doc_fits max_depth (placeholder_singbox names)"
  using port_number by (auto simp: placeholder_singbox_def list_all_iff max_depth_def)

lemma shown_quoted: "unquote (quote_inside n) = shown_name n"
  by (simp add: quote_inside_reads(1) shown_name_def)

lemma keys_shown:
  "shown_name ''remarks'' = ''remarks''" "shown_name ''outbounds'' = ''outbounds''" "shown_name ''type'' = ''type''"
  "shown_name ''tag'' = ''tag''" "shown_name ''server'' = ''server''" "shown_name ''server_port'' = ''server_port''"
  "shown_name ''uuid'' = ''uuid''" "shown_name placeholder_server = placeholder_server"
  by code_simp+

lemma keys_fold:
  "\<not> equal_fold ''outbounds'' ''remarks''" "equal_fold ''remarks'' ''remarks''"
  "equal_fold ''tag'' ''tag''" "equal_fold ''server'' ''server''" "\<not> equal_fold ''server'' ''tag''"
  "\<not> equal_fold ''server_port'' ''tag''" "\<not> equal_fold ''server_port'' ''server''" "\<not> equal_fold ''server_port'' ''outbounds''"
  "\<not> equal_fold ''type'' ''tag''" "\<not> equal_fold ''type'' ''server''" "\<not> equal_fold ''type'' ''outbounds''"
  "\<not> equal_fold ''uuid'' ''tag''" "\<not> equal_fold ''uuid'' ''server''" "\<not> equal_fold ''uuid'' ''outbounds''"
  by code_simp+

lemma xray_entry_name:
  "xray_doc_name (meaning (doc_tree (Doc_Map [(''remarks'', Doc_String n), (''outbounds'', b)]))) = shown_name n"
  by (simp add: xray_doc_name_def decode_remarks_def decode_text_def shown_quoted keys_shown keys_fold)

lemma singbox_entry_name:
  "singbox_doc_name (meaning (doc_tree (Doc_Map
      [(''type'', t), (''tag'', Doc_String n), (''server'', Doc_String placeholder_server),
       (''server_port'', p), (''uuid'', u)]))) = shown_name n"
  by (simp add: singbox_doc_name_def decode_node_def decode_member_def decode_text_def shown_quoted keys_shown keys_fold)
    (simp add: placeholder_server_def)

lemma xray_entries:
  obtains e where "\<forall>names. placeholder_xray names = Doc_List (map e names)"
    "\<forall>n. xray_doc_name (meaning (doc_tree (e n))) = shown_name n"
proof -
  have "\<exists>e. (\<forall>names. placeholder_xray names = Doc_List (map e names))
      \<and> (\<forall>n. xray_doc_name (meaning (doc_tree (e n))) = shown_name n)"
    by (intro exI conjI allI, rule placeholder_xray_def, rule xray_entry_name)
  with that show thesis by blast
qed

lemma singbox_entries:
  obtains e where "\<forall>names. placeholder_singbox names = Doc_Map [(''outbounds'', Doc_List (map e names))]"
    "\<forall>n. singbox_doc_name (meaning (doc_tree (e n))) = shown_name n"
proof -
  have "\<exists>e. (\<forall>names. placeholder_singbox names = Doc_Map [(''outbounds'', Doc_List (map e names))])
      \<and> (\<forall>n. singbox_doc_name (meaning (doc_tree (e n))) = shown_name n)"
    by (intro exI conjI allI, rule placeholder_singbox_def, rule singbox_entry_name)
  with that show thesis by blast
qed

text \<open>C40: A message reaches the user in the JSON formats: the Xray and the sing-box placeholder bodies are
  JSON documents whose hosts are named after the lines of the message, in their order, each once.\<close>

theorem placeholder_json_readable:
  "(\<exists>vs. document (placeholder (go_marshaller yaml) Format_Xray ns) (J_Array vs)
      \<and> map xray_doc_name vs = map shown_name (unique_names ns))
   \<and> (\<exists>vs. document (placeholder (go_marshaller yaml) Format_Singbox ns) (J_Object [(''outbounds'', J_Array vs)])
      \<and> map singbox_doc_name vs = map shown_name (unique_names ns))"
proof
  let ?names = "unique_names ns"
  obtain e where e: "\<forall>names. placeholder_xray names = Doc_List (map e names)"
    "\<forall>n. xray_doc_name (meaning (doc_tree (e n))) = shown_name n" by (rule xray_entries)
  from json_body_says [OF xray_fits, of yaml ?names]
  show "\<exists>vs. document (placeholder (go_marshaller yaml) Format_Xray ns) (J_Array vs)
      \<and> map xray_doc_name vs = map shown_name ?names"
    by (intro exI [of _ "map (\<lambda>n. meaning (doc_tree (e n))) ?names"]) (simp add: placeholder_def e comp_def)
  obtain e where e: "\<forall>names. placeholder_singbox names = Doc_Map [(''outbounds'', Doc_List (map e names))]"
    "\<forall>n. singbox_doc_name (meaning (doc_tree (e n))) = shown_name n" by (rule singbox_entries)
  from json_body_says [OF singbox_fits, of yaml ?names]
  show "\<exists>vs. document (placeholder (go_marshaller yaml) Format_Singbox ns) (J_Object [(''outbounds'', J_Array vs)])
      \<and> map singbox_doc_name vs = map shown_name ?names"
    by (intro exI [of _ "map (\<lambda>n. meaning (doc_tree (e n))) ?names"])
      (simp add: placeholder_def e comp_def shown_quoted keys_shown)
qed

end
