(* ===== verification/System.thy ===== *)
theory System
  imports Proxy
begin

text \<open>
  The proxy over time: a history is a list of turns, each a request with the world it meets (the time,
  the orders of the maps, the random numbers of the shuffler, the upstream, what the panel answers),
  and the fallback cache goes from one turn to the next.  A request touches the cache at most once,
  by one critical section; \<open>Interleaving\<close> shows that any concurrent run is one of these histories, with
  the turns in the order in which they come to the cache.
\<close>

record turn =
  tn_env :: env
  tn_draw :: "nat \<Rightarrow> nat \<Rightarrow> nat"
  tn_panel :: fetcher
  tn_hijack :: bool
  tn_upstream :: upstream
  tn_request :: http_request

text \<open>The engine and the shuffler of the proxy in the world of a turn.\<close>

definition engine_at :: "engine \<Rightarrow> turn \<Rightarrow> engine" where
  "engine_at e q = e
    \<lparr>eng_fetcher := map_option (\<lambda>_. tn_panel q) (eng_fetcher e),
     eng_resolver := (eng_resolver e)\<lparr>res_time := (res_time (eng_resolver e))\<lparr>now := env_now (tn_env q)\<rparr>\<rparr>\<rparr>"

definition shuffler_at :: "shuffler \<Rightarrow> turn \<Rightarrow> shuffler" where
  "shuffler_at s q = s\<lparr>sh_draw := tn_draw q\<rparr>"

definition at_turn :: "'p proxy \<Rightarrow> turn \<Rightarrow> 'p proxy" where
  "at_turn p q = p\<lparr>px_options := (px_options p)
    \<lparr>opt_engine := map_option (\<lambda>e. engine_at e q) (px_engine p),
     opt_shuffler := map_option (\<lambda>s. shuffler_at s q) (px_shuffler p)\<rparr>\<rparr>"

text \<open>What the routes, the rules and the request to the upstream are made of stays.\<close>

lemma at_turn_parts [simp]:
  "px_observes (at_turn p q) = px_observes p" "px_rewrites (at_turn p q) = px_rewrites p"
  "opt_upstream (px_options (at_turn p q)) = opt_upstream (px_options p)"
  "opt_sub_prefix (px_options (at_turn p q)) = opt_sub_prefix (px_options p)"
  "opt_real_ip (px_options (at_turn p q)) = opt_real_ip (px_options p)"
  "opt_blocker (px_options (at_turn p q)) = opt_blocker (px_options p)"
  "opt_user_agents (px_options (at_turn p q)) = opt_user_agents (px_options p)"
  "opt_force_https (px_options (at_turn p q)) = opt_force_https (px_options p)"
  by (simp_all add: at_turn_def)

lemma at_turn_shuffles [simp]: "shuffles (at_turn p q) = shuffles p"
  by (auto simp: fun_eq_iff shuffles_def at_turn_def shuffler_at_def shuffler_enabled_def split: option.split)

lemma at_turn_request [simp]:
  "request_info_for l (at_turn p q) = request_info_for l p" "notice_for (at_turn p q) = notice_for p"
  "rewrite_out l (at_turn p q) = rewrite_out l p"
proof -
  have template: "template_request l (at_turn p q) = template_request l p"
    unfolding template_request_def subscription_url_def at_turn_parts ..
  show notice: "notice_for (at_turn p q) = notice_for p"
    unfolding notice_for_def at_turn_parts ..
  show "request_info_for l (at_turn p q) = request_info_for l p"
    unfolding request_info_for_def template notice at_turn_parts ..
  show "rewrite_out l (at_turn p q) = rewrite_out l p"
    unfolding rewrite_out_def rewrite_hook_def forward_headers_def at_turn_parts at_turn_shuffles ..
qed

definition serve_turn ::
    "('a, 'p, 'm) libs \<Rightarrow> 'p proxy \<Rightarrow> sub_cache option \<Rightarrow> turn \<Rightarrow> served" where
  "serve_turn l p c q =
    serve_http l (at_turn p q) (tn_env q) (tn_hijack q) (tn_upstream q) c (tn_request q)"

fun cache_run :: "('a, 'p, 'm) libs \<Rightarrow> 'p proxy \<Rightarrow> sub_cache option \<Rightarrow> turn list \<Rightarrow> sub_cache option" where
  "cache_run l p c [] = c"
| "cache_run l p c (q # qs) = cache_run l p (cache_after (serve_turn l p c q)) qs"

lemma cache_run_append: "cache_run l p c (qs @ qs') = cache_run l p (cache_run l p c qs) qs'"
  by (induction qs arbitrary: c) auto

section \<open>What one turn does to the cache\<close>

text \<open>The one answer that a request gets, or the error of a switch to an unprintable protocol.\<close>

definition round_trip ::
    "('a, 'p, 'm) libs \<Rightarrow> 'p proxy \<Rightarrow> turn \<Rightarrow> request_info option \<Rightarrow> net_error + response" where
  "round_trip l p q info =
    (if forwards (tn_request q) then tn_upstream q (rewrite_out l p (tn_request q) info) else Inl Bad_Protocol)"

text \<open>The request as the cache sees it: nothing when it has no key.\<close>

definition keyed_info ::
    "('a, 'p, 'm) libs \<Rightarrow> 'p proxy \<Rightarrow> sub_cache option \<Rightarrow> turn \<Rightarrow> request_info option" where
  "keyed_info l p c q =
    (case request_info_for l p c (tn_request q) of
       None \<Rightarrow> None
     | Some i \<Rightarrow>
         if ri_cache_key i = [] \<or> blocked (opt_blocker (px_options p)) (in_path (tn_request q)) then None
         else Some i)"

text \<open>What the client is answered and the cache may keep.\<close>

definition shaped ::
    "('a, 'p, 'm) libs \<Rightarrow> 'p proxy \<Rightarrow> sub_cache \<Rightarrow> turn \<Rightarrow> request_info \<Rightarrow> response \<Rightarrow> response" where
  "shaped l p sc q i resp =
    fst (snd (modify_response l (at_turn p q) (tn_env q) (Some i) (Some sc) (received resp)))"

definition cache_event_of ::
    "('a, 'p, 'm) libs \<Rightarrow> 'p proxy \<Rightarrow> sub_cache \<Rightarrow> turn
      \<Rightarrow> ((string, entry) iter_order, string, response_parts) cache_event option" where
  "cache_event_of l p sc q =
    (case keyed_info l p (Some sc) q of
       None \<Rightarrow> None
     | Some i \<Rightarrow>
         (let ev = (\<lambda>v. (env_entry_order (tn_env q), env_now (tn_env q), ri_cache_key i, v)) in
          case round_trip l p q (Some i) of
            Inl err \<Rightarrow> if err = Canceled then None else Some (ev None)
          | Inr resp \<Rightarrow>
              if 500 \<le> resp_status resp then Some (ev None)
              else
                (let out = shaped l p sc q i resp
                 in if rewritable out \<and> complete out \<and> int (length (text_of out)) \<le> max_body sc
                    then Some (ev (Some (resp_status out, resp_header out, text_of out))) else None)))"

lemma keyed_infoD:
  assumes "keyed_info l p c q = Some i"
  shows "request_info_for l p c (tn_request q) = Some i" "ri_cache_key i \<noteq> []"
    "\<not> blocked (opt_blocker (px_options p)) (in_path (tn_request q))"
    "ri_notice i = None" "notice_for p (tn_request q) = None"
  using assms
  by (auto simp: keyed_info_def request_info_for_def Let_def split: option.splits if_splits)

lemma keyed_info_any: "keyed_info l p (Some sc) q = keyed_info l p (Some sc') q"
proof -
  have "request_info_for l p (Some sc) (tn_request q) = request_info_for l p (Some sc') (tn_request q)"
    by (cases "px_observes p") (simp_all add: request_info_for_def Let_def)
  then show ?thesis by (simp add: keyed_info_def)
qed

lemma serve_keyed:
  assumes "keyed_info l p c q = Some i"
  shows "serve_turn l p c q =
    reverse_proxy l (at_turn p q) (tn_env q) (tn_hijack q) (tn_upstream q) (tn_request q) (Some i) c"
  using keyed_infoD [OF assms] by (simp add: serve_turn_def serve_plain)

lemma cached_touch:
  "ri_cache_key i \<noteq> [] \<Longrightarrow>
    cached env i (Some sc) =
      (fst (sub_get sc (env_now env) (ri_cache_key i)), Some (sub_touch sc (env_now env) (ri_cache_key i)))"
  by (simp add: cached_def sub_touch_def split_beta)

lemma handle_canceled: "handle_error l p env h info c Canceled w = (No_Answer, c)"
  by (simp add: handle_error_def)

lemma error_touches:
  assumes "ri_cache_key i \<noteq> []" "err \<noteq> Canceled"
  shows "snd (handle_error l p env h (Some i) (Some sc) err w) = Some (sub_touch sc (env_now env) (ri_cache_key i))"
  using assms by (simp add: handle_error_def write_from_cache_def cached_touch Let_def split: option.split)

lemma failure_touches:
  assumes "ri_notice i = None" "ri_cache_key i \<noteq> []" "500 \<le> resp_status resp"
  shows "snd (snd (modify_response l p env (Some i) (Some sc) resp))
    = Some (sub_touch sc (env_now env) (ri_cache_key i))"
proof (cases "fst (sub_get sc (env_now env) (ri_cache_key i))")
  case None
  let ?c = "Some (sub_touch sc (env_now env) (ri_cache_key i))"
  have r: "replace_with_cache env i (Some sc) resp = (None, ?c)"
    using None assms by (simp add: replace_with_cache_def cached_touch)
  have "\<not> rewritable (shuffle l p env i (resp\<lparr>resp_header := h\<rparr>))" for h
    using assms(3) by (simp add: rewritable_def shuffle_status)
  then show ?thesis
    using modify_kept [OF r, of l p] assms(1) by (simp add: store_def Let_def)
next
  case (Some e)
  with assms show ?thesis by (simp add: modify_response_def replace_with_cache_def cached_touch)
qed

lemma modify_unkeyed:
  "ri_cache_key i = [] \<Longrightarrow> snd (snd (modify_response l p env (Some i) c resp)) = c"
  using modify_kept [OF no_key_no_replace, of i l p env c resp]
  by (cases "ri_notice i") (simp_all add: Let_def store_def split: option.split)

lemma reverse_unkeyed:
  assumes "\<And>i. info = Some i \<Longrightarrow> ri_cache_key i = []"
  shows "cache_after (reverse_proxy l p env h up r info c) = c"
proof -
  have "snd (handle_error l p env h info c err w) = c" for err w
    using assms by (auto simp: handle_error_def write_from_cache_def no_key_no_cache split: option.split)
  moreover have "snd (snd (modify_response l p env info c resp)) = c" for resp
    using assms modify_unkeyed by (cases info) (simp_all add: modify_response_def)
  ultimately show ?thesis by (simp add: reverse_proxy_def Let_def split_beta split: sum.split)
qed

lemma serve_unkeyed:
  assumes "keyed_info l p c q = None"
  shows "cache_after (serve_turn l p c q) = c"
proof (cases "blocked (opt_blocker (px_options p)) (in_path (tn_request q))")
  case True
  then show ?thesis by (simp add: serve_turn_def serve_http_def)
next
  case False
  with assms have unkeyed: "ri_cache_key i = []" if "request_info_for l p c (tn_request q) = Some i" for i
    using that by (auto simp: keyed_info_def split: if_splits)
  show ?thesis
  proof (cases "notice_for p (tn_request q)")
    case None
    with False unkeyed show ?thesis by (simp add: serve_turn_def serve_plain reverse_unkeyed)
  next
    case (Some n)
    with False unkeyed show ?thesis by (simp add: serve_turn_def serve_notice reverse_unkeyed split_beta)
  qed
qed

text \<open>The answer below 500 of a request that has a key.\<close>

lemma answer_stored:
  assumes "ri_notice i = None" "ri_cache_key i \<noteq> []" "resp_status resp < 500" "0 \<le> max_body sc"
    and "out = shaped l p sc q i resp"
  shows "snd (snd (modify_response l (at_turn p q) (tn_env q) (Some i) (Some sc) (received resp))) = Some
    (if rewritable out \<and> complete out \<and> int (length (text_of out)) \<le> max_body sc
     then sub_store (env_entry_order (tn_env q)) sc (env_now (tn_env q)) (ri_cache_key i)
       (resp_status out, resp_header out, text_of out)
     else sc)"
  using stored_is_shaped [of i "received resp" sc l "at_turn p q" "tn_env q"] assms
  by (simp add: shaped_def Let_def split_beta sub_store_def)

text \<open>A turn is at most one look-up or one store.\<close>

lemma turn_event:
  assumes "0 \<le> max_body sc"
  shows "cache_after (serve_turn l p (Some sc) q) =
    Some (case cache_event_of l p sc q of None \<Rightarrow> sc | Some ev \<Rightarrow> run_event sub_touch sub_store ev sc)"
proof (cases "keyed_info l p (Some sc) q")
  case None
  then show ?thesis by (simp add: serve_unkeyed cache_event_of_def)
next
  case (Some i)
  note i = keyed_infoD [OF Some] and serve = serve_keyed [OF Some]
  show ?thesis
  proof (cases "round_trip l p q (Some i)")
    case (Inl err)
    have "snd (handle_error l (at_turn p q) (tn_env q) h (Some i) (Some sc) err w)
        = (if err = Canceled then Some sc else Some (sub_touch sc (env_now (tn_env q)) (ri_cache_key i)))" for h w
      using error_touches [OF i(2)] by (cases "err = Canceled") (simp add: handle_error_def, simp)
    with Inl Some show ?thesis
      by (simp add: handle_canceled serve cache_event_of_def reverse_proxy_def round_trip_def Let_def split_beta
          split: if_splits)
  next
    case (Inr resp)
    then have "cache_after (serve_turn l p (Some sc) q)
        = snd (snd (modify_response l (at_turn p q) (tn_env q) (Some i) (Some sc) (received resp)))"
      by (simp add: serve reverse_proxy_def round_trip_def Let_def split_beta split: if_splits)
    with Inr Some failure_touches [OF i(4,2), of "received resp" l "at_turn p q" "tn_env q" sc] answer_stored [OF i(4,2) _ assms refl, of resp l p q]
    show ?thesis by (simp add: cache_event_of_def Let_def)
  qed
qed

lemma touch_config [simp]:
  "max_body (sub_touch c t k) = max_body c" "max_bytes (sub_touch c t k) = max_bytes c"
  "sub_ttl (sub_touch c t k) = sub_ttl c"
  by (simp_all add: sub_touch_def sub_get_def split: option.split)

text \<open>All that a request sees of the cache is the entry it looks up.\<close>

definition looks_alike :: "env \<Rightarrow> request_info \<Rightarrow> sub_cache \<Rightarrow> sub_cache \<Rightarrow> bool" where
  "looks_alike env i sc sc' \<longleftrightarrow>
    max_body sc = max_body sc' \<and> fst (cached env i (Some sc)) = fst (cached env i (Some sc'))"

lemma write_from_cache_alike:
  "looks_alike env i sc sc' \<Longrightarrow>
    fst (write_from_cache l p env i (Some sc) w) = fst (write_from_cache l p env i (Some sc') w)"
  unfolding looks_alike_def write_from_cache_def
  by (cases "cached env i (Some sc)"; cases "cached env i (Some sc')"; cases "fst (cached env i (Some sc'))")
    (auto simp: Let_def)

lemma handle_error_alike:
  assumes "looks_alike env i sc sc'"
  shows "fst (handle_error l p env h (Some i) (Some sc) err w)
    = fst (handle_error l p env h (Some i) (Some sc') err w)"
  using write_from_cache_alike [OF assms, of l p w] unfolding handle_error_def
  by (cases "write_from_cache l p env i (Some sc) w"; cases "write_from_cache l p env i (Some sc') w")
    (auto split: option.split)

lemma cached_next:
  obtains a where "cached env i (Some c) = (fst (cached env i (Some c)), Some a)" "max_body a = max_body c"
proof (cases "ri_cache_key i = []")
  case True
  then show ?thesis by (intro that [of c]) (simp_all add: cached_def)
next
  case False
  then show ?thesis
    by (intro that [of "sub_touch c (env_now env) (ri_cache_key i)"]) (simp_all add: cached_touch)
qed

lemma replace_with_cache_alike:
  assumes "looks_alike env i sc sc'"
  obtains r a b where "replace_with_cache env i (Some sc) resp = (r, Some a)"
    "replace_with_cache env i (Some sc') resp = (r, Some b)" "max_body a = max_body b"
proof (cases "resp_status resp < 500")
  case True
  with assms show ?thesis
    by (intro that [of None sc sc']) (simp_all add: replace_with_cache_def looks_alike_def)
next
  case False
  obtain a b where a: "cached env i (Some sc) = (fst (cached env i (Some sc)), Some a)" "max_body a = max_body sc"
    and b: "cached env i (Some sc') = (fst (cached env i (Some sc')), Some b)" "max_body b = max_body sc'"
    using cached_next by metis
  let ?e = "fst (cached env i (Some sc'))"
  from assms have alike: "fst (cached env i (Some sc)) = ?e" "max_body sc = max_body sc'"
    by (simp_all add: looks_alike_def)
  have "replace_with_cache env i (Some c) resp = (map_option (\<lambda>e. set_body (ent_body e)
      (resp\<lparr>resp_status := ent_status e, resp_header := ent_header e\<rparr>)) ?e, Some d)"
    if "cached env i (Some c) = (?e, Some d)" for c d
    using that False by (simp add: replace_with_cache_def split: option.split)
  from this [OF a(1) [unfolded alike(1)]] this [OF b(1)] show ?thesis
    by (rule that) (simp add: a(2) b(2) alike(2))
qed

lemma store_alike:
  "max_body a = max_body b \<Longrightarrow> fst (store env i (Some a) resp) = fst (store env i (Some b) resp)"
  by (auto simp: store_def split: option.split prod.split)

lemma modify_response_alike:
  assumes "looks_alike env i sc sc'"
  shows "fst (modify_response l p env (Some i) (Some sc) resp)
      = fst (modify_response l p env (Some i) (Some sc') resp)"
    "fst (snd (modify_response l p env (Some i) (Some sc) resp))
      = fst (snd (modify_response l p env (Some i) (Some sc') resp))"
proof -
  obtain r a b where r: "replace_with_cache env i (Some sc) resp = (r, Some a)"
    "replace_with_cache env i (Some sc') resp = (r, Some b)" "max_body a = max_body b"
    by (rule replace_with_cache_alike [OF assms])
  show "fst (modify_response l p env (Some i) (Some sc) resp)
      = fst (modify_response l p env (Some i) (Some sc') resp)"
    "fst (snd (modify_response l p env (Some i) (Some sc) resp))
      = fst (snd (modify_response l p env (Some i) (Some sc') resp))"
    unfolding modify_response_def option.case r(1,2) prod.case
    by (cases r; cases "ri_notice i"; simp add: Let_def split_beta store_alike [OF r(3)])+
qed

lemma reverse_proxy_alike:
  assumes "\<And>i. info = Some i \<Longrightarrow> looks_alike env i sc sc'"
  shows "reverse_proxy l p env h up r info (Some sc') = (reverse_proxy l p env h up r info (Some sc))
    \<lparr>cache_after := cache_after (reverse_proxy l p env h up r info (Some sc'))\<rparr>"
proof -
  have error: "fst (handle_error l p env h info (Some sc') err w) = fst (handle_error l p env h info (Some sc) err w)"
    for err w
    by (cases info) (simp add: handle_error_def, simp add: handle_error_alike [OF assms])
  have modify: "fst (modify_response l p env info (Some sc') resp) = fst (modify_response l p env info (Some sc) resp)"
    "fst (snd (modify_response l p env info (Some sc') resp)) = fst (snd (modify_response l p env info (Some sc) resp))"
    for resp
    by (cases info; simp add: modify_response_def [where info = None] modify_response_alike [OF assms])+
  show ?thesis
    by (simp add: reverse_proxy_def Let_def split_beta error modify split: sum.split)
qed

lemma answer_by_look:
  assumes "\<And>i. request_info_for l p (Some sc) (tn_request q) = Some i \<Longrightarrow> looks_alike (tn_env q) i sc sc'"
  shows "serve_turn l p (Some sc') q = (serve_turn l p (Some sc) q)
    \<lparr>cache_after := cache_after (serve_turn l p (Some sc') q)\<rparr>"
proof (cases "blocked (opt_blocker (px_options p)) (in_path (tn_request q))")
  case True
  then show ?thesis by (simp add: serve_turn_def serve_http_def)
next
  case False
  have info: "request_info_for l p (Some sc') (tn_request q) = request_info_for l p (Some sc) (tn_request q)"
    by (simp add: request_info_for_def Let_def)
  note same = reverse_proxy_alike [OF assms, where l = l and p = "at_turn p q"]
  show ?thesis
  proof (cases "notice_for p (tn_request q)")
    case None
    with False same show ?thesis by (simp add: serve_turn_def serve_plain info)
  next
    case (Some n)
    with False same show ?thesis by (simp add: serve_turn_def serve_notice info split_beta)
  qed
qed

section \<open>Histories\<close>

fun history ::
    "('a, 'p, 'm) libs \<Rightarrow> 'p proxy \<Rightarrow> sub_cache \<Rightarrow> turn list
      \<Rightarrow> ((string, entry) iter_order, string, response_parts) cache_event list" where
  "history l p sc [] = []"
| "history l p sc (q # qs) =
    (case cache_event_of l p sc q of
       None \<Rightarrow> history l p sc qs
     | Some ev \<Rightarrow> ev # history l p (run_event sub_touch sub_store ev sc) qs)"

abbreviation run_events ::
    "((string, entry) iter_order, string, response_parts) cache_event list \<Rightarrow> sub_cache \<Rightarrow> sub_cache" where
  "run_events \<equiv> fold (run_event sub_touch sub_store)"

lemma event_config [simp]:
  "max_body (run_event sub_touch sub_store ev c) = max_body c"
  "max_bytes (run_event sub_touch sub_store ev c) = max_bytes c"
  "sub_ttl (run_event sub_touch sub_store ev c) = sub_ttl c"
  by (cases ev; cases "snd (snd (snd ev))"; simp add: sub_store_def)+

lemma events_config [simp]:
  "max_body (run_events evs c) = max_body c" "max_bytes (run_events evs c) = max_bytes c"
  "sub_ttl (run_events evs c) = sub_ttl c"
  by (induction evs arbitrary: c) simp_all

lemma cache_run_history:
  "0 \<le> max_body sc \<Longrightarrow> cache_run l p (Some sc) qs = Some (run_events (history l p sc qs) sc)"
  by (induction qs arbitrary: sc) (simp_all add: turn_event split: option.split)

lemma history_snoc:
  "0 \<le> max_body sc \<Longrightarrow> history l p sc (qs @ [q]) = history l p sc qs @
    (case cache_event_of l p (run_events (history l p sc qs) sc) q of None \<Rightarrow> [] | Some ev \<Rightarrow> [ev])"
  by (induction qs arbitrary: sc) (simp_all split: option.split)

text \<open>Every store of a history is the doing of one of its turns.\<close>

lemma history_store:
  assumes "0 \<le> max_body sc" "last_kept keeps (history l p sc qs) k = Some (t, v)"
  shows "\<exists>xs q ys ord. qs = xs @ q # ys
    \<and> cache_event_of l p (run_events (history l p sc xs) sc) q = Some (ord, t, k, Some v)"
  using assms(2)
proof (induction qs rule: rev_induct)
  case Nil
  then show ?case by (simp add: last_kept_def)
next
  case (snoc q qs)
  let ?sc = "run_events (history l p sc qs) sc"
  have earlier: ?case if "last_kept keeps (history l p sc qs) k = Some (t, v)"
  proof -
    from snoc.IH [OF that] obtain xs q' ys ord where "qs = xs @ q' # ys"
      "cache_event_of l p (run_events (history l p sc xs) sc) q' = Some (ord, t, k, Some v)" by blast
    then show ?thesis by (intro exI [of _ xs] exI [of _ q'] exI [of _ "ys @ [q]"]) simp
  qed
  show ?case
  proof (cases "cache_event_of l p ?sc q")
    case None
    with snoc.prems earlier show ?thesis by (simp add: history_snoc assms(1))
  next
    case (Some ev)
    obtain ord t' k' v' where ev: "ev = (ord, t', k', v')" by (cases ev)
    show ?thesis
    proof (cases "t' = t \<and> k' = k \<and> v' = Some v")
      case True
      with Some ev show ?thesis by (intro exI [of _ qs] exI [of _ q] exI [of _ "[]"]) auto
    next
      case False
      with snoc.prems Some ev have "last_kept keeps (history l p sc qs) k = Some (t, v)"
        by (auto simp: history_snoc assms(1) last_kept_def split: if_splits)
      then show ?thesis by (rule earlier)
    qed
  qed
qed

text \<open>The cache of any history is in order and within its budget.\<close>

lemma event_ok [inv_intros]: "sub_ok c \<Longrightarrow> sub_ok (run_event sub_touch sub_store ev c)"
  by (cases ev; cases "snd (snd (snd ev))") (auto simp: sub_touch_def sub_store_def intro: sub_get_ok sub_put_ok)

lemma touch_bytes:
  assumes "sub_ok c" shows "sub_bytes (sub_touch c t k) \<le> sub_bytes c"
proof -
  have "sub_bytes (remove_locked k c) \<le> sub_bytes c"
    by (simp add: remove_locked_def entry_size_nonneg split: option.split)
  moreover have "sub_bytes c \<le> sub_bytes c" by simp
  ultimately show ?thesis by (auto simp: sub_touch_def sub_get_def split: option.split)
qed

lemma event_budget:
  assumes "sub_ok c" "0 < max_bytes c" "sub_bytes c \<le> max_bytes c"
    and "is_order (fst ev)"
  shows "sub_bytes (run_event sub_touch sub_store ev c) \<le> max_bytes c"
proof (cases ev)
  case (fields ord t k v)
  then show ?thesis
    using assms touch_bytes [OF assms(1), of t k] by (cases v) (auto simp: sub_store_def intro: sub_put_budget)
qed

lemma event_turn:
  assumes "cache_event_of l p sc q = Some ev"
  shows "fst ev = env_entry_order (tn_env q) \<and> fst (snd ev) = env_now (tn_env q) \<and> fst (snd (snd ev)) \<noteq> []"
  using assms keyed_infoD(2) [of l p "Some sc" q]
  by (auto simp: cache_event_of_def Let_def split: option.splits sum.splits if_splits)

lemmas event_order = event_turn [THEN conjunct1]

lemma history_turns:
  "ev \<in> set (history l p sc qs) \<Longrightarrow> \<exists>q \<in> set qs.
    fst ev = env_entry_order (tn_env q) \<and> fst (snd ev) = env_now (tn_env q) \<and> fst (snd (snd ev)) \<noteq> []"
  by (induction qs arbitrary: sc) (auto split: option.splits dest: event_turn)

lemma history_in_budget_from:
  assumes "sub_ok sc" "0 < max_bytes sc \<longrightarrow> sub_bytes sc \<le> max_bytes sc"
    and "\<forall>q \<in> set qs. is_order (env_entry_order (tn_env q))"
  shows "sub_ok (run_events (history l p sc qs) sc)
    \<and> (0 < max_bytes sc \<longrightarrow> sub_bytes (run_events (history l p sc qs) sc) \<le> max_bytes sc)"
  using assms
proof (induction qs arbitrary: sc)
  case (Cons q qs)
  show ?case
  proof (cases "cache_event_of l p sc q")
    case None
    with Cons show ?thesis by simp
  next
    case (Some ev)
    with Cons.prems event_order [OF Some] have "is_order (fst ev)" by simp
    with Cons.prems have "0 < max_bytes sc \<longrightarrow> sub_bytes (run_event sub_touch sub_store ev sc) \<le> max_bytes sc"
      by (auto intro: event_budget)
    with Cons.IH [of "run_event sub_touch sub_store ev sc"] Cons.prems Some event_ok [of sc ev]
    show ?thesis by simp
  qed
qed simp

text \<open>C19: Whatever requests come and whatever the upstream answers, the fallback cache keeps exact
  books, holds no body over the limit and stays within its budget.\<close>

theorem history_in_budget:
  assumes "0 \<le> mbody" and "\<forall>q \<in> set qs. is_order (env_entry_order (tn_env q))"
  shows "\<exists>sc. cache_run l p (Some (new_sub_cache ttl mb mbody)) qs = Some sc
    \<and> sub_ok sc \<and> (0 < mb \<longrightarrow> sub_bytes sc \<le> mb)"
proof -
  let ?new = "new_sub_cache ttl mb mbody"
  have cfg: "max_body ?new = mbody" "max_bytes ?new = mb" "sub_bytes ?new = 0"
    by (simp_all add: new_sub_cache_def)
  with history_in_budget_from [OF new_cache_ok, of ttl mb mbody qs l p] assms cache_run_history [of ?new l p qs]
  show ?thesis by auto
qed

section \<open>Who gets whose subscription\<close>

text \<open>Requests for one subscription by one client: what the key of the cache is made of.\<close>

definition same_client :: "'p proxy \<Rightarrow> http_request \<Rightarrow> http_request \<Rightarrow> bool" where
  "same_client p r r' \<longleftrightarrow>
    parse_route (in_path r) (opt_sub_prefix (px_options p)) = parse_route (in_path r') (opt_sub_prefix (px_options p))
    \<and> header_get (in_header r) ''User-Agent'' = header_get (in_header r') ''User-Agent''
    \<and> header_get (in_header r) ''Accept-Encoding'' = header_get (in_header r') ''Accept-Encoding''"

text \<open>Header values as \<open>net/http\<close> lets them in have no NUL byte.\<close>

definition clean :: "http_request \<Rightarrow> bool" where
  "clean r \<longleftrightarrow> CHR 0x00 \<notin> set (header_get (in_header r) ''User-Agent'')
    \<and> CHR 0x00 \<notin> set (header_get (in_header r) ''Accept-Encoding'')"

lemma keyed_key:
  assumes "keyed_info l p c q = Some i"
  shows "ri_cache_key i = cache_key_for (parse_route (in_path (tn_request q)) (opt_sub_prefix (px_options p))) (tn_request q)"
  using keyed_infoD(1,2,5) [OF assms] by (auto simp: request_info_for_def Let_def split: if_splits)

lemma client_type_clean: "CHR 0x00 \<notin> set (route_client_type (parse_route path pfx))"
proof -
  have "\<forall>t \<in> set ([] # client_type_names). CHR 0x00 \<notin> set t" by code_simp
  then show ?thesis using route_short_uuid_plausible [of path pfx] by auto
qed

lemma same_key_same_client:
  assumes "keyed_info l p c q = Some i" "keyed_info l p c' q' = Some i'"
    and "clean (tn_request q)" "clean (tn_request q')"
  shows "ri_cache_key i = ri_cache_key i' \<longleftrightarrow> same_client p (tn_request q) (tn_request q')"
  using assms(3,4) client_type_clean
  by (auto simp: keyed_key [OF assms(1)] keyed_key [OF assms(2)] cache_key_for_def cache_key_parts clean_def
      same_client_def)

lemma same_client_key:
  "keyed_info l p c q = Some i \<Longrightarrow> keyed_info l p c' q' = Some i' \<Longrightarrow>
    same_client p (tn_request q) (tn_request q') \<Longrightarrow> ri_cache_key i = ri_cache_key i'"
  by (simp add: keyed_key cache_key_for_def same_client_def)

text \<open>The upstream gives nothing that could be passed on.\<close>

definition outage :: "('a, 'p, 'm) libs \<Rightarrow> 'p proxy \<Rightarrow> turn \<Rightarrow> request_info \<Rightarrow> bool" where
  "outage l p q i \<longleftrightarrow>
    (case round_trip l p q (Some i) of Inl err \<Rightarrow> err \<noteq> Canceled | Inr resp \<Rightarrow> 500 \<le> resp_status resp)"

text \<open>What a client may get for a body in the cache: the body itself, or the body shuffled.\<close>

definition replays_of :: "('a, 'p, 'm) libs \<Rightarrow> 'p proxy \<Rightarrow> string \<Rightarrow> string set" where
  "replays_of l p b = {b, fst (shuffled l p b)}"

lemma shuffle_text:
  "text_of (shuffle l p env i resp) \<in> replays_of l p (text_of resp)"
  by (rule shuffle_cases [of resp l p env i]) (simp add: replays_of_def)

lemma write_from_cache_replays:
  assumes "cached env i c = (Some e, c')"
  shows "\<exists>w. write_from_cache l p env i c new_writer = (Some w, c') \<and> w_status w = [ent_status e]
    \<and> w_body w \<in> replays_of l p (ent_body e)"
  using assms by (simp add: write_from_cache_def Let_def replays_of_def)

lemma outage_served:
  assumes key: "keyed_info l p (Some sc) q = Some i" and "outage l p q i"
    and e: "fst (sub_get sc (env_now (tn_env q)) (ri_cache_key i)) = Some e"
  shows "\<exists>w. answered (serve_turn l p (Some sc) q) = Written w \<and> w_status w = [ent_status e]
    \<and> w_body w \<in> replays_of l (at_turn p q) (ent_body e)"
proof -
  note i = keyed_infoD [OF key]
  obtain c' where c: "cached (tn_env q) i (Some sc) = (Some e, c')"
    using e i(2) by (simp add: cached_touch)
  show ?thesis
  proof (cases "round_trip l p q (Some i)")
    case (Inl err)
    with assms(2) have "err \<noteq> Canceled" by (simp add: outage_def)
    with Inl write_from_cache_replays [OF c, of l "at_turn p q"] show ?thesis
      by (auto simp: serve_keyed [OF key] reverse_proxy_def round_trip_def Let_def split_beta handle_error_def
          split: if_splits)
  next
    case (Inr resp)
    with assms(2) have failed: "500 \<le> resp_status resp" by (simp add: outage_def)
    define resp1 where "resp1 = set_body (ent_body e)
      ((received resp)\<lparr>resp_status := ent_status e, resp_header := ent_header e\<rparr>)"
    have "modify_response l (at_turn p q) (tn_env q) (Some i) (Some sc) (received resp)
        = ([], shuffle l (at_turn p q) (tn_env q) i resp1, c')"
      using c failed by (simp add: modify_response_def replace_with_cache_def resp1_def)
    moreover have "text_of (shuffle l (at_turn p q) (tn_env q) i resp1) \<in> replays_of l (at_turn p q) (ent_body e)"
      using shuffle_text [of l "at_turn p q" "tn_env q" i resp1] by (simp add: resp1_def)
    moreover have "resp_status (shuffle l (at_turn p q) (tn_env q) i resp1) = ent_status e"
      by (simp add: shuffle_status resp1_def)
    ultimately show ?thesis
      using Inr failed
      by (auto simp: serve_keyed [OF key] reverse_proxy_def round_trip_def Let_def deliver_parts split: if_splits)
  qed
qed

lemma store_status: "resp_status (fst (store env i c resp)) = resp_status resp"
  using drain_body_header [of "env_grow env" resp]
  by (auto simp: store_def split: option.split prod.split) (metis snd_conv)+

lemma shaped_status:
  assumes "ri_notice i = None" "resp_status resp < 500"
  shows "resp_status (shaped l p sc q i resp) = resp_status resp"
  using modify_kept [OF replace_below_500, of "received resp" l "at_turn p q" "tn_env q" i "Some sc"] assms
  by (simp add: shaped_def store_status shuffle_status Let_def)

text \<open>A turn that stores something delivers just that.\<close>

lemma store_delivers:
  assumes "cache_event_of l p sc q = Some (ord, t, k, Some v)"
  shows "\<exists>i w. keyed_info l p (Some sc) q = Some i \<and> ri_cache_key i = k
    \<and> answered (serve_turn l p (Some sc) q) = Written w \<and> w_status w = [fst v] \<and> w_body w = snd (snd v)"
proof -
  obtain i resp where i: "keyed_info l p (Some sc) q = Some i" "ri_cache_key i = k"
    and resp: "round_trip l p q (Some i) = Inr resp" "resp_status resp < 500"
    and v: "v = (resp_status (shaped l p sc q i resp), resp_header (shaped l p sc q i resp),
      text_of (shaped l p sc q i resp))" and rw: "rewritable (shaped l p sc q i resp)"
    using assms by (auto simp: cache_event_of_def Let_def split: option.splits sum.splits if_splits)
  have "resp_status resp = 200"
    using rw shaped_status [OF keyed_infoD(4) [OF i(1)] resp(2), of l p sc q] by (simp add: rewritable_def)
  with resp(1) have "answered (serve_turn l p (Some sc) q)
      = Written (deliver (tn_env q) (shaped l p sc q i resp) new_writer)"
    by (simp add: serve_keyed [OF i(1)] reverse_proxy_def round_trip_def Let_def split_beta shaped_def
        split: if_splits)
  with i v show ?thesis by (simp add: deliver_parts)
qed

text \<open>C1: While the page is down a client is given nobody's subscription but its own: an answer from
  the cache has the status and the body, or a shuffle of the body, that was delivered to an earlier
  request for the same short UUID and client type with the same user agent and encodings, whatever
  requests came before, in between and from others.\<close>

theorem outage_answer_is_own:
  assumes "0 \<le> mbody" and "clean (tn_request q)" and "\<forall>q' \<in> set qs. clean (tn_request q')"
    and "cache_run l p (Some (new_sub_cache ttl mb mbody)) qs = Some sc"
    and "keyed_info l p (Some sc) q = Some i" and "outage l p q i"
    and "fst (sub_get sc (env_now (tn_env q)) (ri_cache_key i)) \<noteq> None"
  shows "\<exists>xs q' ys w w'. qs = xs @ q' # ys \<and> same_client p (tn_request q') (tn_request q)
    \<and> answered (serve_turn l p (cache_run l p (Some (new_sub_cache ttl mb mbody)) xs) q') = Written w'
    \<and> answered (serve_turn l p (Some sc) q) = Written w
    \<and> w_status w = w_status w' \<and> w_body w \<in> replays_of l (at_turn p q) (w_body w')"
proof -
  let ?new = "new_sub_cache ttl mb mbody"
  have new: "0 \<le> max_body ?new" using assms(1) by (simp add: new_sub_cache_def)
  note run = cache_run_history [OF new, of l p]
  obtain e where e: "fst (sub_get sc (env_now (tn_env q)) (ri_cache_key i)) = Some e" using assms(7) by blast
  then have "sub_look (run_events (history l p ?new qs) ?new) (env_now (tn_env q)) (ri_cache_key i) = Some (payload e)"
    using assms(4) run [of qs] by (simp add: sub_look_def)
  then obtain t where "last_kept (\<lambda>p. int (length (snd (snd p))) \<le> mbody) (history l p ?new qs) (ri_cache_key i)
      = Some (t, payload e)" using sub.look_history by blast
  from history_store [OF new this] obtain xs q' ys ord where
    qs: "qs = xs @ q' # ys" and ev: "cache_event_of l p (run_events (history l p ?new xs) ?new) q'
      = Some (ord, t, ri_cache_key i, Some (payload e))" by blast
  from store_delivers [OF ev] obtain i' w' where
    i': "keyed_info l p (cache_run l p (Some ?new) xs) q' = Some i'" "ri_cache_key i' = ri_cache_key i"
    and w': "answered (serve_turn l p (cache_run l p (Some ?new) xs) q') = Written w'"
      "w_status w' = [ent_status e]" "w_body w' = ent_body e"
    by (auto simp: run payload_def)
  have "same_client p (tn_request q') (tn_request q)"
    using same_key_same_client [OF i'(1) assms(5)] i'(2) assms(2,3) qs by simp
  with qs w' outage_served [OF assms(5,6) e] show ?thesis by metis
qed

text \<open>What is in the cache was stored by an event of its history, at that time and under that key.\<close>

lemma event_found:
  assumes "map_of (sub_entries (run_event sub_touch sub_store ev c)) k = Some x"
  shows "map_of (sub_entries c) k = Some x \<or> fst (snd (snd ev)) = k \<and> fst (snd ev) = stored_at x"
proof -
  obtain ord t k' v where ev: "ev = (ord, t, k', v)" by (cases ev)
  show ?thesis
  proof (cases v)
    case None
    with assms ev show ?thesis
      by (auto simp: sub_touch_def sub_get_def remove_entries split: option.splits if_splits)
  next
    case (Some v')
    with assms ev show ?thesis
      by (auto simp: sub_store_def sub_put_inserted inserted_lookup dest!: evict_keeps split: if_splits)
  qed
qed

lemma history_entries:
  "map_of (sub_entries (run_events evs (new_sub_cache ttl mb mbody))) k = Some x \<Longrightarrow>
    \<exists>ev \<in> set evs. fst (snd (snd ev)) = k \<and> fst (snd ev) = stored_at x"
  by (induction evs rule: rev_induct) (auto simp: new_sub_cache_def dest!: event_found)

lemma history_entries_older:
  assumes "0 \<le> mbody" "cache_run l p (Some (new_sub_cache ttl mb mbody)) qs = Some sc"
    and "\<forall>x \<in> set qs. env_now (tn_env x) < t"
  shows "sub_ok sc" "[] \<notin> fst ` set (sub_entries sc)" "\<forall>(_, e) \<in> set (sub_entries sc). stored_at e < t"
    "max_body sc = mbody" "max_bytes sc = mb" "sub_ttl sc = ttl"
proof -
  let ?new = "new_sub_cache ttl mb mbody"
  define evs where "evs = history l p ?new qs"
  have sc: "sc = run_events evs ?new"
    using assms(1,2) cache_run_history [of ?new l p qs] by (simp add: new_sub_cache_def evs_def)
  then show "max_body sc = mbody" "max_bytes sc = mb" "sub_ttl sc = ttl" by (simp_all add: new_sub_cache_def)
  have "sub_ok (run_events es ?new)" for es by (induction es rule: rev_induct) (simp_all add: new_cache_ok event_ok)
  with sc show ok: "sub_ok sc" by simp
  have "k \<noteq> [] \<and> stored_at e < t" if "(k, e) \<in> set (sub_entries sc)" for k e
  proof -
    from that ok have "map_of (sub_entries sc) k = Some e" by (simp add: sub_ok_def gomap_ok_map_of)
    with history_entries sc obtain ev where "ev \<in> set evs" "fst (snd (snd ev)) = k" "fst (snd ev) = stored_at e"
      by blast
    with history_turns [of ev l p ?new qs] assms(3) show ?thesis by (auto simp: evs_def)
  qed
  note entries = this
  show "[] \<notin> fst ` set (sub_entries sc)" "\<forall>(_, e) \<in> set (sub_entries sc). stored_at e < t"
    by (auto dest: entries)
qed

text \<open>The condition under which \<open>store\<close> keeps what is delivered.\<close>

definition storable :: "('a, 'p, 'm) libs \<Rightarrow> 'p proxy \<Rightarrow> sub_cache \<Rightarrow> turn \<Rightarrow> request_info \<Rightarrow> response \<Rightarrow> bool" where
  "storable l p sc q i out \<longleftrightarrow>
    (\<exists>resp. round_trip l p q (Some i) = Inr resp \<and> resp_status resp < 500 \<and> out = shaped l p sc q i resp)
    \<and> rewritable out \<and> complete out \<and> int (length (text_of out)) \<le> max_body sc"

text \<open>C2: What a client was served it can be served again.  Take any history in which a turn \<open>q\<close> delivers to
  a client a complete subscription that the cache accepts, the clock having moved on since the turns
  before it; then an outage is answered with the status and the body that \<open>q\<close> delivered, or a
  shuffle of that body, as long as the time to live has not passed, nothing else has been stored
  for the same client in between (a later answer to it replaces the entry), and this answer and
  all that was stored since fit the budget of the cache together.\<close>

theorem served_survives_outage:
  assumes "0 \<le> ttl" "0 \<le> mbody"
    and "cache_run l p (Some (new_sub_cache ttl mb mbody)) xs = Some sc"
    and "cache_run l p (Some (new_sub_cache ttl mb mbody)) (xs @ [q]) = Some sc1"
    and "keyed_info l p (Some sc) q = Some i" "storable l p sc q i out"
    and "\<forall>x \<in> set (xs @ q # ys). is_order (env_entry_order (tn_env x))"
    and "\<forall>x \<in> set xs. env_now (tn_env x) < env_now (tn_env q)"
    and "\<forall>x \<in> set (ys @ [q']). env_now (tn_env x) - env_now (tn_env q) \<le> ttl"
    and "ri_cache_key i \<notin> set (stored_keys (history l p sc1 ys))"
    and "mb \<le> 0 \<or> parts_size (resp_status out, resp_header out, text_of out)
      + bytes_stored (history l p sc1 ys) \<le> mb"
    and "keyed_info l p (Some sc) q' = Some i'" "same_client p (tn_request q) (tn_request q')"
    and "outage l p q' i'"
  shows "\<exists>w w'. answered (serve_turn l p (Some sc) q) = Written w
    \<and> answered (serve_turn l p (cache_run l p (Some (new_sub_cache ttl mb mbody)) (xs @ q # ys)) q') = Written w'
    \<and> w_status w' = w_status w \<and> w_body w' \<in> replays_of l (at_turn p q') (w_body w)"
proof -
  let ?k = "ri_cache_key i" and ?t = "env_now (tn_env q)" and ?ord = "env_entry_order (tn_env q)"
  let ?v = "(resp_status out, resp_header out, text_of out)"
  let ?e = "\<lparr>ent_status = resp_status out, ent_header = resp_header out, ent_body = text_of out, stored_at = 0\<rparr>"
  note sc = history_entries_older [OF assms(2,3,8)]
  have ev: "cache_event_of l p sc q = Some (?ord, ?t, ?k, Some ?v)"
    using assms(5,6) by (auto simp: cache_event_of_def storable_def Let_def)
  have "serve_turn l p (Some sc) q = serve_turn l p (cache_run l p (Some (new_sub_cache ttl mb mbody)) xs) q"
    by (simp add: assms(3))
  then have sc1: "sc1 = sub_put ?ord sc ?t ?k ?e"
    using assms(2,4) sc(4) by (simp add: cache_run_append assms(3) turn_event ev sub_store_def)
  define evs where "evs = history l p sc1 ys"
  have "lasts sc1 ?k (?e\<lparr>stored_at := ?t\<rparr>) (bytes_stored evs)"
    unfolding sc1 using assms(1,6,7,11) sc keyed_infoD(2) [OF assms(5)]
    by (intro lasts_put) (simp_all add: storable_def parts_size_def evs_def sc1)
  moreover have "is_order (fst e) \<and> fst (snd (snd e)) \<noteq> [] \<and> fst (snd e) - ?t \<le> ttl" if "e \<in> set evs" for e
    using history_turns [of e l p sc1 ys] that assms(7,9) by (auto simp: evs_def)
  moreover have cfg: "sub_ttl sc1 = ttl" "max_body sc1 = mbody" using sc by (simp_all add: sc1)
  ultimately have "lasts (run_events evs sc1) ?k (?e\<lparr>stored_at := ?t\<rparr>) 0"
    using assms(1,10) by (intro lasts_events) (simp_all add: evs_def)
  moreover define sc' where "sc' = run_events evs sc1"
  ultimately have found: "fst (sub_get sc' (env_now (tn_env q')) ?k) = Some (?e\<lparr>stored_at := ?t\<rparr>)"
    using assms(1,9) cfg by (intro lasts_found) (simp_all add: in_time)
  have run: "cache_run l p (Some (new_sub_cache ttl mb mbody)) (xs @ q # ys) = Some sc'"
    using cache_run_append [of l p _ "xs @ [q]" ys] assms(2,4) cfg(2)
    by (simp add: cache_run_history evs_def sc'_def)
  have i': "keyed_info l p (Some sc') q' = Some i'" "ri_cache_key i' = ?k"
    using assms(12) keyed_info_any same_client_key [OF assms(5,12,13)] by (metis, simp)
  with outage_served [OF i'(1) assms(14)] found obtain w' where
    "answered (serve_turn l p (Some sc') q') = Written w'" "w_status w' = [resp_status out]"
    "w_body w' \<in> replays_of l (at_turn p q') (text_of out)" by auto
  moreover from store_delivers [OF ev] obtain w where "answered (serve_turn l p (Some sc) q) = Written w"
    "w_status w = [resp_status out]" "w_body w = text_of out" by auto
  ultimately show ?thesis by (auto simp: run)
qed

section \<open>Instances\<close>

definition fetch_at :: "time \<Rightarrow> (net_error + response) \<Rightarrow> turn" where
  "fetch_at t answer =
    \<lparr>tn_env = sample_env\<lparr>env_now := t\<rparr>, tn_draw = (\<lambda>_ _. nat t),
     tn_panel = (\<lambda>_ _. Inl Not_Found), tn_hijack = True, tn_upstream = (\<lambda>_. answer),
     tn_request = sample_get ''Happ''\<rparr>"

definition good_turn :: turn where
  "good_turn = fetch_at 5 (Inr (sample_response 200 ''hosts''))"

definition down_turn :: turn where
  "down_turn = fetch_at 60 (Inl Round_Trip_Failed)"

definition empty_cache :: sub_cache where
  "empty_cache = new_sub_cache 100 500 100"

lemma sample_keyed:
  "keyed_info sample_libs sample_proxy (Some sc) (fetch_at t a)
    = keyed_info sample_libs sample_proxy (Some empty_cache) good_turn"
proof -
  have "tn_request (fetch_at t a) = tn_request good_turn" by (simp add: fetch_at_def good_turn_def)
  then have "keyed_info sample_libs sample_proxy (Some sc) (fetch_at t a)
      = keyed_info sample_libs sample_proxy (Some sc) good_turn" unfolding keyed_info_def by (rule ssubst) simp
  then show ?thesis using keyed_info_any by metis
qed

abbreviation sample_run :: "turn list \<Rightarrow> sub_cache option" where
  "sample_run \<equiv> cache_run sample_libs sample_proxy (Some empty_cache)"

abbreviation sample_serve :: "sub_cache option \<Rightarrow> turn \<Rightarrow> answer" where
  "sample_serve c q \<equiv> answered (serve_turn sample_libs sample_proxy c q)"

definition sample_keyed_info :: request_info where
  "sample_keyed_info = the (keyed_info sample_libs sample_proxy (Some empty_cache) good_turn)"

lemma sample_info_of: "keyed_info sample_libs sample_proxy (Some sc) (fetch_at t a) = Some sample_keyed_info"
proof -
  have "\<not> Option.is_none (keyed_info sample_libs sample_proxy (Some empty_cache) good_turn)" by code_simp
  then show ?thesis unfolding sample_keyed sample_keyed_info_def by (simp add: Option.is_none_def)
qed

lemma sample_outage: "outage sample_libs sample_proxy down_turn i"
  by (simp add: outage_def round_trip_def down_turn_def fetch_at_def)

lemma sample_clean: "clean (tn_request (fetch_at t a))"
proof -
  have "clean (sample_get ''Happ'')" by code_simp
  then show ?thesis by (simp add: fetch_at_def)
qed

theorem history_in_budget_witness:
  "\<exists>sc. sample_run [good_turn, down_turn] = Some sc \<and> sub_bytes sc \<le> 500"
  using history_in_budget [of 100 "[good_turn, down_turn]" sample_libs sample_proxy 100 500]
  by (auto simp: empty_cache_def good_turn_def down_turn_def fetch_at_def sample_env_def)

theorem outage_answer_is_own_witness:
  "\<exists>w w'. sample_serve (Some empty_cache) good_turn = Written w' \<and> sample_serve (sample_run [good_turn]) down_turn = Written w
    \<and> w_body w \<in> replays_of sample_libs (at_turn sample_proxy down_turn) (w_body w')"
proof -
  let ?sc = "the (sample_run [good_turn])"
  have "\<not> Option.is_none (sample_run [good_turn])"
    "\<not> Option.is_none (fst (sub_get ?sc 60 (ri_cache_key sample_keyed_info)))" by code_simp+
  then have run: "sample_run [good_turn] = Some ?sc"
    and found: "fst (sub_get ?sc (env_now (tn_env down_turn)) (ri_cache_key sample_keyed_info)) \<noteq> None"
    by (simp_all add: Option.is_none_def down_turn_def fetch_at_def)
  have turns: "clean (tn_request down_turn)" "\<forall>q' \<in> set [good_turn]. clean (tn_request q')"
    "keyed_info sample_libs sample_proxy (Some ?sc) down_turn = Some sample_keyed_info"
    by (simp_all add: down_turn_def good_turn_def sample_clean sample_info_of)
  have "\<exists>xs q' ys w w'. [good_turn] = xs @ q' # ys \<and> same_client sample_proxy (tn_request q') (tn_request down_turn)
      \<and> answered (serve_turn sample_libs sample_proxy (cache_run sample_libs sample_proxy (Some (new_sub_cache 100 500 100)) xs) q') = Written w'
      \<and> answered (serve_turn sample_libs sample_proxy (Some ?sc) down_turn) = Written w
      \<and> w_status w = w_status w' \<and> w_body w \<in> replays_of sample_libs (at_turn sample_proxy down_turn) (w_body w')"
    by (rule outage_answer_is_own [OF _ turns(1,2) _ turns(3) sample_outage found])
      (use run in \<open>simp_all add: empty_cache_def\<close>)
  then show ?thesis using run by (auto simp: Cons_eq_append_conv empty_cache_def)
qed

text \<open>Another client is served between the delivery and the outage, and takes part of the budget.\<close>

definition other_turn :: turn where
  "other_turn = (fetch_at 20 (Inr (sample_response 200 ''servers'')))\<lparr>tn_request := sample_get ''Clash''\<rparr>"

theorem served_survives_outage_witness:
  "\<exists>w w'. sample_serve (Some empty_cache) good_turn = Written w
    \<and> sample_serve (sample_run [good_turn, other_turn]) down_turn = Written w'
    \<and> w_status w' = w_status w \<and> w_body w' \<in> replays_of sample_libs (at_turn sample_proxy down_turn) (w_body w)"
proof -
  let ?sc1 = "the (sample_run [good_turn])"
  let ?out = "shaped sample_libs sample_proxy empty_cache good_turn sample_keyed_info (sample_response 200 ''hosts'')"
  let ?between = "history sample_libs sample_proxy ?sc1 [other_turn]"
  have "\<not> Option.is_none (sample_run [good_turn])" by code_simp
  then have runs: "sample_run [] = Some empty_cache" "sample_run ([] @ [good_turn]) = Some ?sc1"
    by (simp_all add: Option.is_none_def)
  have between: "ri_cache_key sample_keyed_info \<notin> set (stored_keys ?between)"
    "parts_size (resp_status ?out, resp_header ?out, text_of ?out) + bytes_stored ?between \<le> 500"
    by code_simp+
  have "Option.is_none (case resp_body ?out of No_Body \<Rightarrow> Some () | _ \<Rightarrow> None)" "\<not> snd (unread (resp_body ?out))"
    by code_simp+
  then have "complete ?out" by (auto simp: complete_def)
  moreover have "rewritable ?out" "int (length (text_of ?out)) \<le> max_body empty_cache"
    "forwards (tn_request good_turn)" by code_simp+
  ultimately have storable: "storable sample_libs sample_proxy empty_cache good_turn sample_keyed_info ?out"
    by (auto simp: storable_def round_trip_def good_turn_def fetch_at_def sample_response_def)
  have keyed: "keyed_info sample_libs sample_proxy (Some empty_cache) good_turn = Some sample_keyed_info"
    "keyed_info sample_libs sample_proxy (Some empty_cache) down_turn = Some sample_keyed_info"
    by (simp_all add: good_turn_def down_turn_def sample_info_of)
  have "same_client sample_proxy (tn_request good_turn) (tn_request down_turn)"
    by (simp add: same_client_def good_turn_def down_turn_def fetch_at_def)
  with served_survives_outage [of 100 100 sample_libs sample_proxy 500 "[]" empty_cache good_turn ?sc1
      sample_keyed_info ?out "[other_turn]" down_turn, folded empty_cache_def, OF _ _ runs keyed(1) storable _ _ _
      between(1) _ keyed(2) _ sample_outage] between(2)
  show ?thesis
    by (simp add: good_turn_def other_turn_def down_turn_def fetch_at_def sample_env_def)
qed

text \<open>
  The key of the cache does not tell the methods apart: after a \<open>HEAD\<close> request, whose answer has no
  body, an outage is answered with an empty subscription.
\<close>

definition head_turn :: turn where
  "head_turn = (fetch_at 30 (Inr (sample_response 200 '''')))
    \<lparr>tn_request := (sample_get ''Happ'')\<lparr>in_method := ''HEAD''\<rparr>\<rparr>"

definition body_of_answer :: "answer \<Rightarrow> string option" where
  "body_of_answer a = (case a of Written w \<Rightarrow> Some (w_body w) | _ \<Rightarrow> None)"

lemma head_empties_entry:
  "body_of_answer (sample_serve (sample_run [good_turn]) down_turn) = Some ''hosts''"
  "body_of_answer (sample_serve (sample_run [good_turn, head_turn]) down_turn) = Some ''''"
  by code_simp+

end
