(* ===== verification/Request_Log.thy ===== *)
theory Request_Log
  imports Proxy Logging
begin

text \<open>
  The log of one request: the calls of \<open>p.log\<close> and \<open>e.log\<close> in \<open>internal/proxy\<close> and \<open>internal/rewrite\<close>,
  each where its function makes it.  The functions follow those of \<open>Engine\<close> and \<open>Proxy\<close> branch by
  branch and give the records in the order in which they are handed to the logger, whatever its
  level; what \<open>ReverseProxy\<close> itself reports to its \<open>ErrorLog\<close> is left out.
\<close>

type_synonym request_error = "panel_error + net_error"

type_synonym request_log = "request_error log_entry list"

section \<open>The engine\<close>

abbreviation short_uuid_attr :: "request \<Rightarrow> string \<times> request_error log_value" where
  "short_uuid_attr rq \<equiv> (''short_uuid'', Log_Text (rq_short_uuid rq))"

abbreviation client_type_attr :: "request \<Rightarrow> string \<times> request_error log_value" where
  "client_type_attr rq \<equiv> (''client_type'', Log_Text (rq_client_type rq))"

definition fetch_log :: "engine \<Rightarrow> request \<Rightarrow> bool \<Rightarrow> request_log" where
  "fetch_log e rq needed =
    (case eng_fetcher e of
       None \<Rightarrow> []
     | Some fetch \<Rightarrow>
         if rq_short_uuid rq = [] \<or> \<not> (needed \<or> eng_always_fetch e) then []
         else
           (case fetch (rq_short_uuid rq) (if eng_forward_real_ip e then rq_client_ip rq else []) of
              Inr _ \<Rightarrow> []
            | Inl err \<Rightarrow>
                if err = Not_Found
                then [logged Level_Debug ''panel has no such subscription'' [short_uuid_attr rq]]
                else [logged Level_Warn ''subscription info lookup failed''
                        [short_uuid_attr rq, (''error'', Log_Error (Inl err))]]))"

text \<open>The last loop of \<open>Apply\<close>: a record for every header that is rewritten, none for one that is removed.\<close>

fun rewrite_log :: "request \<Rightarrow> source \<Rightarrow> string set \<Rightarrow> candidate list \<Rightarrow> request_log" where
  "rewrite_log rq src W [] = []"
| "rewrite_log rq src W (c # cs) =
    (let key = canonical_header_key (cand_name c) in
     if key \<in> W \<or> \<not> candidate_matches src c then rewrite_log rq src W cs
     else
       (if cand_remove c then []
        else [logged Level_Debug ''rewrote subscription header''
                [(''header'', Log_Text (cand_name c)), short_uuid_attr rq, client_type_attr rq]])
       @ rewrite_log rq src (insert key W) cs)"

definition apply_log ::
    "(string, string list) iter_order \<Rightarrow> engine \<Rightarrow> header \<Rightarrow> request \<Rightarrow> request_log" where
  "apply_log ord e h rq =
    (let ui = user_info_from h in
     if rq_short_uuid rq = [] \<and> ui = None then []
     else
       (let cs = collect ord e (hide_quota e h) rq in
        if cs = [] then []
        else
          (let needed = apply_needs_panel e ui cs
           in fetch_log e rq needed
              @ rewrite_log rq (source_for rq ui (snd (fetch_info e rq needed))) {} cs)))"

definition render_log :: "engine \<Rightarrow> header \<Rightarrow> request \<Rightarrow> string \<Rightarrow> request_log" where
  "render_log e h rq template =
    fetch_log e rq (needs_panel (eng_resolver e) (names template) (user_info_from h \<noteq> None))"

section \<open>The proxy\<close>

definition notice_log :: "'p proxy \<Rightarrow> header \<Rightarrow> request \<Rightarrow> user_agent_rule \<Rightarrow> request_log" where
  "notice_log p h rq rule =
    (case px_engine p of Some e \<Rightarrow> render_log e h rq (agent_message rule) | None \<Rightarrow> [])"

definition shuffle_log ::
    "('a, 'p, 'm) libs \<Rightarrow> 'p proxy \<Rightarrow> env \<Rightarrow> request_info \<Rightarrow> response \<Rightarrow> request_log" where
  "shuffle_log l p env info resp =
    (if \<not> shuffles p info \<or> \<not> rewritable resp then []
     else if is_compressed (resp_header resp)
     then [logged Level_Debug ''subscription arrived compressed, hosts left in place''
             [short_uuid_attr (ri_request info)]]
     else
       (case drain_body (env_grow env) resp max_shuffle_body of
          (None, _) \<Rightarrow> []
        | (Some buf, _) \<Rightarrow>
            if snd (shuffled l p buf)
            then [logged Level_Debug ''shuffled subscription hosts''
                    [short_uuid_attr (ri_request info), client_type_attr (ri_request info)]]
            else []))"

definition modify_log ::
    "('a, 'p, 'm) libs \<Rightarrow> 'p proxy \<Rightarrow> env \<Rightarrow> request_info option \<Rightarrow> sub_cache option \<Rightarrow> response
      \<Rightarrow> request_log" where
  "modify_log l p env info c resp =
    (case info of
       None \<Rightarrow> []
     | Some i \<Rightarrow>
         (case fst (replace_with_cache env i c resp) of
            Some resp' \<Rightarrow>
              logged Level_Warn ''upstream returned an error, served subscription from cache''
                [short_uuid_attr (ri_request i), (''upstream_status'', Log_Number (int (resp_status resp)))]
              # shuffle_log l p env i resp'
          | None \<Rightarrow>
              (case ri_notice i of
                 Some n \<Rightarrow> notice_log p (resp_header resp) (ri_request i) (ca_rule n)
               | None \<Rightarrow> [])
              @ (case px_engine p of
                   Some e \<Rightarrow>
                     if px_rewrites p then apply_log (env_header_order env) e (resp_header resp) (ri_request i)
                     else []
                 | None \<Rightarrow> [])
              @ (case ri_notice i of
                   Some n \<Rightarrow> []
                 | None \<Rightarrow>
                     shuffle_log l p env i
                       (resp\<lparr>resp_header := headers_out p env (resp_header resp) (ri_request i)\<rparr>))))"

text \<open>\<open>path\<close> is the path of the request the handler is given: the outgoing one after a round trip.\<close>

definition error_log ::
    "env \<Rightarrow> request_info option \<Rightarrow> sub_cache option \<Rightarrow> net_error \<Rightarrow> string \<Rightarrow> request_log" where
  "error_log env info c err path =
    (if err = Canceled then []
     else
       (case (case info of Some i \<Rightarrow> map_option (\<lambda>_. i) (fst (cached env i c)) | None \<Rightarrow> None) of
          Some i \<Rightarrow>
            [logged Level_Warn ''upstream unreachable, served subscription from cache''
               [short_uuid_attr (ri_request i), (''error'', Log_Error (Inr err))]]
        | None \<Rightarrow>
            [logged (if err = Closed_Early then Level_Debug else Level_Warn) ''upstream request failed''
               [(''path'', Log_Text path), (''error'', Log_Error (Inr err))]]))"

definition reverse_proxy_log ::
    "('a, 'p, 'm) libs \<Rightarrow> 'p proxy \<Rightarrow> env \<Rightarrow> upstream \<Rightarrow> http_request \<Rightarrow> request_info option
      \<Rightarrow> sub_cache option \<Rightarrow> request_log" where
  "reverse_proxy_log l p env up r info c =
    (if \<not> printable (upgrade_type (in_header r)) then error_log env info c Bad_Protocol (in_path r)
     else
       (let out = rewrite_out l p r info in
        case up out of
          Inl err \<Rightarrow> error_log env info c err (url_path (out_url out))
        | Inr resp \<Rightarrow> modify_log l p env info c (received resp)))"

definition serve_log ::
    "('a, 'p, 'm) libs \<Rightarrow> 'p proxy \<Rightarrow> env \<Rightarrow> upstream \<Rightarrow> sub_cache option \<Rightarrow> http_request \<Rightarrow> request_log" where
  "serve_log l p env up c r =
    (if blocked (opt_blocker (px_options p)) (in_path r)
     then [logged Level_Debug ''refused a probe without forwarding it'' [(''path'', Log_Text (in_path r))]]
     else if \<not> px_observes p then reverse_proxy_log l p env up r None c
     else
       (let rt = parse_route (in_path r) (opt_sub_prefix (px_options p));
            short = (''short_uuid'', Log_Text (route_short_uuid rt))
        in case notice_for p r of
             Some n \<Rightarrow>
               (let rule = (''rule'', Log_Text (agent_name (ca_rule n))) in
                if agent_action (ca_rule n) = Some Agent_Block
                then logged Level_Debug ''answered a broken user agent without forwarding it'' [rule, short]
                  # notice_log p [] (template_request l p r rt True) (ca_rule n)
                else logged Level_Debug ''serving a notice for a broken user agent'' [rule, short]
                  # reverse_proxy_log l p env up r (request_info_for l p c r) c)
           | None \<Rightarrow> reverse_proxy_log l p env up r (request_info_for l p c r) c))"

section \<open>Where what is logged comes from\<close>

text \<open>All that the records about one request may hold.\<close>

inductive_set log_sources ::
    "('a, 'p, 'm) libs \<Rightarrow> 'p proxy \<Rightarrow> upstream \<Rightarrow> http_request \<Rightarrow> (string \<times> request_error log_value) set"
  for l p up r where
  path: "(''path'', Log_Text (in_path r)) \<in> log_sources l p up r"
| joined: "(''path'', Log_Text (join_path (url_path (opt_upstream (px_options p))) (in_path r)))
    \<in> log_sources l p up r"
| short: "(''short_uuid'', Log_Text (route_short_uuid (parse_route (in_path r) (opt_sub_prefix (px_options p)))))
    \<in> log_sources l p up r"
| client: "(''client_type'', Log_Text (route_client_type (parse_route (in_path r) (opt_sub_prefix (px_options p)))))
    \<in> log_sources l p up r"
| rule: "notice_for p r = Some n \<Longrightarrow> (''rule'', Log_Text (agent_name (ca_rule n))) \<in> log_sources l p up r"
| header_rule: "px_engine p = Some e \<Longrightarrow> rl \<in> set (eng_rules e)
    \<Longrightarrow> (''header'', Log_Text (rule_name rl)) \<in> log_sources l p up r"
| header_sent: "up (rewrite_out l p r info) = Inr resp \<Longrightarrow> (k, vs) \<in> set (resp_header resp)
    \<Longrightarrow> (''header'', Log_Text k) \<in> log_sources l p up r"
| upstream_status: "up (rewrite_out l p r info) = Inr resp
    \<Longrightarrow> (''upstream_status'', Log_Number (int (resp_status resp))) \<in> log_sources l p up r"
| net_error: "up (rewrite_out l p r info) = Inl err \<Longrightarrow> (''error'', Log_Error (Inr err)) \<in> log_sources l p up r"
| bad_protocol: "(''error'', Log_Error (Inr Bad_Protocol)) \<in> log_sources l p up r"
| panel_error: "px_engine p = Some e \<Longrightarrow> eng_fetcher e = Some f \<Longrightarrow> ip \<in> {[], resolved l p r}
    \<Longrightarrow> f (route_short_uuid (parse_route (in_path r) (opt_sub_prefix (px_options p)))) ip = Inl err
    \<Longrightarrow> (''error'', Log_Error (Inl err)) \<in> log_sources l p up r"

text \<open>The information made of a request, as far as it can come into the log.\<close>

definition info_of :: "('a, 'p, 'm) libs \<Rightarrow> 'p proxy \<Rightarrow> http_request \<Rightarrow> request \<Rightarrow> bool" where
  "info_of l p r rq \<longleftrightarrow>
    rq_short_uuid rq = route_short_uuid (parse_route (in_path r) (opt_sub_prefix (px_options p)))
    \<and> rq_client_type rq = route_client_type (parse_route (in_path r) (opt_sub_prefix (px_options p)))
    \<and> rq_client_ip rq \<in> {[], resolved l p r}"

lemma template_info_of:
  "info_of l p r (template_request l p r (parse_route (in_path r) (opt_sub_prefix (px_options p))) full)"
  by (simp add: info_of_def template_request_def)

lemma request_info_of: "request_info_for l p c r = Some i \<Longrightarrow> info_of l p r (ri_request i)"
  by (auto simp: request_info_for_def Let_def template_info_of split: if_splits)

lemma request_attrs:
  assumes "info_of l p r rq"
  shows "short_uuid_attr rq \<in> log_sources l p up r" "client_type_attr rq \<in> log_sources l p up r"
  using assms log_sources.short [of r p l up] log_sources.client [of r p l up] by (simp_all add: info_of_def)

lemma fetch_log_from:
  assumes "info_of l p r rq" "px_engine p = Some e"
  shows "attrs_of (fetch_log e rq needed) \<subseteq> log_sources l p up r"
proof (cases "eng_fetcher e")
  case None
  then show ?thesis by (simp add: fetch_log_def)
next
  case (Some f)
  let ?ip = "if eng_forward_real_ip e then rq_client_ip rq else []"
  have "(''error'', Log_Error (Inl err)) \<in> log_sources l p up r" if "f (rq_short_uuid rq) ?ip = Inl err" for err
    using assms that by (intro log_sources.panel_error [OF assms(2) Some, of ?ip]) (auto simp: info_of_def)
  with Some request_attrs [OF assms(1)] show ?thesis by (auto simp: fetch_log_def split: sum.split)
qed

lemma rewrite_log_from:
  assumes "info_of l p r rq" "\<And>c. c \<in> set cs \<Longrightarrow> (''header'', Log_Text (cand_name c)) \<in> log_sources l p up r"
  shows "attrs_of (rewrite_log rq src W cs) \<subseteq> log_sources l p up r"
  using assms(2) request_attrs [OF assms(1)] by (induction cs arbitrary: W) (simp_all add: Let_def)

lemma hide_quota_keys: "fst ` set (hide_quota e h) = fst ` set h"
proof (cases "user_info_from h")
  case None
  then show ?thesis by (simp add: hide_quota_def)
next
  case (Some u)
  have "\<not> snd (parse_user_info [])" by code_simp
  with Some have "header_get h user_info_header \<noteq> []"
    by (auto simp: user_info_from_def split: prod.splits if_splits)
  then have "map_of h (canonical_header_key user_info_header) \<noteq> None"
    by (auto simp: header_get_def split: option.splits)
  then have "canonical_header_key user_info_header \<in> fst ` set h"
    by (simp add: map_of_eq_None_iff)
  then show ?thesis by (auto simp: hide_quota_def header_set_def dom_update)
qed

text \<open>A candidate is named by a rule or by a header that came in.\<close>

lemma collect_names:
  assumes "is_order ord" "c \<in> set (collect ord e h rq)"
  obtains rl where "rl \<in> set (eng_rules e)" "cand_name c = rule_name rl"
    | vs where "(cand_name c, vs) \<in> set h"
proof -
  consider rl where "rl \<in> set (eng_rules e)" "rule_candidate e h rq rl = Some c"
    | key vs where "(key, vs) \<in> set h" "scan_candidate e (key, vs) = Some c"
    using assms by (auto simp: collect_def set_map_filter order_set split: if_splits)
  then show thesis
    by cases (auto dest!: rule_candidate_name scan_candidate_name intro: that)
qed

lemma apply_log_from:
  assumes "info_of l p r rq" "px_engine p = Some e" "is_order ord"
    and "\<And>k vs. (k, vs) \<in> set h \<Longrightarrow> (''header'', Log_Text k) \<in> log_sources l p up r"
  shows "attrs_of (apply_log ord e h rq) \<subseteq> log_sources l p up r"
proof -
  let ?h = "hide_quota e h"
  have keys: "(''header'', Log_Text k) \<in> log_sources l p up r" if "(k, vs) \<in> set ?h" for k vs
  proof -
    from that have "k \<in> fst ` set ?h" by (simp add: rev_image_eqI)
    then obtain vs' where "(k, vs') \<in> set h" unfolding hide_quota_keys by auto
    then show ?thesis by (rule assms(4))
  qed
  have "(''header'', Log_Text (cand_name c)) \<in> log_sources l p up r" if "c \<in> set (collect ord e ?h rq)" for c
    by (rule collect_names [OF assms(3) that]) (auto intro: keys log_sources.header_rule [OF assms(2)])
  then have "attrs_of (rewrite_log rq src {} (collect ord e ?h rq)) \<subseteq> log_sources l p up r" for src
    by (rule rewrite_log_from [OF assms(1)])
  then show ?thesis
    using fetch_log_from [OF assms(1,2)] by (simp add: apply_log_def Let_def)
qed

lemma shuffle_log_from:
  "info_of l p r (ri_request i) \<Longrightarrow> attrs_of (shuffle_log l p env i resp) \<subseteq> log_sources l p up r"
  by (auto simp: shuffle_log_def request_attrs split: option.splits prod.splits if_splits)

lemma notice_log_from:
  "info_of l p r rq \<Longrightarrow> attrs_of (notice_log p h rq n) \<subseteq> log_sources l p up r"
  by (auto simp: notice_log_def render_log_def dest: fetch_log_from split: option.splits)

lemma received_sent: "(k, vs) \<in> set (resp_header (received resp)) \<Longrightarrow> (k, vs) \<in> set (resp_header resp)"
proof -
  have "set (fold (\<lambda>k h. header_del h k) ks h) \<subseteq> set h" for ks h
  proof (induction ks arbitrary: h)
    case (Cons k ks)
    have "set (header_del h k) \<subseteq> set h" by (auto simp: header_del_def AList.delete_eq)
    with Cons [of "header_del h k"] show ?case by simp
  qed simp
  then have "set (remove_hop_headers h) \<subseteq> set h" for h unfolding remove_hop_headers_def .
  then show "(k, vs) \<in> set (resp_header (received resp)) \<Longrightarrow> (k, vs) \<in> set (resp_header resp)"
    by (auto simp: received_def split: if_splits)
qed

lemma modify_log_from:
  assumes "info_of l p r (ri_request i)" "up (rewrite_out l p r info) = Inr resp"
    and "is_order (env_header_order env)"
  shows "attrs_of (modify_log l p env (Some i) c (received resp)) \<subseteq> log_sources l p up r"
proof (cases "fst (replace_with_cache env i c (received resp))")
  case None
  have "attrs_of (case px_engine p of
      Some e \<Rightarrow> if px_rewrites p
        then apply_log (env_header_order env) e (resp_header (received resp)) (ri_request i) else []
    | None \<Rightarrow> []) \<subseteq> log_sources l p up r"
  proof (cases "px_engine p")
    case (Some e)
    have "attrs_of (apply_log (env_header_order env) e (resp_header (received resp)) (ri_request i))
        \<subseteq> log_sources l p up r"
      by (rule apply_log_from [OF assms(1) Some assms(3)])
        (rule log_sources.header_sent [where up = up and info = info, OF assms(2)], rule received_sent)
    with Some show ?thesis by simp
  qed simp
  with None notice_log_from [OF assms(1)] shuffle_log_from [OF assms(1)] show ?thesis
    by (simp add: modify_log_def split: option.split)
next
  case (Some resp')
  have "resp_status (received resp) = resp_status resp" by (simp add: received_def)
  with Some shuffle_log_from [OF assms(1)] request_attrs [OF assms(1)] log_sources.upstream_status [where up = up and info = info, OF assms(2)]
  show ?thesis by (simp add: modify_log_def)
qed

lemma error_log_from:
  assumes "\<And>i. info = Some i \<Longrightarrow> info_of l p r (ri_request i)"
    and "(''error'', Log_Error (Inr err)) \<in> log_sources l p up r" "(''path'', Log_Text pth) \<in> log_sources l p up r"
  shows "attrs_of (error_log env info c err pth) \<subseteq> log_sources l p up r"
  using assms(2,3) request_attrs [OF assms(1)]
  by (cases info) (auto simp: error_log_def split: option.splits)

lemma reverse_proxy_log_from:
  assumes "\<And>i. info = Some i \<Longrightarrow> info_of l p r (ri_request i)" "is_order (env_header_order env)"
  shows "attrs_of (reverse_proxy_log l p env up r info c) \<subseteq> log_sources l p up r"
proof (cases "printable (upgrade_type (in_header r))")
  case False
  then show ?thesis
    by (simp add: reverse_proxy_log_def error_log_from [OF assms(1)] log_sources.bad_protocol log_sources.path)
next
  case True
  have joined: "url_path (out_url (rewrite_out l p r info)) = join_path (url_path (opt_upstream (px_options p))) (in_path r)"
    by (simp add: rewrite_out_def rewrite_hook_def Let_def)
  show ?thesis
  proof (cases "up (rewrite_out l p r info)")
    case (Inl err)
    with True joined show ?thesis
      by (simp add: reverse_proxy_log_def error_log_from [OF assms(1)] log_sources.net_error [where up = up and info = info, OF Inl] log_sources.joined)
  next
    case (Inr resp)
    with True modify_log_from [where up = up and info = info, OF assms(1) Inr assms(2)] show ?thesis
      by (cases info) (simp_all add: reverse_proxy_log_def modify_log_def)
  qed
qed

lemma serve_log_from:
  assumes "is_order (env_header_order env)"
  shows "attrs_of (serve_log l p env up c r) \<subseteq> log_sources l p up r"
proof -
  let ?rt = "parse_route (in_path r) (opt_sub_prefix (px_options p))"
  have proxied: "attrs_of (reverse_proxy_log l p env up r None c) \<subseteq> log_sources l p up r"
    "attrs_of (reverse_proxy_log l p env up r (request_info_for l p c r) c) \<subseteq> log_sources l p up r"
    by (rule reverse_proxy_log_from [OF _ assms]; simp add: request_info_of)+
  have answered: "attrs_of (notice_log p [] (template_request l p r ?rt True) n) \<subseteq> log_sources l p up r" for n
    by (rule notice_log_from [OF template_info_of])
  show ?thesis
  proof (cases "notice_for p r")
    case None
    with proxied log_sources.path [of r l p up] show ?thesis by (simp add: serve_log_def)
  next
    case (Some n)
    from log_sources.rule [OF this, of l up] Some proxied answered log_sources.path [of r l p up]
      log_sources.short [of r p l up]
    show ?thesis by (simp add: serve_log_def Let_def)
  qed
qed

text \<open>The messages are fixed texts; nothing of a request is ever put into one.\<close>

definition log_messages :: "string list" where
  "log_messages =
    [''refused a probe without forwarding it'',
     ''answered a broken user agent without forwarding it'',
     ''serving a notice for a broken user agent'',
     ''upstream unreachable, served subscription from cache'',
     ''upstream returned an error, served subscription from cache'',
     ''upstream request failed'',
     ''subscription arrived compressed, hosts left in place'',
     ''shuffled subscription hosts'',
     ''rewrote subscription header'',
     ''panel has no such subscription'',
     ''subscription info lookup failed'']"

lemma fetch_log_messages: "messages_of (fetch_log e rq needed) \<subseteq> set log_messages"
  by (auto simp: fetch_log_def log_messages_def split: option.split sum.split)

lemma rewrite_log_messages: "messages_of (rewrite_log rq src W cs) \<subseteq> set log_messages"
proof (induction cs arbitrary: W)
  case (Cons c cs)
  have "''rewrote subscription header'' \<in> set log_messages" by (simp add: log_messages_def)
  with Cons show ?case by (simp add: Let_def)
qed simp

lemma engine_log_messages:
  "messages_of (apply_log ord e h rq) \<subseteq> set log_messages"
  "messages_of (notice_log p h rq n) \<subseteq> set log_messages"
  by (simp_all add: apply_log_def notice_log_def render_log_def Let_def fetch_log_messages rewrite_log_messages
      split: option.split)

lemma shuffle_log_messages: "messages_of (shuffle_log l p env i resp) \<subseteq> set log_messages"
  by (auto simp: shuffle_log_def log_messages_def split: option.splits prod.splits)

lemma modify_log_messages: "messages_of (modify_log l p env info c resp) \<subseteq> set log_messages"
proof -
  have "''upstream returned an error, served subscription from cache'' \<in> set log_messages"
    by (simp add: log_messages_def)
  then show ?thesis
    by (simp add: modify_log_def shuffle_log_messages engine_log_messages split: option.split)
qed

lemma error_log_messages: "messages_of (error_log env info c err pth) \<subseteq> set log_messages"
  by (auto simp: error_log_def log_messages_def split: option.split)

lemma serve_log_messages: "messages_of (serve_log l p env up c r) \<subseteq> set log_messages"
proof -
  have proxied: "messages_of (reverse_proxy_log l p env up r info c) \<subseteq> set log_messages" for info
    by (simp add: reverse_proxy_log_def Let_def modify_log_messages error_log_messages split: sum.split)
  have "''refused a probe without forwarding it'' \<in> set log_messages"
    "''answered a broken user agent without forwarding it'' \<in> set log_messages"
    "''serving a notice for a broken user agent'' \<in> set log_messages"
    by (simp_all add: log_messages_def)
  with proxied show ?thesis
    by (simp add: serve_log_def Let_def engine_log_messages split: option.split)
qed

text \<open>C12: Logs name the rule, never the user agent.  Whatever is logged about a request, at any level, its
  message is one of eleven fixed texts, and its attributes are the path, the short UUID and the
  client type that the path names, the name of the user-agent rule that was met, the name of a header
  of a rule or of the upstream's answer, the status of that answer, or an error that the upstream
  returned for the forwarded request or the panel for a call that is made of the short UUID and the
  client's address.  How an error reads is up to the code that made it.\<close>

theorem log_provenance:
  assumes "is_order (env_header_order env)"
  shows "messages_of (written minimum (serve_log l p env up c r)) \<subseteq> set log_messages
    \<and> attrs_of (written minimum (serve_log l p env up c r)) \<subseteq> log_sources l p up r"
  using serve_log_from [OF assms] attrs_of_written serve_log_messages messages_of_written by blast

section \<open>Two agents that one rule catches\<close>

definition same_but_agent :: "http_request \<Rightarrow> http_request \<Rightarrow> bool" where
  "same_but_agent r r' \<longleftrightarrow>
    in_path r = in_path r' \<and> in_host r = in_host r' \<and> in_tls r = in_tls r' \<and> in_remote r = in_remote r'
    \<and> (\<forall>k. k \<noteq> ''User-Agent'' \<longrightarrow> map_of (in_header r) k = map_of (in_header r') k)"

lemma same_but_agent_header:
  assumes "same_but_agent r r'" "canonical_header_key k \<noteq> ''User-Agent''"
  shows "header_get (in_header r) k = header_get (in_header r') k"
  using assms by (simp add: same_but_agent_def header_get_def)

lemma same_but_agent_upgrade:
  "same_but_agent r r' \<Longrightarrow> upgrade_type (in_header r) = upgrade_type (in_header r')"
  using same_but_agent_header [of r r' "''Upgrade''"]
  by (simp add: upgrade_type_def header_values_def hop_keys same_but_agent_def)

lemma same_but_agent_template:
  assumes "same_but_agent r r'"
  shows "template_request l p r' rt full
    = (template_request l p r rt full)\<lparr>rq_user_agent := header_get (in_header r') ''User-Agent''\<rparr>"
proof -
  have "ip_request_of r = ip_request_of r'"
    using assms by (simp add: ip_request_of_def same_but_agent_def)
  moreover have "subscription_url p r = subscription_url p r'"
  proof
    fix u
    have same: "in_host r = in_host r'" "in_tls r = in_tls r'"
      "header_get (in_header r) ''X-Forwarded-Host'' = header_get (in_header r') ''X-Forwarded-Host''"
      "header_get (in_header r) ''X-Forwarded-Proto'' = header_get (in_header r') ''X-Forwarded-Proto''"
      using assms same_but_agent_header [OF assms] by (simp_all add: same_but_agent_def forwarding_keys)
    show "subscription_url p r u = subscription_url p r' u" unfolding subscription_url_def same ..
  qed
  ultimately show ?thesis by (simp add: template_request_def)
qed

lemma agent_parts:
  "rq_short_uuid (rq\<lparr>rq_user_agent := ua\<rparr>) = rq_short_uuid rq"
  "rq_client_type (rq\<lparr>rq_user_agent := ua\<rparr>) = rq_client_type rq"
  "rq_client_ip (rq\<lparr>rq_user_agent := ua\<rparr>) = rq_client_ip rq"
  by simp_all

lemma fetch_agent [simp]:
  "fetch_log e (rq\<lparr>rq_user_agent := ua\<rparr>) needed = fetch_log e rq needed"
  "fetch_info e (rq\<lparr>rq_user_agent := ua\<rparr>) needed = fetch_info e rq needed"
  unfolding fetch_log_def fetch_info_def agent_parts by (rule refl)+

lemma render_log_agent [simp]: "render_log e h (rq\<lparr>rq_user_agent := ua\<rparr>) t = render_log e h rq t"
  by (simp add: render_log_def)

lemma notice_log_agent [simp]: "notice_log p h (rq\<lparr>rq_user_agent := ua\<rparr>) n = notice_log p h rq n"
  by (simp add: notice_log_def split: option.split)

lemma rewrite_log_agent:
  "rewrite_log (rq\<lparr>rq_user_agent := ua\<rparr>) (source_for (rq\<lparr>rq_user_agent := ua\<rparr>) ui i) W cs
    = rewrite_log rq (source_for rq ui i) W cs"
proof -
  have "candidate_matches (source_for (rq\<lparr>rq_user_agent := ua\<rparr>) ui i) = candidate_matches (source_for rq ui i)"
    by (simp add: fun_eq_iff candidate_matches_def source_for_def limit_of_def traffic_counters_def)
  then show ?thesis by (induction cs arbitrary: W) (simp_all add: Let_def)
qed

text \<open>Rules that look at the user agent can tell two agents apart; other rules cannot.\<close>

definition agent_blind :: "engine \<Rightarrow> bool" where
  "agent_blind e \<longleftrightarrow> (\<forall>rl \<in> set (eng_rules e). user_agent_re (rule_when rl) = None)"

lemma collect_agent:
  assumes "agent_blind e"
  shows "collect ord e h (rq\<lparr>rq_user_agent := ua\<rparr>) = collect ord e h rq"
proof -
  have "rule_candidate e h (rq\<lparr>rq_user_agent := ua\<rparr>) rl = rule_candidate e h rq rl" if "rl \<in> set (eng_rules e)" for rl
    using assms that by (simp add: agent_blind_def rule_candidate_def matches_request_def)
  then have "List.map_filter (rule_candidate e h (rq\<lparr>rq_user_agent := ua\<rparr>)) rls
      = List.map_filter (rule_candidate e h rq) rls" if "set rls \<subseteq> set (eng_rules e)" for rls
    using that by (induction rls) (simp_all add: List.map_filter_simps split: option.split)
  then show ?thesis by (simp add: collect_def)
qed

lemma apply_log_agent:
  "agent_blind e \<Longrightarrow> apply_log ord e h (rq\<lparr>rq_user_agent := ua\<rparr>) = apply_log ord e h rq"
  unfolding apply_log_def agent_parts fetch_agent rewrite_log_agent by (simp only: collect_agent)

lemma noticed_info:
  assumes "same_but_agent r r'" "notice_for p r = Some n" "notice_for p r' = Some n"
  obtains i where "request_info_for l p c r = Some i" "ri_cache_key i = []" "ri_notice i = Some n"
    "request_info_for l p c r' = Some (i\<lparr>ri_request :=
      (ri_request i)\<lparr>rq_user_agent := header_get (in_header r') ''User-Agent''\<rparr>\<rparr>)"
proof -
  have "px_observes p" using assms(2) by (simp add: notice_for_def split: if_splits)
  then show thesis
    using assms same_but_agent_template [OF assms(1), of l p]
    by (intro that [of "the (request_info_for l p c r)"])
      (simp_all add: request_info_for_def Let_def same_but_agent_def)
qed

lemma modify_log_noticed:
  assumes "ri_cache_key i = []" "ri_notice i = Some n" "\<And>e. px_engine p = Some e \<Longrightarrow> agent_blind e"
  shows "modify_log l p env (Some (i\<lparr>ri_request := (ri_request i)\<lparr>rq_user_agent := ua\<rparr>\<rparr>)) c resp
    = modify_log l p env (Some i) c resp"
  using assms by (cases "px_engine p") (simp_all add: modify_log_def no_key_no_replace apply_log_agent)

lemma error_log_noticed:
  "ri_cache_key i = [] \<Longrightarrow> error_log env (Some i) c err pth = error_log env None c err pth"
  by (simp add: error_log_def no_key_no_cache)

text \<open>C11: The agent itself is never logged, for it may be a live link.  Two requests that differ in their
  user agents only, both caught by the same rule, leave the same log: in full when the rule blocks;
  when it serves a notice, provided that the upstream, which sees the agents, answers both alike and
  that no header rule has a condition on the user agent.\<close>

theorem noticed_agent_unlogged:
  assumes "same_but_agent r r'" "notice_for p r = Some n" "notice_for p r' = Some n"
    and "agent_action (ca_rule n) = Some Agent_Block
      \<or> ((\<forall>e. px_engine p = Some e \<longrightarrow> agent_blind e)
         \<and> up (rewrite_out l p r (request_info_for l p c r)) = up (rewrite_out l p r' (request_info_for l p c r')))"
  shows "serve_log l p env up c r' = serve_log l p env up c r"
proof (cases "agent_action (ca_rule n) = Some Agent_Block")
  case True
  have "in_path r' = in_path r" "px_observes p"
    using assms(1,2) by (simp_all add: same_but_agent_def notice_for_def split: if_splits)
  with True assms(2,3) show ?thesis
    by (simp add: serve_log_def Let_def same_but_agent_template [OF assms(1)])
next
  case False
  with assms(4) have blind: "\<And>e. px_engine p = Some e \<Longrightarrow> agent_blind e"
    and up: "up (rewrite_out l p r (request_info_for l p c r)) = up (rewrite_out l p r' (request_info_for l p c r'))"
    by auto
  obtain i where i: "request_info_for l p c r = Some i" "ri_cache_key i = []" "ri_notice i = Some n"
    and i': "request_info_for l p c r' = Some (i\<lparr>ri_request :=
      (ri_request i)\<lparr>rq_user_agent := header_get (in_header r') ''User-Agent''\<rparr>\<rparr>)"
    by (rule noticed_info [OF assms(1-3)])
  have path: "in_path r' = in_path r" and observes: "px_observes p"
    using assms(1,2) by (simp_all add: same_but_agent_def notice_for_def split: if_splits)
  have joined: "url_path (out_url (rewrite_out l p q info)) = join_path (url_path (opt_upstream (px_options p))) (in_path q)"
    for q info
    by (simp add: rewrite_out_def rewrite_hook_def Let_def)
  note modify = modify_log_noticed [where p = p, OF i(2,3) blind]
  have "reverse_proxy_log l p env up r' (request_info_for l p c r') c
      = reverse_proxy_log l p env up r (request_info_for l p c r) c"
    using up i path
    by (simp add: reverse_proxy_log_def i' joined modify error_log_noticed same_but_agent_upgrade [OF assms(1)]
        split: sum.split)
  with assms(2,3) path observes False show ?thesis by (simp add: serve_log_def Let_def)
qed

section \<open>Instances\<close>

abbreviation sample_log :: "string \<Rightarrow> request_log" where
  "sample_log ua \<equiv>
    serve_log sample_libs sample_proxy sample_env (\<lambda>_. Inl Closed_Early) (Some (new_sub_cache 100 50 10)) (sample_get ua)"

text \<open>A pasted link, and what is written about it at the two lowest levels.\<close>

lemma sample_log_written:
  "map le_message (written Level_Debug (sample_log ''https://sub.example/aB3''))
    = [''serving a notice for a broken user agent'', ''upstream request failed'']"
  "written Level_Info (sample_log ''https://sub.example/aB3'') = []"
  by code_simp+

theorem log_provenance_witness:
  "messages_of (written Level_Debug (sample_log ''https://sub.example/aB3'')) \<subseteq> set log_messages
   \<and> attrs_of (written Level_Debug (sample_log ''https://sub.example/aB3''))
    \<subseteq> log_sources sample_libs sample_proxy (\<lambda>_. Inl Closed_Early) (sample_get ''https://sub.example/aB3'')"
  by (rule log_provenance) (simp add: sample_env_def is_order_rev)

theorem noticed_agent_unlogged_witness:
  "sample_log ''https://sub.example/aB3'' = sample_log ''http://other/secret''"
proof (rule noticed_agent_unlogged)
  show "same_but_agent (sample_get ''http://other/secret'') (sample_get ''https://sub.example/aB3'')"
    by (simp add: same_but_agent_def sample_get_def)
  have "map_option (agent_name \<circ> ca_rule) (notice_for sample_proxy (sample_get ''http://other/secret'')) \<noteq> None"
    "map_option (agent_name \<circ> ca_rule) (notice_for sample_proxy (sample_get ''https://sub.example/aB3'')) \<noteq> None"
    by code_simp+
  then show "notice_for sample_proxy (sample_get ''http://other/secret'') = Some pasted_link"
    "notice_for sample_proxy (sample_get ''https://sub.example/aB3'') = Some pasted_link"
    by (simp_all add: notice_for_def agent_match_def sample_proxy_def new_proxy_def Let_def split: if_splits)
qed (simp add: sample_proxy_def new_proxy_def Let_def)

end
