(* ===== verification/Start_Log.thy ===== *)
theory Start_Log
  imports App Logging
begin

text \<open>
  The log of the program around the requests, from \<open>cmd/subpage-proxy/main.go\<close>: what \<open>run\<close>, \<open>newHandler\<close>,
  \<open>newFetcher\<close> and \<open>serve\<close> report.  \<open>newFetcher\<close> pings the panel once and reports what came of it.  URLs
  are written for paths that need no escaping, durations in nanoseconds.
\<close>

type_synonym start_log = "panel_error log_entry list"

definition url_text :: "url \<Rightarrow> string" where
  "url_text u = url_scheme u @ ''://'' @ url_host u @ url_path u"

definition panel_url_attr :: "config \<Rightarrow> string \<times> panel_error log_value" where
  "panel_url_attr cfg = (''panel'', Log_Text (case pn_url (cfg_panel cfg) of Some u \<Rightarrow> url_text u | None \<Rightarrow> []))"

definition fetcher_log :: "network \<Rightarrow> string \<Rightarrow> string \<Rightarrow> config \<Rightarrow> start_log" where
  "fetcher_log net version metadata_path cfg =
    (if \<not> pn_enabled (cfg_panel cfg)
     then [logged Level_Warn
             ''panel access disabled; only placeholders answerable from response headers will resolve'' []]
     else
       (case new_client version (panel_options_of (cfg_panel cfg)) of
          None \<Rightarrow> []
        | Some client \<Rightarrow>
            (case ping net client metadata_path of
               Inl err \<Rightarrow>
                 [logged Level_Error
                    ''cannot reach the Remnawave panel; panel-backed placeholders will not resolve until it recovers''
                    [panel_url_attr cfg, (''error'', Log_Error err)]]
             | Inr panel_version \<Rightarrow>
                 [logged Level_Info ''connected to Remnawave panel''
                    [panel_url_attr cfg, (''panel_version'', Log_Text panel_version)]])))"

text \<open>\<open>newHandler\<close>, which reports nothing before it is sure to succeed.\<close>

definition handler_log :: "start_log \<Rightarrow> config \<Rightarrow> 'p proxy \<Rightarrow> start_log" where
  "handler_log fetcher cfg p =
    (let s = cfg_sub_cache cfg; agents = opt_user_agents (px_options p) in
     (if opt_sub_cache (px_options p) = None then []
      else [logged Level_Info ''subscription fallback cache enabled''
              [(''ttl'', Log_Number (sc_ttl s)), (''max_bytes'', Log_Number (sc_max_bytes s)),
               (''max_body'', Log_Number (sc_max_body s))]])
     @ (case px_shuffler p of
          None \<Rightarrow> []
        | Some sh \<Rightarrow>
            if sh_groups sh = [] then []
            else [logged Level_Info ''host shuffling enabled''
                    [(''groups'', Log_Number (int (length (sh_groups sh))))]])
     @ map (\<lambda>rule. logged Level_Warn ''user-agent rule disabled: it needs a message to show the user''
              [(''rule'', Log_Text rule)]) (filter_disabled agents)
     @ (if filter_enabled agents
        then [logged Level_Info ''user-agent filter enabled'' [(''rules'', Log_Number (int (filter_len agents)))]]
        else [])
     @ fetcher)"

text \<open>
  \<open>serve\<close>: \<open>listening\<close> are the addresses whose servers came to say so, in the order in which their
  goroutines ran.
\<close>

definition serving_log ::
    "string list \<Rightarrow> ('s \<Rightarrow> string option) \<Rightarrow> string option \<Rightarrow> 's list \<Rightarrow> start_log" where
  "serving_log listening shutdown listener_error servers =
    map (\<lambda>addr. logged Level_Info ''listening'' [(''addr'', Log_Text addr)]) listening
    @ (if listener_error \<noteq> None then []
       else
         logged Level_Info ''shutdown signal received, draining connections'' []
         # (if shutdown_servers shutdown servers \<noteq> None then [] else [logged Level_Info ''stopped'' []]))"

definition started_log :: "string \<Rightarrow> string \<Rightarrow> config \<Rightarrow> start_log" where
  "started_log version commit cfg =
    logged Level_Info ''starting remnawave-subpage-proxy''
      [(''version'', Log_Text version), (''commit'', Log_Text commit), (''listen'', Log_Text (http_addr (cfg_http cfg))),
       (''upstream'', Log_Text (url_text (upstream_url cfg))),
       (''sub_prefix'', Log_Text (or_none (sub_prefix (cfg_upstream cfg)))), (''config'', Log_Text (cfg_path cfg)),
       (''header_rules'', Log_Number (int (length (headers_opt (cfg_file cfg))))),
       (''scan_all_headers'', Log_Flag (scan_all_headers (template_opt (cfg_file cfg))))]
    # map (\<lambda>skipped. logged Level_Warn ''unknown config section ignored; it may need a newer version''
             [(''detail'', Log_Text skipped)]) (cfg_skipped cfg)"

definition run_log ::
    "network \<Rightarrow> string \<Rightarrow> string \<Rightarrow> string \<Rightarrow> (startup_error + config) \<Rightarrow> (config \<Rightarrow> handler_error + 'p proxy)
      \<Rightarrow> ('p server list \<Rightarrow> string option) \<Rightarrow> ('p server \<Rightarrow> string option) \<Rightarrow> string list \<Rightarrow> start_log" where
  "run_log net version commit metadata_path loaded setup_handler listener_error shutdown listening =
    (case loaded of
       Inl _ \<Rightarrow> []
     | Inr cfg \<Rightarrow>
         started_log version commit cfg
         @ (case setup_handler cfg of
              Inl _ \<Rightarrow> []
            | Inr p \<Rightarrow>
                handler_log (fetcher_log net version metadata_path cfg) cfg p
                @ (let servers = servers_of cfg p
                   in serving_log listening shutdown (listener_error servers) servers)))"

section \<open>What the log tells\<close>

text \<open>
  A panel that cannot be reached is reported at a level that is always written, and the program goes
  on: the handler is what it would have been.
\<close>

lemma unreachable_panel_reported:
  assumes "pn_enabled (cfg_panel cfg)" "new_client version (panel_options_of (cfg_panel cfg)) = Some client"
    and "ping net client metadata_path = Inl err" "setup_handler cfg = Inr p"
  shows "\<exists>rec \<in> set (written (parse_level (log_level (cfg_log cfg)))
      (run_log net version commit metadata_path (Inr cfg) setup_handler listener_error shutdown listening)).
    le_level rec = Level_Error \<and> (''error'', Log_Error err) \<in> set (le_attrs rec)"
proof -
  let ?rec = "logged Level_Error
    ''cannot reach the Remnawave panel; panel-backed placeholders will not resolve until it recovers''
    [panel_url_attr cfg, (''error'', Log_Error err)]"
  have "?rec \<in> set (run_log net version commit metadata_path (Inr cfg) setup_handler listener_error shutdown listening)"
    using assms by (simp add: run_log_def handler_log_def fetcher_log_def Let_def)
  then show ?thesis
    using errors_always_written by (intro bexI [of _ ?rec]) (simp_all add: written_def)
qed

text \<open>
  The secrets of the panel are in none of the records: with other secrets the log is the same, as
  long as the panel's answer to the ping and the handler's limits are.
\<close>

definition with_secrets :: "string \<Rightarrow> string \<Rightarrow> string \<Rightarrow> string \<Rightarrow> config \<Rightarrow> config" where
  "with_secrets tok caddy cf_id cf_secret cfg = cfg\<lparr>cfg_panel := (cfg_panel cfg)
    \<lparr>pn_token := tok, pn_caddy := caddy, pn_cloudflare_id := cf_id, pn_cloudflare_secret := cf_secret\<rparr>\<rparr>"

lemma secrets_unlogged:
  assumes "cfg' = with_secrets tok caddy cf_id cf_secret cfg"
    and "\<And>client client'. new_client version (panel_options_of (cfg_panel cfg)) = Some client
      \<Longrightarrow> new_client version (panel_options_of (cfg_panel cfg')) = Some client'
      \<Longrightarrow> ping net client metadata_path = ping net client' metadata_path"
  shows "started_log version commit cfg' = started_log version commit cfg"
    "handler_log (fetcher_log net version metadata_path cfg') cfg' p
      = handler_log (fetcher_log net version metadata_path cfg) cfg p"
proof -
  have parts: "cfg_http cfg' = cfg_http cfg" "upstream_url cfg' = upstream_url cfg" "cfg_upstream cfg' = cfg_upstream cfg"
    "cfg_path cfg' = cfg_path cfg" "cfg_file cfg' = cfg_file cfg" "cfg_skipped cfg' = cfg_skipped cfg"
    "cfg_sub_cache cfg' = cfg_sub_cache cfg" "panel_url_attr cfg' = panel_url_attr cfg"
    "pn_enabled (cfg_panel cfg') = pn_enabled (cfg_panel cfg)"
    by (simp_all add: assms(1) with_secrets_def upstream_url_def panel_url_attr_def)
  show "started_log version commit cfg' = started_log version commit cfg"
    by (simp add: started_log_def parts)
  have "pn_url (cfg_panel cfg') = pn_url (cfg_panel cfg)" by (simp add: assms(1) with_secrets_def)
  then have none: "new_client version (panel_options_of (cfg_panel cfg')) = None
      \<longleftrightarrow> new_client version (panel_options_of (cfg_panel cfg)) = None"
    by (simp add: new_client_def panel_options_of_def)
  have "fetcher_log net version metadata_path cfg' = fetcher_log net version metadata_path cfg"
  proof (cases "new_client version (panel_options_of (cfg_panel cfg))")
    case None
    with none show ?thesis by (simp add: fetcher_log_def parts)
  next
    case (Some client)
    with none obtain client' where "new_client version (panel_options_of (cfg_panel cfg')) = Some client'" by auto
    with Some assms(2) [OF Some this] show ?thesis unfolding fetcher_log_def parts by simp
  qed
  then show "handler_log (fetcher_log net version metadata_path cfg') cfg' p
      = handler_log (fetcher_log net version metadata_path cfg) cfg p"
    by (simp add: handler_log_def parts)
qed

end
