(* ===== verification/Interleaving.thy ===== *)
theory Interleaving
  imports System
begin

text \<open>
  Requests in flight at the same time.  Between its arrival and its answer a request goes to the
  fallback cache at most once, under the mutex of the cache; what it does before and after touches
  nothing that is shared.  The step relation lets any number of requests run into each other, and
  the theorem finds the list of turns that comes to the same cache and the same answers.
\<close>

section \<open>What a request sees of the cache\<close>

text \<open>The entry that the one look-up of a request gives it, nothing for a request without a key.\<close>

definition look_up :: "('a, 'p, 'm) libs \<Rightarrow> 'p proxy \<Rightarrow> sub_cache \<Rightarrow> turn \<Rightarrow> entry option" where
  "look_up l p sc q =
    (case keyed_info l p (Some sc) q of
       None \<Rightarrow> None
     | Some i \<Rightarrow> fst (sub_get sc (env_now (tn_env q)) (ri_cache_key i)))"

lemma answered_by_look_up:
  assumes "max_body sc = max_body sc'" "look_up l p sc q = look_up l p sc' q"
  shows "answered (serve_turn l p (Some sc) q) = answered (serve_turn l p (Some sc') q)"
proof (cases "blocked (opt_blocker (px_options p)) (in_path (tn_request q))")
  case True
  then show ?thesis by (simp add: serve_turn_def serve_http_def)
next
  case False
  have "looks_alike (tn_env q) i sc sc'" if i: "request_info_for l p (Some sc) (tn_request q) = Some i" for i
  proof (cases "ri_cache_key i = []")
    case True
    with assms(1) show ?thesis by (simp add: looks_alike_def no_key_no_cache)
  next
    case key: False
    with i False have "keyed_info l p (Some sc) q = Some i" by (simp add: keyed_info_def)
    moreover from this have "keyed_info l p (Some sc') q = Some i"
      using keyed_info_any [of l p sc' q sc] by simp
    ultimately show ?thesis
      using assms key by (simp add: looks_alike_def look_up_def cached_touch)
  qed
  then have "serve_turn l p (Some sc') q = (serve_turn l p (Some sc) q)
      \<lparr>cache_after := cache_after (serve_turn l p (Some sc') q)\<rparr>"
    by (rule answer_by_look)
  then have "answered (serve_turn l p (Some sc') q) = answered ((serve_turn l p (Some sc) q)
      \<lparr>cache_after := cache_after (serve_turn l p (Some sc') q)\<rparr>)" by simp
  then show ?thesis by simp
qed

text \<open>What it will do there is settled without the cache, but for the limit on bodies.\<close>

lemma shaped_any:
  assumes "ri_notice i = None" "resp_status resp < 500" "max_body sc = max_body sc'"
  shows "shaped l p sc q i resp = shaped l p sc' q i resp"
  using modify_kept [OF replace_below_500, of "received resp" l "at_turn p q" "tn_env q" i "Some sc"]
    modify_kept [OF replace_below_500, of "received resp" l "at_turn p q" "tn_env q" i "Some sc'"] assms
  by (simp add: shaped_def Let_def store_alike [OF assms(3)])

lemma event_any:
  assumes "max_body sc = max_body sc'"
  shows "cache_event_of l p sc q = cache_event_of l p sc' q"
proof (cases "keyed_info l p (Some sc) q")
  case None
  then have "keyed_info l p (Some sc') q = None" using keyed_info_any [of l p sc' q sc] by simp
  with None show ?thesis by (simp add: cache_event_of_def)
next
  case (Some i)
  then have "keyed_info l p (Some sc') q = Some i" using keyed_info_any [of l p sc' q sc] by simp
  with Some shaped_any [OF keyed_infoD(4) [OF Some] _ assms, of _ l p q] assms show ?thesis
    by (auto simp: cache_event_of_def Let_def split: sum.split)
qed

section \<open>Steps\<close>

text \<open>
  Where a request is: on its way to the cache, with what it will do there; past the cache, with the
  entry it was given; answered.  \<open>fl_order\<close> records the turns in the order in which they were at the
  cache, and the number in a phase is the place of the request in it.
\<close>

type_synonym sub_event = "((string, entry) iter_order, string, response_parts) cache_event"

datatype phase =
    Heading turn "sub_event option"
  | Past turn nat "entry option"
  | Answered turn nat answer

record flight =
  fl_cache :: sub_cache
  fl_phase :: "nat \<Rightarrow> phase option"
  fl_order :: "turn list"

definition run_plan :: "sub_event option \<Rightarrow> sub_cache \<Rightarrow> sub_cache" where
  "run_plan ev sc = (case ev of None \<Rightarrow> sc | Some ev \<Rightarrow> run_event sub_touch sub_store ev sc)"

inductive flight_step :: "('a, 'p, 'm) libs \<Rightarrow> 'p proxy \<Rightarrow> flight \<Rightarrow> flight \<Rightarrow> bool" for l p where
  arrives: "fl_phase s j = None
    \<Longrightarrow> flight_step l p s
          (s\<lparr>fl_phase := (fl_phase s)(j \<mapsto> Heading q (cache_event_of l p (fl_cache s) q))\<rparr>)"
| at_cache: "fl_phase s j = Some (Heading q ev)
    \<Longrightarrow> flight_step l p s
          (s\<lparr>fl_cache := run_plan ev (fl_cache s),
             fl_phase := (fl_phase s)(j \<mapsto> Past q (length (fl_order s)) (look_up l p (fl_cache s) q)),
             fl_order := fl_order s @ [q]\<rparr>)"
| answers: "fl_phase s j = Some (Past q n found) \<Longrightarrow> max_body sc = max_body (fl_cache s)
    \<Longrightarrow> look_up l p sc q = found
    \<Longrightarrow> flight_step l p s
          (s\<lparr>fl_phase := (fl_phase s)(j \<mapsto> Answered q n (answered (serve_turn l p (Some sc) q)))\<rparr>)"

inductive_cases flight_stepE: "flight_step l p s s'"

inductive flown :: "('a, 'p, 'm) libs \<Rightarrow> 'p proxy \<Rightarrow> sub_cache \<Rightarrow> flight \<Rightarrow> bool" for l p sc where
  empty_sky: "flown l p sc \<lparr>fl_cache = sc, fl_phase = (\<lambda>_. None), fl_order = []\<rparr>"
| flies: "flown l p sc s \<Longrightarrow> flight_step l p s s' \<Longrightarrow> flown l p sc s'"

section \<open>The list of turns behind a run\<close>

text \<open>The cache before the \<open>n\<close>th turn.\<close>

definition cache_at :: "('a, 'p, 'm) libs \<Rightarrow> 'p proxy \<Rightarrow> sub_cache \<Rightarrow> turn list \<Rightarrow> nat \<Rightarrow> sub_cache" where
  "cache_at l p sc qs n = run_events (history l p sc (take n qs)) sc"

lemma cache_at_config [simp]: "max_body (cache_at l p sc qs n) = max_body sc"
  by (simp add: cache_at_def)

lemma cache_at_earlier: "n \<le> length qs \<Longrightarrow> cache_at l p sc (qs @ qs') n = cache_at l p sc qs n"
  by (simp add: cache_at_def)

definition phase_ok :: "('a, 'p, 'm) libs \<Rightarrow> 'p proxy \<Rightarrow> sub_cache \<Rightarrow> turn list \<Rightarrow> phase \<Rightarrow> bool" where
  "phase_ok l p sc qs ph =
    (case ph of
       Heading q ev \<Rightarrow> ev = cache_event_of l p sc q
     | Past q n found \<Rightarrow> n < length qs \<and> qs ! n = q \<and> found = look_up l p (cache_at l p sc qs n) q
     | Answered q n a \<Rightarrow>
         n < length qs \<and> qs ! n = q \<and> a = answered (serve_turn l p (Some (cache_at l p sc qs n)) q))"

definition flight_ok :: "('a, 'p, 'm) libs \<Rightarrow> 'p proxy \<Rightarrow> sub_cache \<Rightarrow> flight \<Rightarrow> bool" where
  "flight_ok l p sc s \<longleftrightarrow>
    fl_cache s = cache_at l p sc (fl_order s) (length (fl_order s))
    \<and> (\<forall>j ph. fl_phase s j = Some ph \<longrightarrow> phase_ok l p sc (fl_order s) ph)"

lemma phase_ok_later: "phase_ok l p sc qs ph \<Longrightarrow> phase_ok l p sc (qs @ qs') ph"
  by (auto simp: phase_ok_def nth_append cache_at_earlier split: phase.splits)

lemma flight_step_ok:
  assumes "flight_step l p s s'" "flight_ok l p sc s" "0 \<le> max_body sc"
  shows "flight_ok l p sc s'"
  using assms(1)
proof cases
  case (arrives j q)
  have "max_body (fl_cache s) = max_body sc" using assms(2) by (simp add: flight_ok_def)
  from event_any [OF this] arrives assms(2) show ?thesis
    by (auto simp: flight_ok_def phase_ok_def)
next
  case (at_cache j q ev)
  let ?c = "fl_cache s" and ?qs = "fl_order s"
  have c: "?c = run_events (history l p sc ?qs) sc" using assms(2) by (simp add: flight_ok_def cache_at_def)
  have "phase_ok l p sc ?qs (Heading q ev)" using assms(2) at_cache(2) by (simp add: flight_ok_def)
  then have ev: "ev = cache_event_of l p ?c q"
    using event_any [of ?c sc l p q] by (simp add: phase_ok_def c)
  have "run_plan ev ?c = cache_at l p sc (?qs @ [q]) (length (?qs @ [q]))"
    using c ev by (auto simp: cache_at_def history_snoc [OF assms(3)] run_plan_def split: option.split)
  moreover have "phase_ok l p sc (?qs @ [q]) (Past q (length ?qs) (look_up l p ?c q))"
    using c by (simp add: phase_ok_def cache_at_def)
  ultimately show ?thesis
    using at_cache assms(2) phase_ok_later [of l p sc ?qs _ "[q]"] by (auto simp: flight_ok_def)
next
  case (answers j q n found c)
  from assms(2) answers(2) have past: "phase_ok l p sc (fl_order s) (Past q n found)"
    by (auto simp: flight_ok_def)
  have "answered (serve_turn l p (Some c) q)
      = answered (serve_turn l p (Some (cache_at l p sc (fl_order s) n)) q)"
    using answers past assms(2) by (intro answered_by_look_up) (auto simp: phase_ok_def flight_ok_def)
  with past have "phase_ok l p sc (fl_order s) (Answered q n (answered (serve_turn l p (Some c) q)))"
    by (simp add: phase_ok_def)
  with answers assms(2) show ?thesis by (auto simp: flight_ok_def)
qed

lemma flown_ok:
  assumes "flown l p sc s" "0 \<le> max_body sc" shows "flight_ok l p sc s"
  using assms(1)
proof induction
  case empty_sky
  show ?case by (simp add: flight_ok_def cache_at_def)
next
  case (flies s s')
  from flies(2,3) assms(2) show ?case by (rule flight_step_ok)
qed

text \<open>C3: Requests that run at the same time do as if they came one after the other: however they
  interleave, the cache is the one that the list of turns in the order of their visits to it
  leaves, and every answer is the one that its turn gets in that list.\<close>

theorem interleaving_is_history:
  assumes "flown l p (new_sub_cache ttl mb mbody) s" "0 \<le> mbody"
  shows "cache_run l p (Some (new_sub_cache ttl mb mbody)) (fl_order s) = Some (fl_cache s)
    \<and> (\<forall>j q n a. fl_phase s j = Some (Answered q n a) \<longrightarrow>
         n < length (fl_order s) \<and> fl_order s ! n = q
         \<and> a = answered (serve_turn l p
              (cache_run l p (Some (new_sub_cache ttl mb mbody)) (take n (fl_order s))) q))"
proof -
  let ?c = "new_sub_cache ttl mb mbody"
  have c: "0 \<le> max_body ?c" using assms(2) by (simp add: new_sub_cache_def)
  from flown_ok [OF assms(1) c] show ?thesis
    by (force simp: flight_ok_def phase_ok_def cache_run_history [OF c] cache_at_def)
qed

text \<open>
  A request that comes while the page is down overtakes, on its way to the answer, one whose
  subscription has just been stored: it is answered with that subscription.
\<close>

lemma sample_flight:
  "\<exists>s a. flown sample_libs sample_proxy empty_cache s
    \<and> fl_order s = [good_turn, down_turn] \<and> fl_phase s 1 = Some (Answered down_turn 1 a)
    \<and> fl_phase s 0 = Some (Past good_turn 0 (look_up sample_libs sample_proxy empty_cache good_turn))"
proof -
  let ?step = "flight_step sample_libs sample_proxy" and ?flown = "flown sample_libs sample_proxy empty_cache"
  let ?ev = "cache_event_of sample_libs sample_proxy empty_cache"
  let ?look = "look_up sample_libs sample_proxy"
  define c1 where "c1 = run_plan (?ev good_turn) empty_cache"
  define c2 where "c2 = run_plan (?ev down_turn) c1"
  have limit: "max_body c2 = max_body c1" by (simp add: c2_def run_plan_def split: option.split)
  have "?flown \<lparr>fl_cache = empty_cache, fl_phase = [0 \<mapsto> Heading good_turn (?ev good_turn)], fl_order = []\<rparr>"
    using flies [OF empty_sky arrives [where j = 0 and q = good_turn]] by simp
  then have "?flown \<lparr>fl_cache = empty_cache, fl_phase = [0 \<mapsto> Heading good_turn (?ev good_turn),
      1 \<mapsto> Heading down_turn (?ev down_turn)], fl_order = []\<rparr>"
    by (rule flies) (use arrives [where j = 1 and q = down_turn and l = sample_libs and p = sample_proxy
      and s = "\<lparr>fl_cache = empty_cache, fl_phase = [0 \<mapsto> Heading good_turn (?ev good_turn)], fl_order = []\<rparr>"]
      in simp)
  then have "?flown \<lparr>fl_cache = c1, fl_phase = [0 \<mapsto> Past good_turn 0 (?look empty_cache good_turn),
      1 \<mapsto> Heading down_turn (?ev down_turn)], fl_order = [good_turn]\<rparr>"
    by (rule flies) (use at_cache [where j = 0 and q = good_turn and l = sample_libs and p = sample_proxy
      and s = "\<lparr>fl_cache = empty_cache, fl_phase = [0 \<mapsto> Heading good_turn (?ev good_turn),
        1 \<mapsto> Heading down_turn (?ev down_turn)], fl_order = []\<rparr>"] in \<open>simp add: c1_def fun_upd_twist\<close>)
  then have "?flown \<lparr>fl_cache = c2, fl_phase = [0 \<mapsto> Past good_turn 0 (?look empty_cache good_turn),
      1 \<mapsto> Past down_turn 1 (?look c1 down_turn)], fl_order = [good_turn, down_turn]\<rparr>"
    by (rule flies) (use at_cache [where j = 1 and q = down_turn and l = sample_libs and p = sample_proxy
      and s = "\<lparr>fl_cache = c1, fl_phase = [0 \<mapsto> Past good_turn 0 (?look empty_cache good_turn),
        1 \<mapsto> Heading down_turn (?ev down_turn)], fl_order = [good_turn]\<rparr>"] in \<open>simp add: c2_def\<close>)
  then have "?flown \<lparr>fl_cache = c2, fl_phase = [0 \<mapsto> Past good_turn 0 (?look empty_cache good_turn),
      1 \<mapsto> Answered down_turn 1 (answered (serve_turn sample_libs sample_proxy (Some c1) down_turn))],
      fl_order = [good_turn, down_turn]\<rparr>"
    by (rule flies) (use limit answers [where j = 1 and q = down_turn and sc = c1 and l = sample_libs and p = sample_proxy
      and s = "\<lparr>fl_cache = c2, fl_phase = [0 \<mapsto> Past good_turn 0 (?look empty_cache good_turn),
        1 \<mapsto> Past down_turn 1 (?look c1 down_turn)], fl_order = [good_turn, down_turn]\<rparr>"] in simp)
  then show ?thesis by fastforce
qed

theorem interleaving_is_history_witness:
  "\<exists>s. flown sample_libs sample_proxy empty_cache s
    \<and> fl_phase s 1 = Some (Answered down_turn 1 (sample_serve (sample_run [good_turn]) down_turn))
    \<and> sample_run [good_turn, down_turn] = Some (fl_cache s)"
proof -
  obtain s a where s: "flown sample_libs sample_proxy empty_cache s" "fl_order s = [good_turn, down_turn]"
    "fl_phase s 1 = Some (Answered down_turn 1 a)"
    using sample_flight by blast
  note run = interleaving_is_history [OF s(1) [unfolded empty_cache_def], folded empty_cache_def, simplified]
  from run s(3) have "a = sample_serve (sample_run (take 1 (fl_order s))) down_turn" by blast
  with run s show ?thesis by (intro exI [of _ s]) simp
qed

end
