(* ===== verification/Spec2Isabelle.thy ===== *)
theory Spec2Isabelle
  imports Codec Userinfo Engine Panel_Cache Subcache Formats Placeholder Realip Block Patterns Body Proxy Env_Values
    Config_File Config_Load App Json_Codec Placeholder_Json
    Netip Hop_Headers System Panel_Access Logging Request_Log Start_Log Interleaving
begin

text \<open>
  The Remnawave subscription-page proxy, a Go program that stands between subscription clients and
  the Remnawave subscription page: it refuses scanners, forwards the rest, rewrites the headers of
  a subscription (asking the panel for what they cannot say), shuffles the hosts inside the body,
  answers broken user agents with a message, and replays the last good response while the page is
  down.

  The parts, from the bottom up, with the sources they model (under \<open>src/internal\<close>):

  \<^item> \<open>Prelude\<close> holds the shared lemmas and the reading of Go maps: an association list with distinct
    keys, and for each \<open>range\<close> over a map an order given as an argument, so that the theorems hold for
    every order Go may choose.  \<open>Go_Unicode\<close>, \<open>Go_Strings\<close>, \<open>Go_Float\<close> and \<open>Go_Http\<close> write out what the
    program uses of Go's library: UTF-8, \<open>strings\<close>, \<open>strconv\<close>, float64 arithmetic, header maps with
    canonical keys; \<open>String_Facts\<close>, \<open>Utf8_Facts\<close> and \<open>Case_Facts\<close> are their lemmas.
  \<^item> \<open>B64\<close> (\<open>b64\<close>), \<open>Tmpl\<close> (\<open>tmpl\<close>), \<open>Codec\<close> (\<open>rewrite/codec.go\<close>), \<open>Userinfo\<close> and \<open>Vars\<close> (\<open>subinfo\<close>), and
    \<open>Engine\<close> (\<open>rewrite/engine.go\<close>): from a header value to its rewritten form.  The engine is a function
    from a header map to a header map and the panel call it made, if any.
  \<^item> \<open>Panel_Client\<close> and \<open>Panel_Cache\<close> (\<open>panel\<close>): the client's request and its reading of the answer, and
    the cache in front of it.  The cache is shared by concurrent requests; it is an inductive step
    relation over any number of callers whose steps are the stretches of code between two points
    where another goroutine may run, with an invariant over all reachable states.  \<open>Panel_Access\<close> shows
    that one call on its own is a function of the cache and a run of that relation, and puts the
    engine behind a cache with any history.
  \<^item> \<open>Subcache\<close> (\<open>subcache\<close>): the fallback cache as a record with its operations, each of which runs
    under the mutex.  \<open>Cache_Laws\<close> states what both caches promise as a locale, the history of
    look-ups and stores, and each of them is an interpretation of it.
  \<^item> \<open>Shuffle\<close>, \<open>Links\<close>, \<open>Formats\<close> and \<open>Placeholder\<close> (\<open>hosts\<close>): sniffing a body, permuting its hosts, and
    the bodies that carry a message.  The random source is an argument.
  \<^item> \<open>Json\<close>, \<open>Json_Text\<close>, \<open>Documents\<close> and \<open>Json_Codec\<close> (\<open>hosts/jsonobj.go\<close> and what it uses of
    \<open>encoding/json\<close>): the grammar of RFC 8259 as a relation, a parser and a printer for it, what escaped
    texts say, the laws the shuffles rely on as a locale, and its interpretation on \<open>parseObject\<close>,
    \<open>parseArray\<close> and the concrete library \<open>go_json\<close>.  \<open>Placeholder_Json\<close> writes the placeholder documents
    with it.
  \<^item> \<open>Realip\<close> (\<open>realip\<close>), \<open>Block\<close> (\<open>proxy/route.go\<close> and \<open>block.go\<close>), \<open>Config_Types\<close> and \<open>Patterns\<close> (\<open>config\<close>):
    whose address a request carries, what its path means, and what the operator configured.  \<open>Netip\<close>
    writes out what \<open>realip\<close> uses of Go's \<open>net/netip\<close>, on 32 and 128 bit words, with the round trip of
    reading and printing.
  \<^item> \<open>Body\<close> (\<open>proxy/body.go\<close>, \<open>headercase.go\<close>) and \<open>Proxy\<close> (the rest of \<open>proxy\<close>): one request from
    \<open>ServeHTTP\<close> to the bytes the client gets, with the fallback cache passed along.  \<open>Hop_Headers\<close> is what
    \<open>ReverseProxy\<close> does to headers around the hooks.  \<open>System\<close> runs any list of requests, each with its
    own clock, upstream, panel, random numbers and orders, through one cache; a request comes to the
    cache at most once and sees no more of it than what it looks up.  \<open>Interleaving\<close> lets any number of
    requests run into each other, as a step relation, and shows that they do what such a list does.
  \<^item> \<open>Env_Values\<close> (\<open>config/env.go\<close>), \<open>Config_File\<close> (\<open>config/file.go\<close>), \<open>Config_Load\<close> (\<open>config/config.go\<close>) and
    \<open>App\<close> (\<open>cmd/subpage-proxy/main.go\<close>): from the environment and the YAML file to the
    handler and the servers that are started.  The environment is a function, reading the file one
    of three outcomes.
  \<^item> \<open>Logging\<close> (\<open>logging\<close>) has the levels and the records, \<open>Request_Log\<close> what is logged about one request
    (the log calls of \<open>proxy\<close> and \<open>rewrite\<close>, branch by branch along \<open>Proxy\<close> and \<open>Engine\<close>), and \<open>Start_Log\<close>
    what \<open>main.go\<close> logs, the ping of the panel included.

  What the lemmas show.  Each component has its invariant or its functional specification next to
  its operations: the byte count and budget of the fallback cache, one fetch per key and no waiter
  left behind in the panel cache, round trips of the encodings, the first matching rule deciding a
  header whatever the order of the map, permutations that lose no host, the addresses a client can and
  cannot forge, and the paths that get through.  \<open>Proxy\<close> composes them for one request, and \<open>System\<close> over
  time: an outage is answered with the client's own subscription and nobody else's, what was served
  can be served again over any history in which the client is given nothing newer, the time to live
  has not passed and no more is stored than fits the budget, and the cache stays within that budget,
  also for requests that run at the same time (\<open>Interleaving\<close>).  What \<open>Load\<close> accepts satisfies
  \<open>good_config\<close>, and \<open>App\<close> shows that the handler can be built from such a configuration, unless
  \<open>TRUST_PROXY\<close> makes no sense (whether the port can be listened on is not modelled).  \<open>Request_Log\<close> shows that
  the messages are fixed texts, where every attribute comes from (how an error reads is left to the
  code that made it), and when two user agents caught by one rule leave the same log,
  and \<open>Start_Log\<close> that the secrets of the panel are not logged and that an unreachable panel is reported.

  Interfaces are locales: \<open>keyed_edits\<close> (a header map under edits, interpreted on the header
  operations), \<open>expiring_cache\<close> (interpreted on both caches), \<open>slot_permuter\<close> (interpreted on the
  shuffler), \<open>address_laws\<close> (what \<open>Realip\<close> relies on of addresses, interpreted on \<open>go_netip\<close>) and
  \<open>json_documents\<close> (interpreted on \<open>go_json\<close>).

  Bounds and fuel.  Loops are structural recursions or come with a measure; the second loop of
  \<open>evictLocked\<close> runs for as many rounds as there are entries, and as each removes one that is enough.
  An int64 is an \<open>int\<close> with the wrap-around written out where it can occur; the unsigned sums of
  \<open>time.ParseDuration\<close> are naturals modulo \<open>2 ^ 64\<close> with its overflow checks.

  The JSON scanner has rounds for twice the length of the text, which the grammar lemmas show to be
  enough, and Go's limit of 10000 open brackets.

  Parameters, for code that is not in the repository: YAML and, outside \<open>Json_Codec\<close> and \<open>Placeholder_Json\<close>, JSON libraries,
  \<open>url.Parse\<close>, regular expressions (as predicates, with a compiler that may reject), time zones and
  time formatting, the file system and the network.  Where a component takes the address library as
  an argument, its theorems hold for any, and \<open>Netip\<close> and \<open>App\<close> state what holds for Go's.

  Not modelled: the text or JSON that \<open>slog\<close> makes of a record and what \<open>ReverseProxy\<close> and the HTTP
  servers report themselves, signals and sockets, the timeouts and the tuning of the HTTP
  transports, the pool of copy buffers, the query of a URL, trailers and the copying of bytes after a protocol switch, the \<open>Flush\<close>, \<open>Hijack\<close> and \<open>Unwrap\<close>
  methods that only delegate, and the reason phrase of a response: none of them decides what a
  client is answered.
\<close>

end
